(* ===== verification/Prelude.thy ===== *)
theory Prelude
  imports Main "HOL-Library.Word"
begin

section \<open>Prelude: bytes, characters, buffers, views\<close>

text \<open>
  The vocabulary every component shares. A byte is an 8-bit word, a character view
  (\<open>etl::string_view\<close>) is a \<open>string\<close>, a span is a list and a caller-supplied mutable
  span is a list that is passed in and returned with the same length. Sizes are natural
  numbers; where the code adds to a \<open>size_t\<close> that no buffer bounds, the wrap-around modulo
  \<open>2 ^ 64\<close> is written out with \<open>wrap_size\<close>.
\<close>

named_theorems config_defs "the compile-time capacities of etlx_config.hpp"
named_theorems category_defs "the error categories of the components"
named_theorems buffer_simps "facts about writes into fixed buffers"

type_synonym u8 = "8 word"
type_synonym u32 = "32 word"
type_synonym u64 = "64 word"
type_synonym bytes = "u8 list"

subsection \<open>Characters and bytes\<close>

text \<open>\<open>reinterpret_cast\<close> between \<open>const char*\<close> and \<open>const uint8_t*\<close>.\<close>

definition byte_of_char :: "char \<Rightarrow> u8" where
  "byte_of_char c = word_of_nat (of_char c)"

definition char_of_byte :: "u8 \<Rightarrow> char" where
  "char_of_byte b = char_of (unat b)"

abbreviation bytes_of :: "string \<Rightarrow> bytes" where
  "bytes_of \<equiv> map byte_of_char"

abbreviation chars_of :: "bytes \<Rightarrow> string" where
  "chars_of \<equiv> map char_of_byte"

lemma unat_byte_of_char [simp]: "unat (byte_of_char c) = of_char c"
proof -
  have "(of_char c :: nat) mod 256 = of_char c"
    using nat_of_char_less_256 [of c] by (rule mod_less)
  then show ?thesis
    by (simp add: byte_of_char_def unat_of_nat take_bit_eq_mod)
qed

lemma char_of_byte_of_char [simp]: "char_of_byte (byte_of_char c) = c"
  by (simp add: char_of_byte_def)

lemma byte_of_char_of_byte [simp]: "byte_of_char (char_of_byte b) = b"
proof -
  have "unat b < 2 ^ LENGTH(8)"
    by (rule unsigned_less)
  then show ?thesis
    by (simp add: char_of_byte_def byte_of_char_def)
qed

lemma char_byte_comp [simp]:
  "char_of_byte \<circ> byte_of_char = id" "byte_of_char \<circ> char_of_byte = id"
  by (simp_all add: fun_eq_iff)

lemma chars_of_bytes_of [simp]: "chars_of (bytes_of s) = s"
  by simp

lemma bytes_of_chars_of [simp]: "bytes_of (chars_of b) = b"
  by simp

lemma bytes_of_eq_iff [simp]: "bytes_of s = bytes_of t \<longleftrightarrow> s = t"
  by (metis chars_of_bytes_of)

subsection \<open>Sizes\<close>

definition wrap_size :: "nat \<Rightarrow> nat" where
  "wrap_size n = n mod 2 ^ 64"

lemma wrap_size_add [simp]:
  "wrap_size (wrap_size m + n) = wrap_size (m + n)"
  "wrap_size (m + wrap_size n) = wrap_size (m + n)"
  by (simp_all add: wrap_size_def mod_simps)

lemma wrap_size_id: "n < 2 ^ 64 \<Longrightarrow> wrap_size n = n"
  by (simp add: wrap_size_def)

lemma wrap_size_0 [simp]: "wrap_size 0 = 0"
  by (simp add: wrap_size_def)

lemma wrap_size_bound: "wrap_size n < 2 ^ 64"
  by (simp add: wrap_size_def)

subsection \<open>Writes into fixed buffers\<close>

text \<open>\<open>memcpy(buf.data() + off, src, length src)\<close>: the buffer keeps its length.\<close>

definition memcpy :: "'a list \<Rightarrow> nat \<Rightarrow> 'a list \<Rightarrow> 'a list" where
  "memcpy buf off src = take off buf @ src @ drop (off + length src) buf"

lemma length_memcpy [simp]:
  "off + length src \<le> length buf \<Longrightarrow> length (memcpy buf off src) = length buf"
  by (simp add: memcpy_def)

lemma take_memcpy [buffer_simps]:
  "off + length src \<le> length buf \<Longrightarrow>
   take (off + length src) (memcpy buf off src) = take off buf @ src"
  by (simp add: memcpy_def)

lemma take_memcpy_0 [buffer_simps]: "take (length src) (memcpy buf 0 src) = src"
  by (simp add: memcpy_def)

lemma drop_memcpy [buffer_simps]:
  "off + length src \<le> length buf \<Longrightarrow>
   drop (off + length src) (memcpy buf off src) = drop (off + length src) buf"
  by (simp add: memcpy_def)

lemma memcpy_Nil [simp]: "off \<le> length buf \<Longrightarrow> memcpy buf off [] = buf"
  by (simp add: memcpy_def)

lemma memcpy_append [buffer_simps]:
  "off + length xs + length ys \<le> length buf \<Longrightarrow>
   memcpy (memcpy buf off xs) (off + length xs) ys = memcpy buf off (xs @ ys)"
  by (simp add: memcpy_def ac_simps)

subsection \<open>Views\<close>

text \<open>
  \<open>substr(pos, n)\<close> clamps at the end of the view, as \<open>etl::string_view\<close> and
  \<open>std::string_view\<close> do for a position inside the view; \<open>substr(pos)\<close> is \<open>drop\<close>.
  \<open>find\<close> answers \<open>npos\<close>, here \<open>None\<close>, when there is no occurrence.
\<close>

definition sv_substr :: "string \<Rightarrow> nat \<Rightarrow> nat \<Rightarrow> string" where
  "sv_substr s pos n = take n (drop pos s)"

fun sv_find_char :: "string \<Rightarrow> char \<Rightarrow> nat option" where
  "sv_find_char [] c = None"
| "sv_find_char (x # xs) c = (if x = c then Some 0 else map_option Suc (sv_find_char xs c))"

fun is_prefix :: "'a list \<Rightarrow> 'a list \<Rightarrow> bool" where
  "is_prefix [] ys = True"
| "is_prefix (x # xs) [] = False"
| "is_prefix (x # xs) (y # ys) = (x = y \<and> is_prefix xs ys)"

fun sv_find :: "string \<Rightarrow> string \<Rightarrow> nat option" where
  "sv_find [] pat = (if pat = [] then Some 0 else None)"
| "sv_find (x # xs) pat =
     (if is_prefix pat (x # xs) then Some 0 else map_option Suc (sv_find xs pat))"

definition sv_find_from :: "string \<Rightarrow> string \<Rightarrow> nat \<Rightarrow> nat option" where
  "sv_find_from s pat pos =
     (if pos \<le> length s then map_option ((+) pos) (sv_find (drop pos s) pat) else None)"

lemma is_prefix_iff: "is_prefix xs ys \<longleftrightarrow> take (length xs) ys = xs"
  by (induction xs ys rule: is_prefix.induct) auto

lemma is_prefix_append [simp]: "is_prefix xs (xs @ ys)"
  by (simp add: is_prefix_iff)

lemma sv_find_char_None: "sv_find_char s c = None \<longleftrightarrow> c \<notin> set s"
  by (induction s) auto

lemma sv_find_char_append [simp]:
  "c \<notin> set xs \<Longrightarrow> sv_find_char (xs @ c # ys) c = Some (length xs)"
  by (induction xs) auto

lemma sv_find_char_Some:
  "sv_find_char s c = Some i \<Longrightarrow> i < length s \<and> s ! i = c \<and> c \<notin> set (take i s)"
proof (induction s arbitrary: i)
  case Nil
  then show ?case by simp
next
  case (Cons x xs)
  then show ?case by (cases i) (auto split: if_splits)
qed

lemma sv_find_Some:
  "sv_find s pat = Some i \<Longrightarrow> i + length pat \<le> length s \<and> take (length pat) (drop i s) = pat"
proof (induction s arbitrary: i)
  case Nil
  then show ?case by (simp split: if_splits)
next
  case (Cons x xs)
  then show ?case
  proof (cases "is_prefix pat (x # xs)")
    case True
    then have "take (length pat) (x # xs) = pat" by (simp add: is_prefix_iff)
    then have "length pat \<le> length (x # xs)" by (metis length_take min.cobounded1)
    with True Cons.prems show ?thesis by (simp add: is_prefix_iff)
  next
    case False
    with Cons.prems obtain j where "sv_find xs pat = Some j" and "i = Suc j" by auto
    with Cons.IH [of j] show ?thesis by simp
  qed
qed

text \<open>An occurrence is found at the first position where the pattern matches.\<close>

lemma sv_find_first:
  assumes "\<And>k. k < length xs \<Longrightarrow> \<not> is_prefix pat (drop k (xs @ pat @ ys))" and "pat \<noteq> []"
  shows "sv_find (xs @ pat @ ys) pat = Some (length xs)"
  using assms(1)
proof (induction xs)
  case Nil
  from assms(2) show ?case by (cases pat) auto
next
  case (Cons x xs)
  have "\<not> is_prefix pat (x # xs @ pat @ ys)" using Cons.prems [of 0] by simp
  moreover have "sv_find (xs @ pat @ ys) pat = Some (length xs)"
  proof (rule Cons.IH)
    fix k assume "k < length xs"
    then show "\<not> is_prefix pat (drop k (xs @ pat @ ys))" using Cons.prems [of "Suc k"] by simp
  qed
  ultimately show ?case by simp
qed

subsection \<open>Loops over a result\<close>

lemma sum_case_Inl [simp]: "(case r of Inl e \<Rightarrow> Inl e | Inr x \<Rightarrow> Inr x) = r"
  by (cases r) auto

end
