(* ===== verification/Core.thy ===== *)
theory Core
  imports Prelude
begin

section \<open>Core: errors, results, capacities, time\<close>

text \<open>
  \<open>include/etlx/core\<close> and \<open>include/etlx/etlx_config.hpp\<close>. An \<open>Error\<close> is a category, a code
  and a message of bounded length; \<open>Result<T>\<close> (an \<open>etl::expected\<close>) is the sum type with the
  error on the left and \<open>Status\<close> a result that carries no value. The clock is an interface: its
  contract is the locale \<open>clock\<close>, which the simulated clock of the same header satisfies.
\<close>

subsection \<open>Capacities\<close>

definition ETLX_ERROR_MESSAGE_CAPACITY :: nat where
  [config_defs]: "ETLX_ERROR_MESSAGE_CAPACITY = 64"
definition ETLX_LOG_LINE_CAPACITY :: nat where
  [config_defs]: "ETLX_LOG_LINE_CAPACITY = 128"
definition ETLX_CLI_MAX_OPTIONS :: nat where
  [config_defs]: "ETLX_CLI_MAX_OPTIONS = 8"
definition ETLX_CLI_MAX_COMMANDS :: nat where
  [config_defs]: "ETLX_CLI_MAX_COMMANDS = 16"
definition ETLX_LOG_LEVEL :: int where
  [config_defs]: "ETLX_LOG_LEVEL = 4"
definition ETLX_KV_MAX_ENTRIES :: nat where
  [config_defs]: "ETLX_KV_MAX_ENTRIES = 16"
definition ETLX_KV_KEY_CAPACITY :: nat where
  [config_defs]: "ETLX_KV_KEY_CAPACITY = 32"
definition ETLX_KV_VALUE_CAPACITY :: nat where
  [config_defs]: "ETLX_KV_VALUE_CAPACITY = 128"
definition ETLX_HTTP_MAX_HEADERS :: nat where
  [config_defs]: "ETLX_HTTP_MAX_HEADERS = 16"
definition ETLX_EVENTS_QUEUE_DEPTH :: nat where
  [config_defs]: "ETLX_EVENTS_QUEUE_DEPTH = 16"
definition ETLX_EVENTS_MAX_TIMERS :: nat where
  [config_defs]: "ETLX_EVENTS_MAX_TIMERS = 8"

subsection \<open>Errors and results\<close>

type_synonym Code = int

record Category =
  cat_name :: string

text \<open>\<open>etl::string<N>::assign\<close> keeps the first \<open>N\<close> characters.\<close>

definition fixed_string :: "nat \<Rightarrow> string \<Rightarrow> string" where
  "fixed_string n s = take n s"

record Error =
  category :: "Category option"
  code :: Code
  message :: string

type_synonym 'a Result = "Error + 'a"
type_synonym Status = "unit Result"

definition NoError :: Error where
  "NoError = \<lparr>category = None, code = 0, message = []\<rparr>"

definition Error_ok :: "Error \<Rightarrow> bool" where
  "Error_ok e = (category e = None)"

definition error_Make :: "Category \<Rightarrow> Code \<Rightarrow> string \<Rightarrow> Error" where
  "error_Make cat c msg =
     \<lparr>category = Some cat, code = c, message = fixed_string ETLX_ERROR_MESSAGE_CAPACITY msg\<rparr>"

definition Ok :: Status where
  "Ok = Inr ()"

definition Fail :: "Category \<Rightarrow> Code \<Rightarrow> string \<Rightarrow> 'a Result" where
  "Fail cat c msg = Inl (error_Make cat c msg)"

abbreviation is_ok :: "'a Result \<Rightarrow> bool" where
  "is_ok r \<equiv> \<not> isl r"

text \<open>The code of a failed result, \<open>None\<close> for a success: what callers test.\<close>

definition err_code :: "'a Result \<Rightarrow> Code option" where
  "err_code r = (case r of Inl e \<Rightarrow> Some (code e) | Inr _ \<Rightarrow> None)"

lemma err_code_simps [simp]:
  "err_code (Inr x) = None"
  "err_code (Inl e) = Some (code e)"
  "err_code (Fail cat c msg) = Some c"
  by (simp_all add: err_code_def Fail_def error_Make_def)

lemma Fail_neq_Inr [simp]: "Fail cat c msg \<noteq> Inr x" "Inr x \<noteq> Fail cat c msg"
  by (simp_all add: Fail_def)

declare Ok_def [simp]

lemma error_Make_simps [simp]:
  "category (error_Make cat c msg) = Some cat"
  "code (error_Make cat c msg) = c"
  "\<not> Error_ok (error_Make cat c msg)"
  "length (message (error_Make cat c msg)) \<le> ETLX_ERROR_MESSAGE_CAPACITY"
  by (simp_all add: error_Make_def Error_ok_def fixed_string_def)

lemma NoError_ok [simp]: "Error_ok NoError"
  by (simp add: NoError_def Error_ok_def)

subsection \<open>Time\<close>

text \<open>
  Durations and time points are millisecond counts held in an \<open>int64_t\<close>. The arithmetic is
  signed, so an overflow has no defined result in the source; \<open>in_int64\<close> is the range where
  the integer sums below are what the code computes.
\<close>

definition in_int64 :: "int \<Rightarrow> bool" where
  "in_int64 x \<longleftrightarrow> - (2 ^ 63) \<le> x \<and> x < 2 ^ 63"

record Duration =
  d_ms :: int

record TimePoint =
  t_ms :: int

definition dur_add :: "Duration \<Rightarrow> Duration \<Rightarrow> Duration" where
  "dur_add a b = \<lparr>d_ms = d_ms a + d_ms b\<rparr>"

definition dur_sub :: "Duration \<Rightarrow> Duration \<Rightarrow> Duration" where
  "dur_sub a b = \<lparr>d_ms = d_ms a - d_ms b\<rparr>"

definition dur_less :: "Duration \<Rightarrow> Duration \<Rightarrow> bool" where
  "dur_less a b = (d_ms a < d_ms b)"

definition tp_sub :: "TimePoint \<Rightarrow> TimePoint \<Rightarrow> Duration" where
  "tp_sub a b = \<lparr>d_ms = t_ms a - t_ms b\<rparr>"

definition tp_add :: "TimePoint \<Rightarrow> Duration \<Rightarrow> TimePoint" where
  "tp_add a d = \<lparr>t_ms = t_ms a + d_ms d\<rparr>"

definition tp_less :: "TimePoint \<Rightarrow> TimePoint \<Rightarrow> bool" where
  "tp_less a b = (t_ms a < t_ms b)"

definition Milliseconds :: "int \<Rightarrow> Duration" where
  "Milliseconds n = \<lparr>d_ms = n\<rparr>"

definition Seconds :: "int \<Rightarrow> Duration" where
  "Seconds n = \<lparr>d_ms = n * 1000\<rparr>"

named_theorems time_defs "the arithmetic of Duration and TimePoint"

lemmas [time_defs] = dur_add_def dur_sub_def dur_less_def tp_sub_def tp_add_def tp_less_def
  Milliseconds_def Seconds_def

subsection \<open>The clock interface\<close>

text \<open>
  \<open>Now\<close> answers an instant and may advance the clock; \<open>SleepUntil t\<close> leaves the clock at
  \<open>t\<close> or later. Time never goes back.
\<close>

locale clock =
  fixes now :: "'c \<Rightarrow> TimePoint \<times> 'c"
    and sleep_until :: "TimePoint \<Rightarrow> 'c \<Rightarrow> 'c"
    and instant :: "'c \<Rightarrow> int"
  assumes now_reads: "now c = (t, c') \<Longrightarrow> instant c \<le> t_ms t \<and> t_ms t \<le> instant c'"
    and sleep_reaches: "t_ms t \<le> instant (sleep_until t c)"
    and sleep_monotone: "instant c \<le> instant (sleep_until t c)"
begin

lemma now_monotone: "now c = (t, c') \<Longrightarrow> instant c \<le> instant c'"
  using now_reads by fastforce

lemma now_after_sleep: "now (sleep_until t c) = (u, c') \<Longrightarrow> \<not> tp_less u t"
  using now_reads [of "sleep_until t c" u c'] sleep_reaches [of t c]
  by (simp add: tp_less_def)

end

record SimulatedClock =
  sim_now :: TimePoint

definition SimulatedClock_Now :: "SimulatedClock \<Rightarrow> TimePoint \<times> SimulatedClock" where
  "SimulatedClock_Now c = (sim_now c, c)"

definition SimulatedClock_SleepUntil :: "TimePoint \<Rightarrow> SimulatedClock \<Rightarrow> SimulatedClock" where
  "SimulatedClock_SleepUntil t c = (if tp_less (sim_now c) t then c\<lparr>sim_now := t\<rparr> else c)"

definition SimulatedClock_Advance :: "Duration \<Rightarrow> SimulatedClock \<Rightarrow> SimulatedClock" where
  "SimulatedClock_Advance d c = c\<lparr>sim_now := tp_add (sim_now c) d\<rparr>"

interpretation sim: clock SimulatedClock_Now SimulatedClock_SleepUntil "\<lambda>c. t_ms (sim_now c)"
  by unfold_locales
    (auto simp: SimulatedClock_Now_def SimulatedClock_SleepUntil_def tp_less_def)

end
