(* ===== verification/Kv.thy ===== *)
theory Kv
  imports Core
begin

section \<open>Kv: the in-memory key-value store\<close>

text \<open>
  \<open>include/etlx/storage/kv.hpp\<close> and \<open>src/storage/kv.cpp\<close>. The store is a map of bounded keys to
  bounded values with a bounded number of entries, kept as a vector of pairs ordered by key
  (\<open>etl::flat_map\<close>); the comparison of keys is the parameter \<open>lt\<close>, and nothing below depends on
  what it is. The interface \<open>KeyValueStore\<close> is the locale \<open>kv_store\<close>, stated over the abstract map
  from keys to values that a store holds.
\<close>

definition kv_Category :: Category where
  [category_defs]: "kv_Category = \<lparr>cat_name = ''storage''\<rparr>"

definition kv_NotFound :: Code where "kv_NotFound = 1"
definition kv_Full :: Code where "kv_Full = 2"
definition kv_TooLarge :: Code where "kv_TooLarge = 3"
definition kv_IoError :: Code where "kv_IoError = 4"

lemmas kv_codes = kv_NotFound_def kv_Full_def kv_TooLarge_def kv_IoError_def

type_synonym Key = string
type_synonym Value = bytes
type_synonym flat_map = "(Key \<times> Value) list"

subsection \<open>The container\<close>

text \<open>\<open>insert\<close> places the pair before the first entry whose key is not below it.\<close>

fun fm_insert :: "(Key \<Rightarrow> Key \<Rightarrow> bool) \<Rightarrow> Key \<times> Value \<Rightarrow> flat_map \<Rightarrow> flat_map" where
  "fm_insert lt kv [] = [kv]"
| "fm_insert lt kv (x # xs) =
     (if lt (fst x) (fst kv) then x # fm_insert lt kv xs else kv # x # xs)"

definition fm_assign :: "Key \<Rightarrow> Value \<Rightarrow> flat_map \<Rightarrow> flat_map" where
  "fm_assign k v m = map (\<lambda>(k', v'). (k', if k' = k then v else v')) m"

definition fm_erase :: "Key \<Rightarrow> flat_map \<Rightarrow> flat_map" where
  "fm_erase k m = filter (\<lambda>kv. fst kv \<noteq> k) m"

definition fm_full :: "flat_map \<Rightarrow> bool" where
  "fm_full m \<longleftrightarrow> length m \<ge> ETLX_KV_MAX_ENTRIES"

subsection \<open>The store\<close>

record MemoryKv =
  kv_map :: flat_map

definition kv_empty :: MemoryKv where
  "kv_empty = \<lparr>kv_map = []\<rparr>"

definition kv_size :: "'a MemoryKv_scheme \<Rightarrow> nat" where
  "kv_size s = length (kv_map s)"

definition MakeKey :: "string \<Rightarrow> Key Result" where
  "MakeKey key =
     (if length key > ETLX_KV_KEY_CAPACITY then Fail kv_Category kv_TooLarge ''key too long''
      else Inr (fixed_string ETLX_KV_KEY_CAPACITY key))"

definition MemoryKv_Get :: "'a MemoryKv_scheme \<Rightarrow> string \<Rightarrow> bytes \<Rightarrow> nat Result \<times> bytes" where
  "MemoryKv_Get s key out =
     (case MakeKey key of
        Inl e \<Rightarrow> (Inl e, out)
      | Inr k \<Rightarrow>
          (case map_of (kv_map s) k of
             None \<Rightarrow> (Fail kv_Category kv_NotFound ''key not found'', out)
           | Some v \<Rightarrow>
               if length v > length out
               then (Fail kv_Category kv_TooLarge ''output buffer too small'', out)
               else (Inr (length v), if v \<noteq> [] then memcpy out 0 v else out)))"

definition MemoryKv_Has :: "'a MemoryKv_scheme \<Rightarrow> string \<Rightarrow> bool" where
  "MemoryKv_Has s key =
     (case MakeKey key of Inl _ \<Rightarrow> False | Inr k \<Rightarrow> map_of (kv_map s) k \<noteq> None)"

definition MemoryKv_Set ::
    "(Key \<Rightarrow> Key \<Rightarrow> bool) \<Rightarrow> string \<Rightarrow> bytes \<Rightarrow> 'a MemoryKv_scheme \<Rightarrow> Status \<times> 'a MemoryKv_scheme" where
  "MemoryKv_Set lt key value s =
     (case MakeKey key of
        Inl e \<Rightarrow> (Inl e, s)
      | Inr k \<Rightarrow>
          if length value > ETLX_KV_VALUE_CAPACITY
          then (Fail kv_Category kv_TooLarge ''value too long'', s)
          else (case map_of (kv_map s) k of
                  None \<Rightarrow>
                    if fm_full (kv_map s) then (Fail kv_Category kv_Full ''store full'', s)
                    else (Ok, s\<lparr>kv_map := fm_insert lt (k, value) (kv_map s)\<rparr>)
                | Some _ \<Rightarrow> (Ok, s\<lparr>kv_map := fm_assign k value (kv_map s)\<rparr>)))"

definition MemoryKv_Remove :: "string \<Rightarrow> 'a MemoryKv_scheme \<Rightarrow> Status \<times> 'a MemoryKv_scheme" where
  "MemoryKv_Remove key s =
     (case MakeKey key of
        Inl e \<Rightarrow> (Inl e, s)
      | Inr k \<Rightarrow> (Ok, s\<lparr>kv_map := fm_erase k (kv_map s)\<rparr>))"

definition MemoryKv_Commit :: "'a MemoryKv_scheme \<Rightarrow> Status \<times> 'a MemoryKv_scheme" where
  "MemoryKv_Commit s = (Ok, s)"

definition MemoryKv_SetString ::
    "(Key \<Rightarrow> Key \<Rightarrow> bool) \<Rightarrow> string \<Rightarrow> string \<Rightarrow> 'a MemoryKv_scheme \<Rightarrow> Status \<times> 'a MemoryKv_scheme" where
  "MemoryKv_SetString lt key value s = MemoryKv_Set lt key (bytes_of value) s"

definition MemoryKv_GetStringInto :: "'a MemoryKv_scheme \<Rightarrow> string \<Rightarrow> bytes \<Rightarrow> string Result \<times> bytes" where
  "MemoryKv_GetStringInto s key scratch =
     (case MemoryKv_Get s key scratch of
        (Inl e, scratch') \<Rightarrow> (Inl e, scratch')
      | (Inr n, scratch') \<Rightarrow> (Inr (chars_of (take n scratch')), scratch'))"

subsection \<open>The container's laws\<close>

lemma set_fm_insert [simp]: "set (fm_insert lt kv m) = insert kv (set m)"
  by (induction m) auto

lemma length_fm_insert [simp]: "length (fm_insert lt kv m) = Suc (length m)"
  by (induction m) auto

lemma distinct_fm_insert:
  "fst kv \<notin> fst ` set m \<Longrightarrow> distinct (map fst m) \<Longrightarrow> distinct (map fst (fm_insert lt kv m))"
  by (induction m) auto

lemma map_of_fm_insert:
  "fst kv \<notin> fst ` set m \<Longrightarrow> map_of (fm_insert lt kv m) = (map_of m)(fst kv \<mapsto> snd kv)"
  by (induction m) (auto simp: fun_eq_iff)

lemma fm_assign_keys [simp]: "map fst (fm_assign k v m) = map fst m"
  by (auto simp: fm_assign_def)

lemma length_fm_assign [simp]: "length (fm_assign k v m) = length m"
  by (simp add: fm_assign_def)

lemma map_of_fm_assign:
  "map_of m k \<noteq> None \<Longrightarrow> map_of (fm_assign k v m) = (map_of m)(k \<mapsto> v)"
proof -
  have "map_of (fm_assign k v m) x =
      (case map_of m x of None \<Rightarrow> None | Some u \<Rightarrow> Some (if x = k then v else u))" for x
    by (induction m) (auto simp: fm_assign_def)
  then show "map_of m k \<noteq> None \<Longrightarrow> ?thesis" by (fastforce split: option.splits)
qed

lemma set_fm_assign: "(k', v') \<in> set (fm_assign k v m) \<Longrightarrow> k' = k \<and> v' = v \<or> (k', v') \<in> set m"
  by (auto simp: fm_assign_def split: if_splits)

lemma map_of_fm_erase: "map_of (fm_erase k m) = (map_of m)(k := None)"
  by (induction m) (auto simp: fm_erase_def fun_eq_iff)

lemma fm_erase_subset: "set (fm_erase k m) \<subseteq> set m" "length (fm_erase k m) \<le> length m"
  by (auto simp: fm_erase_def)

lemma distinct_fm_erase: "distinct (map fst m) \<Longrightarrow> distinct (map fst (fm_erase k m))"
  by (simp add: fm_erase_def distinct_map_filter)

lemma map_of_None_keys: "map_of m k = None \<longleftrightarrow> k \<notin> fst ` set m"
  by (simp add: map_of_eq_None_iff)

lemma card_dom_map_of: "distinct (map fst m) \<Longrightarrow> card (dom (map_of m)) = length m"
  by (metis distinct_card dom_map_of_conv_image_fst length_map list.set_map)

subsection \<open>The interface\<close>

text \<open>
  What \<open>KeyValueStore\<close> promises its clients: the abstract map it holds, which requests succeed,
  and what each failure is. A failed request leaves the store and the buffer as they were.
\<close>

definition kv_fits :: "Key \<Rightarrow> Value \<Rightarrow> bool" where
  "kv_fits k v \<longleftrightarrow> length k \<le> ETLX_KV_KEY_CAPACITY \<and> length v \<le> ETLX_KV_VALUE_CAPACITY"

definition kv_room :: "(Key \<rightharpoonup> Value) \<Rightarrow> Key \<Rightarrow> bool" where
  "kv_room m k \<longleftrightarrow> k \<in> dom m \<or> card (dom m) < ETLX_KV_MAX_ENTRIES"

locale kv_store =
  fixes get :: "'s \<Rightarrow> string \<Rightarrow> bytes \<Rightarrow> nat Result \<times> bytes"
    and has :: "'s \<Rightarrow> string \<Rightarrow> bool"
    and put :: "string \<Rightarrow> bytes \<Rightarrow> 's \<Rightarrow> Status \<times> 's"
    and remove :: "string \<Rightarrow> 's \<Rightarrow> Status \<times> 's"
    and kvinv :: "'s \<Rightarrow> bool"
    and abs :: "'s \<Rightarrow> (Key \<rightharpoonup> Value)"
  assumes abs_fits: "kvinv s \<Longrightarrow> abs s k = Some v \<Longrightarrow> kv_fits k v"
    and abs_finite: "kvinv s \<Longrightarrow> finite (dom (abs s))"
    and abs_card: "kvinv s \<Longrightarrow> card (dom (abs s)) \<le> ETLX_KV_MAX_ENTRIES"
    and get_found: "kvinv s \<Longrightarrow> abs s k = Some v \<Longrightarrow> length v \<le> length out \<Longrightarrow>
      get s k out = (Inr (length v), memcpy out 0 v)"
    and get_small: "kvinv s \<Longrightarrow> abs s k = Some v \<Longrightarrow> length v > length out \<Longrightarrow>
      \<exists>e. get s k out = (Inl e, out) \<and> code e = kv_TooLarge"
    and get_absent: "kvinv s \<Longrightarrow> abs s k = None \<Longrightarrow>
      \<exists>e. get s k out = (Inl e, out) \<and>
        code e = (if length k \<le> ETLX_KV_KEY_CAPACITY then kv_NotFound else kv_TooLarge)"
    and has_abs: "kvinv s \<Longrightarrow> has s k \<longleftrightarrow> k \<in> dom (abs s)"
    and put_ok: "kvinv s \<Longrightarrow> kv_fits k v \<Longrightarrow> kv_room (abs s) k \<Longrightarrow>
      \<exists>s'. put k v s = (Ok, s') \<and> kvinv s' \<and> abs s' = (abs s)(k \<mapsto> v)"
    and put_large: "kvinv s \<Longrightarrow> \<not> kv_fits k v \<Longrightarrow>
      \<exists>e. put k v s = (Inl e, s) \<and> code e = kv_TooLarge"
    and put_full: "kvinv s \<Longrightarrow> kv_fits k v \<Longrightarrow> \<not> kv_room (abs s) k \<Longrightarrow>
      \<exists>e. put k v s = (Inl e, s) \<and> code e = kv_Full"
    and remove_ok: "kvinv s \<Longrightarrow> length k \<le> ETLX_KV_KEY_CAPACITY \<Longrightarrow>
      \<exists>s'. remove k s = (Ok, s') \<and> kvinv s' \<and> abs s' = (abs s)(k := None)"
    and remove_large: "kvinv s \<Longrightarrow> length k > ETLX_KV_KEY_CAPACITY \<Longrightarrow>
      \<exists>e. remove k s = (Inl e, s) \<and> code e = kv_TooLarge"
begin

lemma put_cases:
  assumes "kvinv s"
  shows "\<exists>st s'. put k v s = (st, s') \<and> kvinv s' \<and>
    (is_ok st \<longleftrightarrow> kv_fits k v \<and> kv_room (abs s) k) \<and>
    abs s' = (if is_ok st then (abs s)(k \<mapsto> v) else abs s)"
  using put_ok [OF assms] put_large [OF assms, of k v] put_full [OF assms, of k v] assms
  by (cases "kv_fits k v"; cases "kv_room (abs s) k") fastforce+

lemma put_then_get:
  assumes "kvinv s" "put k v s = (Inr u, s')" "length v \<le> length out"
  shows "get s' k out = (Inr (length v), memcpy out 0 v)"
  using put_cases [OF assms(1), of k v] assms get_found [of s' k v out] by auto

lemma put_frame:
  assumes "kvinv s" "put k v s = (Inr u, s')" "k' \<noteq> k"
  shows "abs s' k' = abs s k'" "has s' k' = has s k'"
  using put_cases [OF assms(1), of k v] assms has_abs by auto

lemma remove_then_get:
  assumes "kvinv s" "remove k s = (Inr u, s')"
  shows "\<not> has s' k" "err_code (fst (get s' k out)) = Some kv_NotFound"
proof -
  have "length k \<le> ETLX_KV_KEY_CAPACITY"
    using remove_large [OF assms(1), of k] assms(2) by fastforce
  with remove_ok [OF assms(1), of k] assms(2)
  have s': "kvinv s'" "abs s' = (abs s)(k := None)" by auto
  then show "\<not> has s' k" using has_abs by auto
  from s' get_absent [of s' k out] \<open>length k \<le> _\<close>
  show "err_code (fst (get s' k out)) = Some kv_NotFound" by auto
qed

end

subsection \<open>The in-memory store keeps the contract\<close>

definition kv_wf :: "'a MemoryKv_scheme \<Rightarrow> bool" where
  "kv_wf s \<longleftrightarrow> distinct (map fst (kv_map s)) \<and> length (kv_map s) \<le> ETLX_KV_MAX_ENTRIES \<and>
     (\<forall>(k, v) \<in> set (kv_map s). kv_fits k v)"

definition kv_abs :: "'a MemoryKv_scheme \<Rightarrow> (Key \<rightharpoonup> Value)" where
  "kv_abs s = map_of (kv_map s)"

lemma kv_empty_wf [simp]: "kv_wf kv_empty" "kv_abs kv_empty = Map.empty"
  by (simp_all add: kv_wf_def kv_empty_def kv_abs_def)

lemma MakeKey_cases:
  "length k \<le> ETLX_KV_KEY_CAPACITY \<Longrightarrow> MakeKey k = Inr k"
  "length k > ETLX_KV_KEY_CAPACITY \<Longrightarrow> MakeKey k = Fail kv_Category kv_TooLarge ''key too long''"
  by (simp_all add: MakeKey_def fixed_string_def)

lemma kv_wf_key:
  "kv_wf s \<Longrightarrow> kv_abs s k = Some v \<Longrightarrow> kv_fits k v"
  by (auto simp: kv_wf_def kv_abs_def dest!: map_of_SomeD)

lemma kv_wf_card:
  "kv_wf s \<Longrightarrow> card (dom (kv_abs s)) = length (kv_map s)"
  by (simp add: kv_wf_def kv_abs_def card_dom_map_of)

lemma kv_room_iff:
  "kv_wf s \<Longrightarrow> kv_room (kv_abs s) k \<longleftrightarrow> kv_abs s k \<noteq> None \<or> \<not> fm_full (kv_map s)"
  by (auto simp: kv_room_def kv_wf_card fm_full_def)

lemma MemoryKv_Set_ok:
  assumes "kv_wf s" "kv_fits k v" "kv_room (kv_abs s) k"
  shows "\<exists>s'. MemoryKv_Set lt k v s = (Ok, s') \<and> kv_wf s' \<and> kv_abs s' = (kv_abs s)(k \<mapsto> v)"
proof (cases "map_of (kv_map s) k")
  case None
  have "kv_abs s k \<noteq> None \<or> \<not> fm_full (kv_map s)"
    using assms(3) kv_room_iff [OF assms(1)] by blast
  with None have room: "length (kv_map s) < ETLX_KV_MAX_ENTRIES"
    by (simp add: kv_abs_def fm_full_def)
  from None have "k \<notin> fst ` set (kv_map s)" by (simp add: map_of_None_keys)
  with None assms(1,2) room show ?thesis
    by (auto simp: MemoryKv_Set_def MakeKey_cases kv_fits_def fm_full_def kv_abs_def
          map_of_fm_insert kv_wf_def distinct_fm_insert)
next
  case (Some u)
  with assms show ?thesis
    by (auto simp: MemoryKv_Set_def MakeKey_cases kv_fits_def kv_abs_def kv_wf_def
          map_of_fm_assign dest!: set_fm_assign)
qed

lemma MemoryKv_Remove_ok:
  assumes "kv_wf s" "length k \<le> ETLX_KV_KEY_CAPACITY"
  shows "\<exists>s'. MemoryKv_Remove k s = (Ok, s') \<and> kv_wf s' \<and> kv_abs s' = (kv_abs s)(k := None)"
proof -
  have "length (fm_erase k (kv_map s)) \<le> ETLX_KV_MAX_ENTRIES"
    using assms(1) fm_erase_subset(2) [of k "kv_map s"] by (simp add: kv_wf_def)
  moreover have "\<forall>(k', v') \<in> set (fm_erase k (kv_map s)). kv_fits k' v'"
    using assms(1) fm_erase_subset(1) [of k "kv_map s"] by (auto simp: kv_wf_def)
  ultimately show ?thesis
    using assms by (auto simp: MemoryKv_Remove_def MakeKey_cases kv_wf_def kv_abs_def
        distinct_fm_erase map_of_fm_erase)
qed

interpretation memory_kv: kv_store MemoryKv_Get MemoryKv_Has "MemoryKv_Set lt" MemoryKv_Remove
    kv_wf kv_abs for lt
proof (unfold_locales, goal_cases)
  case (1 s k v) then show ?case by (rule kv_wf_key)
next
  case (2 s) then show ?case by (simp add: kv_abs_def finite_dom_map_of)
next
  case (3 s) then show ?case by (simp add: kv_wf_card) (simp add: kv_wf_def)
next
  case (4 s k v out)
  from kv_wf_key [OF 4(1,2)] 4 show ?case
    by (auto simp: MemoryKv_Get_def MakeKey_cases kv_fits_def kv_abs_def)
next
  case (5 s k v out)
  from kv_wf_key [OF 5(1,2)] 5 show ?case
    by (auto simp: MemoryKv_Get_def MakeKey_cases kv_fits_def kv_abs_def Fail_def)
next
  case (6 s k out)
  then show ?case
    by (cases "length k \<le> ETLX_KV_KEY_CAPACITY")
      (auto simp: MemoryKv_Get_def MakeKey_cases kv_abs_def Fail_def)
next
  case (7 s k)
  then show ?case
    using kv_wf_key [of s k]
    by (cases "length k \<le> ETLX_KV_KEY_CAPACITY")
      (fastforce simp: MemoryKv_Has_def MakeKey_cases kv_abs_def Fail_def kv_fits_def)+
next
  case (8 s k v) then show ?case by (rule MemoryKv_Set_ok)
next
  case (9 s k v)
  then show ?case
    by (cases "length k \<le> ETLX_KV_KEY_CAPACITY")
      (auto simp: MemoryKv_Set_def MakeKey_cases kv_fits_def Fail_def)
next
  case (10 s k v)
  then have "kv_abs s k = None" "fm_full (kv_map s)"
    using kv_room_iff [of s k] by blast+
  with 10 show ?case
    by (simp add: MemoryKv_Set_def MakeKey_cases kv_fits_def Fail_def kv_abs_def)
next
  case (11 s k) then show ?case by (rule MemoryKv_Remove_ok)
next
  case (12 s k) then show ?case by (simp add: MemoryKv_Remove_def MakeKey_cases Fail_def)
qed

subsection \<open>Runs of requests\<close>

datatype kv_request =
    GetReq string bytes
  | HasReq string
  | SetReq string bytes
  | RemoveReq string

datatype kv_reply =
    GotReply "nat Result" bytes
  | HasReply bool
  | StatusReply Status

fun kv_request_step ::
    "(Key \<Rightarrow> Key \<Rightarrow> bool) \<Rightarrow> kv_request \<Rightarrow> 'a MemoryKv_scheme \<Rightarrow> kv_reply \<times> 'a MemoryKv_scheme" where
  "kv_request_step lt (GetReq k out) s =
     (case MemoryKv_Get s k out of (r, out') \<Rightarrow> (GotReply r out', s))"
| "kv_request_step lt (HasReq k) s = (HasReply (MemoryKv_Has s k), s)"
| "kv_request_step lt (SetReq k v) s =
     (case MemoryKv_Set lt k v s of (st, s') \<Rightarrow> (StatusReply st, s'))"
| "kv_request_step lt (RemoveReq k) s =
     (case MemoryKv_Remove k s of (st, s') \<Rightarrow> (StatusReply st, s'))"

fun kv_run ::
    "(Key \<Rightarrow> Key \<Rightarrow> bool) \<Rightarrow> kv_request list \<Rightarrow> 'a MemoryKv_scheme \<Rightarrow> kv_reply list \<times> 'a MemoryKv_scheme" where
  "kv_run lt [] s = ([], s)"
| "kv_run lt (q # qs) s =
     (case kv_request_step lt q s of (r, s') \<Rightarrow>
        (case kv_run lt qs s' of (rs, s'') \<Rightarrow> (r # rs, s'')))"

text \<open>
  The specification: the same requests on the abstract map alone, with the failures decided by
  the capacities and the number of keys.
\<close>

definition kv_fail :: "Code \<Rightarrow> string \<Rightarrow> 'a Result" where
  "kv_fail c msg = Fail kv_Category c msg"

fun kv_spec_step :: "kv_request \<Rightarrow> (Key \<rightharpoonup> Value) \<Rightarrow> kv_reply \<times> (Key \<rightharpoonup> Value)" where
  "kv_spec_step (GetReq k out) m =
     (if length k > ETLX_KV_KEY_CAPACITY
      then (GotReply (kv_fail kv_TooLarge ''key too long'') out, m)
      else case m k of
          None \<Rightarrow> (GotReply (kv_fail kv_NotFound ''key not found'') out, m)
        | Some v \<Rightarrow>
            if length v \<le> length out then (GotReply (Inr (length v)) (memcpy out 0 v), m)
            else (GotReply (kv_fail kv_TooLarge ''output buffer too small'') out, m))"
| "kv_spec_step (HasReq k) m = (HasReply (k \<in> dom m), m)"
| "kv_spec_step (SetReq k v) m =
     (if length k > ETLX_KV_KEY_CAPACITY
      then (StatusReply (kv_fail kv_TooLarge ''key too long''), m)
      else if length v > ETLX_KV_VALUE_CAPACITY
      then (StatusReply (kv_fail kv_TooLarge ''value too long''), m)
      else if kv_room m k then (StatusReply Ok, m(k \<mapsto> v))
      else (StatusReply (kv_fail kv_Full ''store full''), m))"
| "kv_spec_step (RemoveReq k) m =
     (if length k > ETLX_KV_KEY_CAPACITY
      then (StatusReply (kv_fail kv_TooLarge ''key too long''), m)
      else (StatusReply Ok, m(k := None)))"

fun kv_spec_run :: "kv_request list \<Rightarrow> (Key \<rightharpoonup> Value) \<Rightarrow> kv_reply list \<times> (Key \<rightharpoonup> Value)" where
  "kv_spec_run [] m = ([], m)"
| "kv_spec_run (q # qs) m =
     (case kv_spec_step q m of (r, m') \<Rightarrow>
        (case kv_spec_run qs m' of (rs, m'') \<Rightarrow> (r # rs, m'')))"

lemma MemoryKv_Set_cases:
  assumes "kv_wf s"
  shows "MemoryKv_Set lt k v s =
    (if length k > ETLX_KV_KEY_CAPACITY then (kv_fail kv_TooLarge ''key too long'', s)
     else if length v > ETLX_KV_VALUE_CAPACITY then (kv_fail kv_TooLarge ''value too long'', s)
     else if kv_room (kv_abs s) k then (Ok, snd (MemoryKv_Set lt k v s))
     else (kv_fail kv_Full ''store full'', s))"
proof (cases "kv_fits k v \<and> kv_room (kv_abs s) k")
  case True
  with MemoryKv_Set_ok [OF assms, of k v lt] show ?thesis by (auto simp: kv_fits_def)
next
  case False
  then show ?thesis
    using kv_room_iff [OF assms, of k]
    by (auto simp: MemoryKv_Set_def MakeKey_cases kv_fits_def Fail_def kv_fail_def kv_abs_def)
qed

lemma kv_request_step_refines:
  assumes "kv_wf s"
  shows "\<exists>r s'. kv_request_step lt q s = (r, s') \<and> kv_wf s' \<and>
    kv_spec_step q (kv_abs s) = (r, kv_abs s')"
proof (cases q)
  case (GetReq k out)
  show ?thesis
  proof (cases "length k > ETLX_KV_KEY_CAPACITY")
    case True
    with GetReq assms show ?thesis
      by (simp add: MemoryKv_Get_def MakeKey_cases kv_fail_def Fail_def)
  next
    case False
    with GetReq assms show ?thesis
      by (auto simp: MemoryKv_Get_def MakeKey_cases kv_fail_def kv_abs_def split: option.splits)
  qed
next
  case (HasReq k)
  with assms memory_kv.has_abs [OF assms, of k] show ?thesis by simp
next
  case (SetReq k v)
  show ?thesis
  proof (cases "kv_fits k v \<and> kv_room (kv_abs s) k")
    case True
    then show ?thesis
      using MemoryKv_Set_ok [OF assms, of k v lt] SetReq by (auto simp: kv_fits_def)
  next
    case False
    with SetReq assms MemoryKv_Set_cases [OF assms, of lt k v] show ?thesis
      by (auto simp: kv_fits_def)
  qed
next
  case (RemoveReq k)
  show ?thesis
  proof (cases "length k > ETLX_KV_KEY_CAPACITY")
    case True
    with RemoveReq assms show ?thesis
      by (simp add: MemoryKv_Remove_def MakeKey_cases kv_fail_def Fail_def)
  next
    case False
    with RemoveReq MemoryKv_Remove_ok [OF assms, of k] show ?thesis by auto
  qed
qed

lemma kv_run_refines:
  "kv_wf s \<Longrightarrow> \<exists>rs s'. kv_run lt qs s = (rs, s') \<and> kv_wf s' \<and>
     kv_spec_run qs (kv_abs s) = (rs, kv_abs s')"
proof (induction qs arbitrary: s)
  case Nil
  then show ?case by simp
next
  case (Cons q qs)
  obtain r s1 where 1: "kv_request_step lt q s = (r, s1)" "kv_wf s1"
      "kv_spec_step q (kv_abs s) = (r, kv_abs s1)"
    using kv_request_step_refines [OF Cons.prems] by blast
  from Cons.IH [OF 1(2)] 1 show ?case by auto
qed

subsection \<open>Properties\<close>

text \<open>
  C18: every run of requests on the in-memory store, from the empty store and whatever the order of
  its keys, keeps the capacities and the uniqueness of keys, and answers each request exactly as
  the abstract map from keys to values does.
\<close>

theorem kv_run_refines_map:
  "case kv_run lt qs kv_empty of
     (rs, s) \<Rightarrow> kv_wf s \<and> kv_spec_run qs Map.empty = (rs, kv_abs s)"
  using kv_run_refines [of kv_empty lt qs] by auto

text \<open>
  A string that \<open>SetString\<close> accepted is what \<open>GetStringInto\<close> answers through any buffer it
  fits in, and no other key is affected.
\<close>

theorem kv_string_roundtrip:
  assumes "kv_wf s" and "MemoryKv_SetString lt k text s = (Inr u, s')"
    and "length text \<le> length scratch"
  shows "fst (MemoryKv_GetStringInto s' k scratch) = Inr text \<and>
    (kv_abs s') (k := None) = (kv_abs s) (k := None)"
proof (rule conjI)
  have set: "MemoryKv_Set lt k (bytes_of text) s = (Inr u, s')"
    using assms(2) by (simp add: MemoryKv_SetString_def)
  from memory_kv.put_then_get [OF assms(1) set, of scratch] assms(3)
  show "fst (MemoryKv_GetStringInto s' k scratch) = Inr text"
    by (simp add: MemoryKv_GetStringInto_def memcpy_def)
  show "(kv_abs s') (k := None) = (kv_abs s) (k := None)"
    using memory_kv.put_frame(1) [OF assms(1) set] by (auto simp: fun_eq_iff)
qed

theorem kv_string_roundtrip_witness:
  "fst (MemoryKv_GetStringInto
      (snd (MemoryKv_SetString (\<lambda>_ _. False) ''state'' ''Verify'' kv_empty)) ''state''
      (replicate 8 0)) = Inr ''Verify''"
proof (rule kv_string_roundtrip [of kv_empty "\<lambda>_ _. False" _ _ "()", THEN conjunct1])
  show "MemoryKv_SetString (\<lambda>_ _. False) ''state'' ''Verify'' kv_empty =
      (Inr (), snd (MemoryKv_SetString (\<lambda>_ _. False) ''state'' ''Verify'' kv_empty))"
    by (simp add: MemoryKv_SetString_def MemoryKv_Set_def MakeKey_def kv_empty_def fm_full_def
        config_defs fixed_string_def)
qed simp_all

end
