(* ===== verification/HostKv.thy ===== *)
theory HostKv
  imports Kv
begin

unbundle bit_operations_syntax

section \<open>HostKv: the file-backed key-value store\<close>

text \<open>
  \<open>ports/host/host_kv.hpp\<close> and \<open>ports/host/host_kv.cpp\<close>. The class derives from the in-memory
  store, so its record extends that store's record and inherits its operations; \<open>Load\<close> and
  \<open>Commit\<close> are added. The file system is a map from paths to contents. \<open>Commit\<close> answers, beside
  its status, every state the file system goes through, so that a property can speak of a crash
  between two calls; which calls fail is the environment's choice.
\<close>

type_synonym fs = "string \<rightharpoonup> bytes"

definition kMagic :: bytes where
  "kMagic = bytes_of ''EKV1''"

subsection \<open>Little-endian integers\<close>

definition PutU16 :: "16 word \<Rightarrow> bytes" where
  "PutU16 v = [ucast (v AND 0xFF), ucast (drop_bit 8 v AND 0xFF)]"

definition PutU32 :: "32 word \<Rightarrow> bytes" where
  "PutU32 v = map (\<lambda>i. ucast (drop_bit (8 * i) v AND 0xFF)) [0, 1, 2, 3]"

text \<open>A stream opened for reading is what is left of the file; \<open>None\<close> is \<open>EOF\<close>.\<close>

fun fgetc :: "bytes \<Rightarrow> u8 option \<times> bytes" where
  "fgetc [] = (None, [])"
| "fgetc (b # f) = (Some b, f)"

definition fread :: "nat \<Rightarrow> bytes \<Rightarrow> bytes \<times> bytes" where
  "fread n f = (take n f, drop n f)"

definition GetU16 :: "bytes \<Rightarrow> 16 word option \<times> bytes" where
  "GetU16 f =
     (case fgetc f of (a, f1) \<Rightarrow>
        (case fgetc f1 of (b, f2) \<Rightarrow>
           (case (a, b) of
              (Some x, Some y) \<Rightarrow> (Some (ucast x OR push_bit 8 (ucast y)), f2)
            | _ \<Rightarrow> (None, f2))))"

fun GetU32_loop :: "nat list \<Rightarrow> 32 word \<Rightarrow> bytes \<Rightarrow> 32 word option \<times> bytes" where
  "GetU32_loop [] v f = (Some v, f)"
| "GetU32_loop (i # is) v f =
     (case fgetc f of
        (None, f') \<Rightarrow> (None, f')
      | (Some c, f') \<Rightarrow> GetU32_loop is (v OR push_bit (8 * i) (ucast c)) f')"

definition GetU32 :: "bytes \<Rightarrow> 32 word option \<times> bytes" where
  "GetU32 f = GetU32_loop [0, 1, 2, 3] 0 f"

subsection \<open>Load\<close>

record FileKv = MemoryKv +
  fk_path :: string

definition load_entry ::
    "(Key \<Rightarrow> Key \<Rightarrow> bool) \<Rightarrow> bytes \<Rightarrow> FileKv \<Rightarrow> (bytes \<times> FileKv) option" where
  "load_entry lt f s =
     (case GetU16 f of
        (None, _) \<Rightarrow> None
      | (Some klen, f1) \<Rightarrow>
          if unat klen > ETLX_KV_KEY_CAPACITY then None
          else (case fread (unat klen) f1 of (keybuf, f2) \<Rightarrow>
            if length keybuf \<noteq> unat klen then None
            else (case GetU32 f2 of
                (None, _) \<Rightarrow> None
              | (Some vlen, f3) \<Rightarrow>
                  if unat vlen > ETLX_KV_VALUE_CAPACITY then None
                  else (case fread (unat vlen) f3 of (valbuf, f4) \<Rightarrow>
                    if length valbuf \<noteq> unat vlen then None
                    else Some (f4, snd (MemoryKv_Set lt (chars_of keybuf) valbuf s))))))"

fun load_loop :: "(Key \<Rightarrow> Key \<Rightarrow> bool) \<Rightarrow> nat \<Rightarrow> bytes \<Rightarrow> FileKv \<Rightarrow> Status \<times> FileKv" where
  "load_loop lt 0 f s = (Ok, s)"
| "load_loop lt (Suc n) f s =
     (case load_entry lt f s of
        None \<Rightarrow> (Fail kv_Category kv_IoError ''truncated kv entry'', s)
      | Some (f', s') \<Rightarrow> load_loop lt n f' s')"

definition FileKv_Load :: "(Key \<Rightarrow> Key \<Rightarrow> bool) \<Rightarrow> fs \<Rightarrow> FileKv \<Rightarrow> Status \<times> FileKv" where
  "FileKv_Load lt fs s =
     (let s0 = s\<lparr>kv_map := []\<rparr> in
      case fs (fk_path s) of
        None \<Rightarrow> (Ok, s0)
      | Some f \<Rightarrow>
          (case fread 4 f of (magic, f1) \<Rightarrow>
             if length magic \<noteq> 4 \<or> magic \<noteq> kMagic
             then (Fail kv_Category kv_IoError ''bad kv file magic'', s0)
             else (case GetU32 f1 of
                 (None, _) \<Rightarrow> (Fail kv_Category kv_IoError ''truncated kv header'', s0)
               | (Some count, f2) \<Rightarrow> load_loop lt (unat count) f2 s0)))"

definition FileKv_new :: "(Key \<Rightarrow> Key \<Rightarrow> bool) \<Rightarrow> fs \<Rightarrow> string \<Rightarrow> FileKv" where
  "FileKv_new lt fs path =
     snd (FileKv_Load lt fs \<lparr>kv_map = [], fk_path = fixed_string 256 path\<rparr>)"

subsection \<open>Commit\<close>

text \<open>
  Which calls succeed. When the flush fails, \<open>ce_partial\<close> bytes have reached the temporary file.
\<close>

record commit_env =
  ce_open :: bool
  ce_flush :: bool
  ce_partial :: nat
  ce_rename :: bool

definition kv_entry_bytes :: "Key \<times> Value \<Rightarrow> bytes" where
  "kv_entry_bytes kv =
     PutU16 (word_of_nat (length (fst kv))) @ bytes_of (fst kv) @
     PutU32 (word_of_nat (length (snd kv))) @ snd kv"

definition kv_file_bytes :: "flat_map \<Rightarrow> bytes" where
  "kv_file_bytes m = kMagic @ PutU32 (word_of_nat (length m)) @ concat (map kv_entry_bytes m)"

definition tmp_path :: "string \<Rightarrow> string" where
  "tmp_path path = fixed_string 260 (path @ ''.tmp'')"

definition FileKv_Commit :: "commit_env \<Rightarrow> FileKv \<Rightarrow> fs \<Rightarrow> Status \<times> fs list" where
  "FileKv_Commit env s fs =
     (let tmp = tmp_path (fk_path s);
          data = kv_file_bytes (kv_map s);
          n = (if ce_flush env then length data else min (ce_partial env) (length data));
          writes = map (\<lambda>i. fs(tmp \<mapsto> take i data)) [0..<Suc n]
      in if \<not> ce_open env
         then (Fail kv_Category kv_IoError ''cannot open temp kv file'', [fs])
         else if \<not> ce_flush env
         then (Fail kv_Category kv_IoError ''kv write failed'', fs # writes)
         else if \<not> ce_rename env
         then (Fail kv_Category kv_IoError ''kv rename failed'', fs # writes)
         else (Ok, fs # writes @ [fs(tmp := None, fk_path s \<mapsto> data)]))"

subsection \<open>Decoding what was encoded\<close>

lemma byte_mask: "(ucast (v AND 0xFF) :: u8) = ucast (v :: 'a::len word)"
proof -
  have m: "(0xFF :: 'a word) = mask 8" by (simp add: mask_eq_exp_minus_1)
  show ?thesis unfolding m
    by (rule bit_word_eqI) (auto simp: bit_simps dest: bit_imp_le_length)
qed

lemma bytes_join_16:
  "ucast (ucast (v AND 0xFF) :: u8) OR push_bit 8 (ucast (ucast (drop_bit 8 v AND 0xFF) :: u8)) =
   (v :: 16 word)"
  unfolding byte_mask by (rule bit_word_eqI) (auto simp: bit_simps)

lemma bytes_join_32:
  "ucast (ucast (v AND 0xFF) :: u8) OR
     (push_bit 8 (ucast (ucast (drop_bit 8 v AND 0xFF) :: u8)) OR
     (push_bit 16 (ucast (ucast (drop_bit 16 v AND 0xFF) :: u8)) OR
     push_bit 24 (ucast (ucast (drop_bit 24 v AND 0xFF) :: u8)))) = (v :: 32 word)"
  unfolding byte_mask
proof (rule bit_word_eqI)
  fix n assume "n < LENGTH(32)"
  then consider "n < 8" | "8 \<le> n" "n < 16" | "16 \<le> n" "n < 24" | "24 \<le> n" "n < 32"
    by simp linarith
  then show "bit (ucast (ucast v :: u8) OR
      (push_bit 8 (ucast (ucast (drop_bit 8 v) :: u8)) OR
      (push_bit 16 (ucast (ucast (drop_bit 16 v) :: u8)) OR
      push_bit 24 (ucast (ucast (drop_bit 24 v) :: u8)))) :: 32 word) n \<longleftrightarrow> bit v n"
    by cases (auto simp: bit_simps)
qed

lemma GetU16_PutU16 [simp]: "GetU16 (PutU16 v @ f) = (Some v, f)"
  by (simp add: GetU16_def PutU16_def bytes_join_16)

lemma GetU32_PutU32 [simp]: "GetU32 (PutU32 v @ f) = (Some v, f)"
  using bytes_join_32 [of v] by (simp add: GetU32_def PutU32_def or.assoc)

lemma length_Put [simp]: "length (PutU16 v) = 2" "length (PutU32 w) = 4" "length kMagic = 4"
  by (simp_all add: PutU16_def PutU32_def kMagic_def)

text \<open>What was read from a file is read from every extension of it.\<close>

lemma fgetc_extend: "fgetc f = (Some b, f') \<Longrightarrow> fgetc (f @ g) = (Some b, f' @ g)"
  by (cases f) auto

lemma GetU16_extend:
  assumes "GetU16 f = (Some v, f')"
  shows "GetU16 (f @ g) = (Some v, f' @ g)"
proof -
  obtain a f1 b f2 where f: "fgetc f = (Some a, f1)" "fgetc f1 = (Some b, f2)"
      "v = ucast a OR push_bit 8 (ucast b)" "f' = f2"
    using assms by (auto simp: GetU16_def split: prod.splits option.splits)
  from fgetc_extend [OF f(1)] fgetc_extend [OF f(2)] f(3,4)
  show ?thesis by (simp add: GetU16_def)
qed

lemma GetU32_loop_extend:
  "GetU32_loop is w f = (Some v, f') \<Longrightarrow> GetU32_loop is w (f @ g) = (Some v, f' @ g)"
proof (induction "is" arbitrary: w f)
  case (Cons i "is")
  then show ?case by (cases f) auto
qed simp

lemma GetU32_extend: "GetU32 f = (Some v, f') \<Longrightarrow> GetU32 (f @ g) = (Some v, f' @ g)"
  unfolding GetU32_def by (rule GetU32_loop_extend)

lemma fread_extend:
  assumes "fread n f = (b, f')" "length b = n"
  shows "fread n (f @ g) = (b, f' @ g)"
proof -
  have b: "b = take n f" "f' = drop n f" using assms(1) by (simp_all add: fread_def)
  with assms(2) have "n \<le> length f" by simp
  with b show ?thesis by (simp add: fread_def)
qed

lemma load_entry_extend:
  assumes "load_entry lt f s = Some (f', s')"
  shows "load_entry lt (f @ g) s = Some (f' @ g, s')"
proof -
  obtain klen f1 k f2 vlen f3 v f4 where r: "GetU16 f = (Some klen, f1)"
      "\<not> unat klen > ETLX_KV_KEY_CAPACITY" "fread (unat klen) f1 = (k, f2)" "length k = unat klen"
      "GetU32 f2 = (Some vlen, f3)" "\<not> unat vlen > ETLX_KV_VALUE_CAPACITY"
      "fread (unat vlen) f3 = (v, f4)" "length v = unat vlen"
      "f' = f4" "s' = snd (MemoryKv_Set lt (chars_of k) v s)"
    using assms
    by (auto simp: load_entry_def split: prod.splits option.splits if_splits)
  from GetU16_extend [OF r(1)] fread_extend [OF r(3,4)] GetU32_extend [OF r(5)]
    fread_extend [OF r(7,8)] r
  show ?thesis by (simp add: load_entry_def)
qed

subsection \<open>Loading keeps the store well formed\<close>

lemma MemoryKv_Set_frame: "fk_path (snd (MemoryKv_Set lt k v s)) = fk_path s"
  by (simp add: MemoryKv_Set_def split: sum.splits option.splits)

lemma MemoryKv_Set_wf: "kv_wf s \<Longrightarrow> kv_wf (snd (MemoryKv_Set lt k v s))"
  using memory_kv.put_cases [of s lt k v] by fastforce

lemma load_entry_wf:
  "load_entry lt f s = Some (f', s') \<Longrightarrow> kv_wf s \<Longrightarrow> kv_wf s' \<and> fk_path s' = fk_path s"
  by (auto simp: load_entry_def MemoryKv_Set_wf MemoryKv_Set_frame
      split: prod.splits option.splits if_splits)

lemma load_loop_wf:
  "kv_wf s \<Longrightarrow> load_loop lt n f s = (st, s') \<Longrightarrow>
   kv_wf s' \<and> fk_path s' = fk_path s \<and> err_code st \<in> {None, Some kv_IoError}"
proof (induction n arbitrary: f s)
  case 0
  then show ?case by auto
next
  case (Suc n)
  show ?case
  proof (cases "load_entry lt f s")
    case None
    with Suc.prems show ?thesis by auto
  next
    case (Some r)
    with Suc.prems Suc.IH [of "snd r" "fst r"] load_entry_wf [of lt f s "fst r" "snd r"]
    show ?thesis by (auto split: prod.splits)
  qed
qed

lemma kv_cleared_wf [simp]: "kv_wf (s\<lparr>kv_map := []\<rparr>)" "kv_abs (s\<lparr>kv_map := []\<rparr>) = Map.empty"
  by (simp_all add: kv_wf_def kv_abs_def)

lemma Load_wf:
  assumes "FileKv_Load lt fs s = (st, s')"
  shows "kv_wf s' \<and> fk_path s' = fk_path s \<and> err_code st \<in> {None, Some kv_IoError}"
proof -
  have path: "fk_path (s\<lparr>kv_map := []\<rparr>) = fk_path s" by simp
  from assms load_loop_wf [OF kv_cleared_wf(1), of lt _ _ s] show ?thesis
    by (auto simp: FileKv_Load_def Let_def split: option.splits prod.splits if_splits)
qed

subsection \<open>Loading what was committed\<close>

definition path_ok :: "string \<Rightarrow> bool" where
  "path_ok p \<longleftrightarrow> length p \<le> 256"

lemma tmp_path_neq: "path_ok p \<Longrightarrow> tmp_path p \<noteq> p"
proof -
  assume "path_ok p"
  then have "length (tmp_path p) = length p + 4"
    by (simp add: tmp_path_def fixed_string_def path_ok_def)
  then show ?thesis by (metis add_eq_self_zero zero_neq_numeral)
qed

lemma unat_of_small: "n < 2 ^ LENGTH('a) \<Longrightarrow> unat (word_of_nat n :: 'a::len word) = n"
  by (simp add: unat_of_nat take_bit_eq_mod)

lemma load_entry_bytes:
  assumes "kv_fits k v"
  shows "load_entry lt (kv_entry_bytes (k, v) @ f) s = Some (f, snd (MemoryKv_Set lt k v s))"
proof -
  have k: "unat (word_of_nat (length k) :: 16 word) = length k"
    and v: "unat (word_of_nat (length v) :: 32 word) = length v"
    using assms by (auto intro!: unat_of_small simp: kv_fits_def config_defs)
  show ?thesis
    using assms k v
    by (simp add: load_entry_def kv_entry_bytes_def fread_def kv_fits_def)
qed

lemma load_loop_entries:
  assumes "kv_wf s" "distinct (map fst m)" "\<forall>kv \<in> set m. kv_fits (fst kv) (snd kv)"
    "fst ` set m \<inter> dom (kv_abs s) = {}" "card (dom (kv_abs s)) + length m \<le> ETLX_KV_MAX_ENTRIES"
  shows "\<exists>s'. load_loop lt (length m) (concat (map kv_entry_bytes m) @ f) s = (Ok, s') \<and>
    kv_wf s' \<and> kv_abs s' = kv_abs s ++ map_of m"
  using assms
proof (induction m arbitrary: s)
  case Nil
  then show ?case by simp
next
  case (Cons kv m)
  obtain k v where kv: "kv = (k, v)" by (cases kv)
  have fits: "kv_fits k v" using Cons.prems(3) kv by simp
  have new: "k \<notin> dom (kv_abs s)" using Cons.prems(4) kv by auto
  have room: "kv_room (kv_abs s) k" using Cons.prems(5) by (simp add: kv_room_def)
  obtain s1 where s1: "MemoryKv_Set lt k v s = (Ok, s1)" "kv_wf s1" "kv_abs s1 = (kv_abs s)(k \<mapsto> v)"
    using MemoryKv_Set_ok [OF Cons.prems(1) fits room] by blast
  have "card (dom (kv_abs s1)) = Suc (card (dom (kv_abs s)))"
    using new s1(3) memory_kv.abs_finite [OF Cons.prems(1)] by simp
  then have card: "card (dom (kv_abs s1)) + length m \<le> ETLX_KV_MAX_ENTRIES"
    using Cons.prems(5) by simp
  have disj: "fst ` set m \<inter> dom (kv_abs s1) = {}"
    using Cons.prems(2,4) kv s1(3) by auto
  have "\<exists>s'. load_loop lt (length m) (concat (map kv_entry_bytes m) @ f) s1 = (Ok, s') \<and>
      kv_wf s' \<and> kv_abs s' = kv_abs s1 ++ map_of m"
    using Cons.prems(2,3) by (intro Cons.IH s1(2) card disj) auto
  then obtain s' where s': "load_loop lt (length m) (concat (map kv_entry_bytes m) @ f) s1 = (Ok, s')"
      "kv_wf s'" "kv_abs s' = kv_abs s1 ++ map_of m" by blast
  have "map_of m k = None" using Cons.prems(2) kv by (simp add: map_of_eq_None_iff)
  then have "kv_abs s' = kv_abs s ++ map_of (kv # m)"
    using s'(3) s1(3) kv by (auto simp: map_add_def fun_eq_iff split: option.splits)
  moreover have "load_loop lt (length (kv # m)) (concat (map kv_entry_bytes (kv # m)) @ f) s = (Ok, s')"
    using s'(1) s1(1) kv fits by (simp add: load_entry_bytes)
  ultimately show ?case using s'(2) by blast
qed

lemma Load_file_bytes:
  assumes "kv_wf s" "fs (fk_path t) = Some (kv_file_bytes (kv_map s))"
  shows "\<exists>t'. FileKv_Load lt fs t = (Ok, t') \<and> kv_wf t' \<and> kv_abs t' = kv_abs s"
proof -
  let ?m = "kv_map s" and ?t = "t\<lparr>kv_map := []\<rparr>"
  have n: "unat (word_of_nat (length ?m) :: 32 word) = length ?m"
    using assms(1) by (auto intro!: unat_of_small simp: kv_wf_def config_defs)
  have "\<exists>t'. load_loop lt (length ?m) (concat (map kv_entry_bytes ?m) @ []) ?t = (Ok, t') \<and>
      kv_wf t' \<and> kv_abs t' = kv_abs ?t ++ map_of ?m"
    using assms(1) by (intro load_loop_entries) (auto simp: kv_wf_def)
  then show ?thesis
    using assms(2) n by (auto simp: FileKv_Load_def kv_file_bytes_def fread_def kv_abs_def)
qed

subsection \<open>Truncated files\<close>

lemma load_entry_truncated:
  assumes "kv_fits k v" "n < length (kv_entry_bytes (k, v))"
  shows "load_entry lt (take n (kv_entry_bytes (k, v))) s = None"
proof (rule ccontr)
  let ?e = "kv_entry_bytes (k, v)"
  assume "load_entry lt (take n ?e) s \<noteq> None"
  then obtain f' s' where "load_entry lt (take n ?e) s = Some (f', s')" by auto
  from load_entry_extend [OF this, of "drop n ?e"]
  have "load_entry lt ?e s = Some (f' @ drop n ?e, s')" by simp
  with load_entry_bytes [OF assms(1), of lt "[]" s] have "drop n ?e = []" by simp
  with assms(2) show False by simp
qed

lemma load_loop_truncated:
  assumes "\<forall>kv \<in> set m. kv_fits (fst kv) (snd kv)" "n < length (concat (map kv_entry_bytes m))"
  shows "err_code (fst (load_loop lt (length m) (take n (concat (map kv_entry_bytes m))) s)) =
    Some kv_IoError"
  using assms
proof (induction m arbitrary: n s)
  case Nil
  then show ?case by simp
next
  case (Cons kv m)
  obtain k v where kv: "kv = (k, v)" by (cases kv)
  have fits: "kv_fits k v" using Cons.prems(1) kv by simp
  show ?case
  proof (cases "n < length (kv_entry_bytes kv)")
    case True
    with load_entry_truncated [OF fits, of n lt s] kv show ?thesis by simp
  next
    case False
    with Cons.prems kv Cons.IH [of "n - length (kv_entry_bytes kv)"] fits show ?thesis
      by (auto simp: load_entry_bytes)
  qed
qed

lemma GetU32_short: "length f < 4 \<Longrightarrow> fst (GetU32 f) = None"
proof -
  have "length f < length is \<Longrightarrow> fst (GetU32_loop is v f) = None" for "is" v
  proof (induction "is" arbitrary: v f)
    case (Cons i "is")
    then show ?case by (cases f) auto
  qed simp
  from this [of "[0, 1, 2, 3]" 0] show "length f < 4 \<Longrightarrow> ?thesis"
    unfolding GetU32_def by simp
qed

lemma Load_truncated:
  assumes "kv_wf s" "n < length (kv_file_bytes (kv_map s))"
    "fs (fk_path t) = Some (take n (kv_file_bytes (kv_map s)))"
  shows "err_code (fst (FileKv_Load lt fs t)) = Some kv_IoError"
proof -
  let ?m = "kv_map s" and ?t = "t\<lparr>kv_map := []\<rparr>"
  let ?count = "PutU32 (word_of_nat (length ?m))" and ?body = "concat (map kv_entry_bytes ?m)"
  consider "n < 4" | "4 \<le> n" "n < 8" | "8 \<le> n" by linarith
  then show ?thesis
  proof cases
    case 1
    with assms(3) show ?thesis
      by (simp add: FileKv_Load_def kv_file_bytes_def fread_def)
  next
    case 2
    have "fst (GetU32 (take (n - 4) (?count @ ?body))) = None"
      using 2 by (intro GetU32_short) simp
    with 2 assms(3) show ?thesis
      by (auto simp: FileKv_Load_def Let_def kv_file_bytes_def fread_def
          split: prod.splits option.splits)
  next
    case 3
    have cnt: "unat (word_of_nat (length ?m) :: 32 word) = length ?m"
      using assms(1) by (auto intro!: unat_of_small simp: kv_wf_def config_defs)
    have fits: "\<forall>kv \<in> set ?m. kv_fits (fst kv) (snd kv)"
      using assms(1) by (auto simp: kv_wf_def)
    have "n - 8 < length ?body"
      using 3 assms(2) by (simp add: kv_file_bytes_def)
    from load_loop_truncated [OF fits this, of lt ?t] 3 assms(3) cnt
    show ?thesis
      by (simp add: FileKv_Load_def kv_file_bytes_def fread_def)
  qed
qed

subsection \<open>Committing\<close>

lemma Commit_states:
  assumes "path_ok (fk_path s)" "FileKv_Commit env s fs = (st, tr)" "fs' \<in> set tr"
  shows "fs' (fk_path s) = fs (fk_path s) \<or> fs' (fk_path s) = Some (kv_file_bytes (kv_map s))"
  using assms tmp_path_neq [OF assms(1)]
  by (auto simp: FileKv_Commit_def Let_def split: if_splits)

lemma Commit_final:
  assumes "path_ok (fk_path s)" "FileKv_Commit env s fs = (st, tr)"
  shows "tr \<noteq> [] \<and> last tr (fk_path s) =
    (if is_ok st then Some (kv_file_bytes (kv_map s)) else fs (fk_path s))"
  using assms(2) tmp_path_neq [OF assms(1)]
  by (auto simp: FileKv_Commit_def Let_def Fail_def last_map split: if_splits)

subsection \<open>Properties\<close>

text \<open>
  C1: a commit can be cut off at any call. Whatever state of the file system is left behind, a
  fresh load of the same path succeeds and gives the last committed contents or the new ones; and
  it gives the new ones exactly when \<open>Commit\<close> reported success.
\<close>

theorem commit_crash_safe:
  fixes s old :: FileKv
  assumes "kv_wf s" and "path_ok (fk_path s)"
    and "kv_wf old" and "fs (fk_path s) = Some (kv_file_bytes (kv_map old))"
    and "FileKv_Commit env s fs = (st, tr)"
  shows "(\<forall>fs' \<in> set tr. \<exists>t.
      FileKv_Load lt fs' \<lparr>kv_map = [], fk_path = fk_path s\<rparr> = (Ok, t) \<and> kv_wf t \<and>
      kv_abs t \<in> {kv_abs old, kv_abs s}) \<and>
    (\<exists>t. FileKv_Load lt (last tr) \<lparr>kv_map = [], fk_path = fk_path s\<rparr> = (Ok, t) \<and>
      kv_abs t = (if is_ok st then kv_abs s else kv_abs old))"
proof (rule conjI)
  let ?t = "\<lparr>kv_map = [], fk_path = fk_path s\<rparr>"
  have loads: "fs' (fk_path s) = Some (kv_file_bytes (kv_map u)) \<Longrightarrow> kv_wf u \<Longrightarrow>
      \<exists>t. FileKv_Load lt fs' ?t = (Ok, t) \<and> kv_wf t \<and> kv_abs t = kv_abs u" for fs' u
    using Load_file_bytes [of u fs' ?t lt] by simp
  show "\<forall>fs' \<in> set tr. \<exists>t. FileKv_Load lt fs' ?t = (Ok, t) \<and> kv_wf t \<and>
      kv_abs t \<in> {kv_abs old, kv_abs s}"
  proof
    fix fs' assume "fs' \<in> set tr"
    from Commit_states [OF assms(2,5) this] assms(4)
    consider "fs' (fk_path s) = Some (kv_file_bytes (kv_map old))"
      | "fs' (fk_path s) = Some (kv_file_bytes (kv_map s))" by auto
    then show "\<exists>t. FileKv_Load lt fs' ?t = (Ok, t) \<and> kv_wf t \<and> kv_abs t \<in> {kv_abs old, kv_abs s}"
      using loads [of fs' old] loads [of fs' s] assms(1,3) by cases fastforce+
  qed
  from Commit_final [OF assms(2,5)] loads [of "last tr" s] loads [of "last tr" old] assms(1,3,4)
  show "\<exists>t. FileKv_Load lt (last tr) ?t = (Ok, t) \<and>
      kv_abs t = (if is_ok st then kv_abs s else kv_abs old)"
    by (auto split: if_splits)
qed

theorem commit_crash_safe_witness:
  "\<exists>t. FileKv_Load (\<lambda>_ _. False)
      (last (snd (FileKv_Commit
        \<lparr>ce_open = True, ce_flush = True, ce_partial = 0, ce_rename = True\<rparr>
        \<lparr>kv_map = [(''a'', [1])], fk_path = ''kv''\<rparr> [''kv'' \<mapsto> kv_file_bytes []])))
      \<lparr>kv_map = [], fk_path = ''kv''\<rparr> = (Ok, t) \<and> kv_abs t = [''a'' \<mapsto> [1]]"
proof -
  let ?s = "\<lparr>kv_map = [(''a'', [1])], fk_path = ''kv''\<rparr>"
  let ?env = "\<lparr>ce_open = True, ce_flush = True, ce_partial = 0, ce_rename = True\<rparr>"
  let ?fs = "[''kv'' \<mapsto> kv_file_bytes []]"
  have "\<exists>t. FileKv_Load (\<lambda>_ _. False) (last (snd (FileKv_Commit ?env ?s ?fs)))
      \<lparr>kv_map = [], fk_path = fk_path ?s\<rparr> = (Ok, t) \<and>
      kv_abs t = (if is_ok (fst (FileKv_Commit ?env ?s ?fs)) then kv_abs ?s
        else kv_abs \<lparr>kv_map = [], fk_path = ''kv''\<rparr>)"
    by (rule commit_crash_safe [where fs = ?fs and env = ?env and lt = "\<lambda>_ _. False",
          THEN conjunct2])
      (simp_all add: kv_wf_def kv_fits_def config_defs path_ok_def)
  then show ?thesis
    by (simp add: FileKv_Commit_def Let_def kv_abs_def)
qed

text \<open>
  C25: a store file that was cut short anywhere, even by one byte, is reported as an \<open>IoError\<close> and
  never taken for a complete one.
\<close>

theorem truncated_file_detected:
  assumes "kv_wf s" and "n < length (kv_file_bytes (kv_map s))"
    and "fs (fk_path t) = Some (take n (kv_file_bytes (kv_map s)))"
  shows "err_code (fst (FileKv_Load lt fs t)) = Some kv_IoError"
  using assms by (rule Load_truncated)

theorem truncated_file_detected_witness:
  "err_code (fst (FileKv_Load (\<lambda>_ _. False) [''kv'' \<mapsto> take 9 (kv_file_bytes [(''a'', [1])])]
     \<lparr>kv_map = [], fk_path = ''kv''\<rparr>)) = Some kv_IoError"
  by (rule truncated_file_detected [where s = "\<lparr>kv_map = [(''a'', [1])]\<rparr>" and n = 9])
    (simp_all add: kv_wf_def kv_fits_def config_defs kv_file_bytes_def kv_entry_bytes_def)

text \<open>
  Loading a file with any contents at all leaves a store within its capacities, keeps its path
  and fails with no code but \<open>IoError\<close>.
\<close>

theorem load_any_file:
  "case FileKv_Load lt fs t of
     (st, t') \<Rightarrow> kv_wf t' \<and> fk_path t' = fk_path t \<and> err_code st \<in> {None, Some kv_IoError}"
  using Load_wf [of lt fs t] by (auto split: prod.splits)

end
