(* ===== verification/Json.thy ===== *)
theory Json
  imports Core
begin

section \<open>Json: the bounded tokeniser\<close>

text \<open>
  \<open>include/etlx/json/json.hpp\<close> and \<open>src/json/json.cpp\<close>, the tokeniser. It writes into a token
  array its caller owns; a token is reached by its index, and an index out of the array's range is
  undefined behaviour in the source, here \<open>None\<close> as the result of the parse. Source positions are
  stored as \<open>int32_t\<close>: \<open>i32\<close> is that conversion. The view over the tokens is in the theory
  \<open>JsonView\<close>.
\<close>

subsection \<open>Data\<close>

definition json_Category :: Category where
  [category_defs]: "json_Category = \<lparr>cat_name = ''json''\<rparr>"

definition json_NoMemory :: Code where [category_defs]: "json_NoMemory = 1"
definition json_Invalid :: Code where [category_defs]: "json_Invalid = 2"
definition json_Partial :: Code where [category_defs]: "json_Partial = 3"
definition json_WrongType :: Code where [category_defs]: "json_WrongType = 4"

datatype Type = Undefined | Object | Array | String | Primitive

record Token =
  tok_type :: Type
  tok_start :: int
  tok_end :: int
  tok_size :: int
  tok_parent :: int

definition Token_init :: Token where
  "Token_init =
     \<lparr>tok_type = Undefined, tok_start = -1, tok_end = -1, tok_size = 0, tok_parent = -1\<rparr>"

definition i32 :: "nat \<Rightarrow> int" where
  "i32 n = sint (word_of_nat n :: 32 word)"

record Parser =
  p_tokens :: "Token list"
  p_pos :: nat
  p_toknext :: int
  p_toksuper :: int

definition tok_get :: "Token list \<Rightarrow> int \<Rightarrow> Token option" where
  "tok_get ts i = (if 0 \<le> i \<and> nat i < length ts then Some (ts ! nat i) else None)"

definition tok_upd :: "(Token \<Rightarrow> Token) \<Rightarrow> int \<Rightarrow> Parser \<Rightarrow> Parser option" where
  "tok_upd f i p =
     (case tok_get (p_tokens p) i of
        None \<Rightarrow> None
      | Some t \<Rightarrow> Some (p\<lparr>p_tokens := (p_tokens p)[nat i := f t]\<rparr>))"

subsection \<open>Tokens\<close>

definition Alloc :: "Parser \<Rightarrow> int option \<times> Parser" where
  "Alloc p =
     (if nat (p_toknext p) \<ge> length (p_tokens p) then (None, p)
      else (Some (p_toknext p),
            p\<lparr>p_tokens := (p_tokens p)[nat (p_toknext p) := Token_init],
              p_toknext := p_toknext p + 1\<rparr>))"

definition IsHex :: "char \<Rightarrow> bool" where
  "IsHex c =
     ((of_char c \<ge> (48::nat) \<and> of_char c \<le> (57::nat)) \<or>
      (of_char c \<ge> (97::nat) \<and> of_char c \<le> (102::nat)) \<or>
      (of_char c \<ge> (65::nat) \<and> of_char c \<le> (70::nat)))"

definition is_space :: "char \<Rightarrow> bool" where
  "is_space c = (c = CHR 0x09 \<or> c = CHR 0x0D \<or> c = CHR 0x0A \<or> c = CHR '' '')"

definition is_delim :: "char \<Rightarrow> bool" where
  "is_delim c =
     (is_space c \<or> c = CHR '','' \<or> c = CHR '']'' \<or> c = CHR ''}'' \<or> c = CHR '':'')"

definition is_control :: "char \<Rightarrow> bool" where
  "is_control c = (of_char c < (32::nat))"

text \<open>
  The token a scanner has finished: the freshly allocated slot, filled from \<open>start\<close> to the
  current position.
\<close>

definition fill_token :: "Type \<Rightarrow> nat \<Rightarrow> Parser \<Rightarrow> (Status \<times> Parser) option" where
  "fill_token ty start p =
     (case Alloc p of
        (None, p') \<Rightarrow> None
      | (Some i, p') \<Rightarrow>
          Some (Ok, p'\<lparr>p_tokens := (p_tokens p')
            [nat i := \<lparr>tok_type = ty, tok_start = i32 start, tok_end = i32 (p_pos p),
                       tok_size = 0, tok_parent = p_toksuper p\<rparr>]\<rparr>))"

definition no_tokens :: "nat \<Rightarrow> Parser \<Rightarrow> Status \<times> Parser" where
  "no_tokens start p =
     (Fail json_Category json_NoMemory ''tokens exhausted'', p\<lparr>p_pos := start\<rparr>)"

function ParsePrimitive_loop :: "nat \<Rightarrow> string \<Rightarrow> Parser \<Rightarrow> Status \<times> Parser" where
  "ParsePrimitive_loop start js p =
     (if p_pos p < length js then
        (let c = js ! p_pos p in
         if is_delim c then
           (case fill_token Primitive start p of
              None \<Rightarrow> no_tokens start p
            | Some (st, p') \<Rightarrow> (st, p'\<lparr>p_pos := p_pos p' - 1\<rparr>))
         else if is_control c then
           (Fail json_Category json_Invalid ''control char in primitive'', p\<lparr>p_pos := start\<rparr>)
         else ParsePrimitive_loop start js (p\<lparr>p_pos := p_pos p + 1\<rparr>))
      else (Fail json_Category json_Partial ''unterminated primitive'', p\<lparr>p_pos := start\<rparr>))"
  by pat_completeness auto
termination
  by (relation "measure (\<lambda>(start, js, p). length js - p_pos p)") auto

definition ParsePrimitive :: "string \<Rightarrow> Parser \<Rightarrow> Status \<times> Parser" where
  "ParsePrimitive js p = ParsePrimitive_loop (p_pos p) js p"

text \<open>The four digits of a unicode escape; the answer is the position of the last one.\<close>

fun hex_loop :: "nat \<Rightarrow> string \<Rightarrow> nat \<Rightarrow> nat Result" where
  "hex_loop 0 js pos = Inr pos"
| "hex_loop (Suc n) js pos =
     (if pos + 1 \<ge> length js then Fail json_Category json_Partial (''short '' @ [CHR 0x5C] @ ''u escape'')
      else if \<not> IsHex (js ! (pos + 1)) then Fail json_Category json_Invalid (''bad '' @ [CHR 0x5C] @ ''u escape'')
      else hex_loop n js (pos + 1))"

definition escape :: "string \<Rightarrow> nat \<Rightarrow> nat Result" where
  "escape js pos =
     (let c = js ! pos in
      if c \<in> set [CHR 0x22, CHR ''/'', CHR 0x5C, CHR ''b'', CHR ''f'', CHR ''r'', CHR ''n'', CHR ''t'']
      then Inr pos
      else if c = CHR ''u'' then hex_loop 4 js pos
      else Fail json_Category json_Invalid ''bad escape'')"

lemma hex_loop_pos: "hex_loop n js pos = Inr q \<Longrightarrow> q = pos + n"
proof (induction n arbitrary: pos)
  case (Suc n)
  from Suc.IH [of "pos + 1"] Suc.prems show ?case by (auto split: if_splits)
qed simp

lemma escape_pos: "escape js pos = Inr q \<Longrightarrow> pos \<le> q"
  by (auto simp: escape_def Let_def split: if_splits dest: hex_loop_pos)

function (sequential) ParseString_loop :: "nat \<Rightarrow> string \<Rightarrow> Parser \<Rightarrow> Status \<times> Parser" where
  "ParseString_loop start js p =
     (if p_pos p < length js then
        (let c = js ! p_pos p in
         if c = CHR 0x22 then
           (case fill_token String (start + 1) p of
              None \<Rightarrow> no_tokens start p
            | Some r \<Rightarrow> r)
         else if c = CHR 0x5C \<and> p_pos p + 1 < length js then
           (case escape js (p_pos p + 1) of
              Inl e \<Rightarrow> (Inl e, p\<lparr>p_pos := start\<rparr>)
            | Inr q \<Rightarrow> ParseString_loop start js (p\<lparr>p_pos := q + 1\<rparr>))
         else ParseString_loop start js (p\<lparr>p_pos := p_pos p + 1\<rparr>))
      else (Fail json_Category json_Partial ''unterminated string'', p\<lparr>p_pos := start\<rparr>))"
  by pat_completeness auto
termination
  by (relation "measure (\<lambda>(start, js, p). length js - p_pos p)") (auto dest: escape_pos)

definition ParseString :: "string \<Rightarrow> Parser \<Rightarrow> Status \<times> Parser" where
  "ParseString js p = ParseString_loop (p_pos p) js (p\<lparr>p_pos := p_pos p + 1\<rparr>)"

subsection \<open>The main loop\<close>

definition bump_size :: "Parser \<Rightarrow> Parser option" where
  "bump_size p =
     (if p_toksuper p \<noteq> -1
      then tok_upd (\<lambda>t. t\<lparr>tok_size := tok_size t + 1\<rparr>) (p_toksuper p) p
      else Some p)"

definition open_step :: "Type \<Rightarrow> Parser \<Rightarrow> (Status \<times> Parser) option" where
  "open_step ty p =
     (case Alloc p of
        (None, p1) \<Rightarrow> Some (Fail json_Category json_NoMemory ''tokens exhausted'', p1)
      | (Some i, p1) \<Rightarrow>
          (case bump_size p1 of
             None \<Rightarrow> None
           | Some p2 \<Rightarrow>
               map_option (\<lambda>p3. (Ok, p3\<lparr>p_toksuper := p_toknext p3 - 1\<rparr>))
                 (tok_upd (\<lambda>t. t\<lparr>tok_parent := (if p_toksuper p2 \<noteq> -1 then p_toksuper p2
                                                 else tok_parent t),
                                  tok_type := ty, tok_start := i32 (p_pos p2)\<rparr>) i p2)))"

text \<open>\<open>close_loop ty n\<close> looks at the tokens \<open>n - 1, \<dots>, 0\<close> for the one still open.\<close>

fun close_loop :: "Type \<Rightarrow> nat \<Rightarrow> Parser \<Rightarrow> (Status \<times> Parser) option" where
  "close_loop ty 0 p =
     Some (Fail json_Category json_Invalid ''stray closing bracket'', p)"
| "close_loop ty (Suc i) p =
     (case tok_get (p_tokens p) (int i) of
        None \<Rightarrow> None
      | Some t \<Rightarrow>
          if tok_start t \<noteq> -1 \<and> tok_end t = -1 then
            if tok_type t \<noteq> ty
            then Some (Fail json_Category json_Invalid ''mismatched bracket'', p)
            else Some (Ok, p\<lparr>p_tokens := (p_tokens p)[i := t\<lparr>tok_end := i32 (p_pos p + 1)\<rparr>],
                             p_toksuper := tok_parent t\<rparr>)
          else close_loop ty i p)"

definition comma_step :: "Parser \<Rightarrow> Parser option" where
  "comma_step p =
     (if p_toksuper p \<noteq> -1 then
        (case tok_get (p_tokens p) (p_toksuper p) of
           None \<Rightarrow> None
         | Some t \<Rightarrow>
             if tok_type t \<noteq> Array \<and> tok_type t \<noteq> Object
             then Some (p\<lparr>p_toksuper := tok_parent t\<rparr>) else Some p)
      else Some p)"

definition scalar_step :: "Status \<times> Parser \<Rightarrow> (Status \<times> Parser) option" where
  "scalar_step r =
     (case r of
        (Inl e, p) \<Rightarrow> Some (Inl e, p)
      | (Inr _, p) \<Rightarrow> map_option (Pair Ok) (bump_size p))"

definition Parse_step :: "string \<Rightarrow> Parser \<Rightarrow> (Status \<times> Parser) option" where
  "Parse_step js p =
     (let c = js ! p_pos p in
      if c = CHR ''{'' then open_step Object p
      else if c = CHR ''['' then open_step Array p
      else if c = CHR ''}'' then close_loop Object (nat (p_toknext p)) p
      else if c = CHR '']'' then close_loop Array (nat (p_toknext p)) p
      else if c = CHR 0x22 then scalar_step (ParseString js p)
      else if is_space c then Some (Ok, p)
      else if c = CHR '':'' then Some (Ok, p\<lparr>p_toksuper := p_toknext p - 1\<rparr>)
      else if c = CHR '','' then map_option (Pair Ok) (comma_step p)
      else scalar_step (ParsePrimitive js p))"

subsection \<open>Progress of the scanners\<close>

declare ParsePrimitive_loop.simps [simp del] ParseString_loop.simps [simp del]

lemma fill_token_pos:
  "fill_token ty start p = Some (st, p') \<Longrightarrow> p_pos p' = p_pos p \<and> st = Ok"
  by (auto simp: fill_token_def Alloc_def split: if_splits option.splits)

lemma ParsePrimitive_loop_pos:
  assumes "start \<le> p_pos p" "p_pos p = start \<Longrightarrow> start < length js \<Longrightarrow> \<not> is_delim (js ! start)"
    "ParsePrimitive_loop start js p = (st, p')"
  shows "start \<le> p_pos p'"
  using assms
proof (induction start js p rule: ParsePrimitive_loop.induct)
  case (1 start js p)
  show ?case
  proof (cases "p_pos p < length js \<and> \<not> is_delim (js ! p_pos p) \<and> \<not> is_control (js ! p_pos p)")
    case True
    then have "ParsePrimitive_loop start js (p\<lparr>p_pos := p_pos p + 1\<rparr>) = (st, p')"
      using "1.prems"(3) by (subst (asm) ParsePrimitive_loop.simps) (simp add: Let_def)
    with True "1.IH" [OF _ refl] "1.prems"(1) show ?thesis by simp
  next
    case False
    have "p_pos p < length js \<Longrightarrow> is_delim (js ! p_pos p) \<Longrightarrow> start < p_pos p"
      using "1.prems"(1,2) by (cases "p_pos p = start") auto
    with False "1.prems"(1) "1.prems"(3) [unfolded ParsePrimitive_loop.simps [of start js p]]
    show ?thesis
      by (auto simp: Let_def no_tokens_def dest!: fill_token_pos split: if_splits option.splits)
  qed
qed

lemma ParseString_loop_pos:
  assumes "start \<le> p_pos p" "ParseString_loop start js p = (st, p')"
  shows "start \<le> p_pos p'"
  using assms
proof (induction start js p rule: ParseString_loop.induct)
  case (1 start js p)
  have "start \<le> q + 1" if "escape js (p_pos p + 1) = Inr q" for q
    using escape_pos [OF that] "1.prems"(1) by simp
  with "1.IH" [OF _ refl] "1.prems" show ?case
    by (subst (asm) (2) ParseString_loop.simps)
      (auto simp: Let_def no_tokens_def dest!: fill_token_pos split: if_splits option.splits sum.splits)
qed

lemma tok_upd_pos: "tok_upd f i p = Some p' \<Longrightarrow> p_pos p' = p_pos p"
  by (auto simp: tok_upd_def split: option.splits)

lemma bump_size_pos: "bump_size p = Some p' \<Longrightarrow> p_pos p' = p_pos p"
  by (auto simp: bump_size_def dest: tok_upd_pos split: if_splits)

lemma close_loop_pos: "close_loop ty n p = Some (st, p') \<Longrightarrow> p_pos p' = p_pos p"
  by (induction ty n p rule: close_loop.induct) (auto split: option.splits if_splits)

lemma open_step_pos: "open_step ty p = Some (st, p') \<Longrightarrow> p_pos p' = p_pos p"
  by (auto simp: open_step_def Alloc_def dest!: tok_upd_pos bump_size_pos
      split: option.splits if_splits prod.splits)

lemma scalar_step_pos:
  "scalar_step (st, p) = Some (st', p') \<Longrightarrow> p_pos p' = p_pos p"
  by (auto simp: scalar_step_def dest!: bump_size_pos split: sum.splits)

lemma comma_step_pos: "comma_step p = Some p' \<Longrightarrow> p_pos p' = p_pos p"
  by (auto simp: comma_step_def split: if_splits option.splits)

lemma Parse_step_cases:
  assumes "Parse_step js p = r"
  obtains (opens) ty where "js ! p_pos p = (if ty = Object then CHR ''{'' else CHR ''['')"
      "ty \<in> {Object, Array}" "open_step ty p = r"
  | (closes) ty where "js ! p_pos p = (if ty = Object then CHR ''}'' else CHR '']'')"
      "ty \<in> {Object, Array}" "close_loop ty (nat (p_toknext p)) p = r"
  | (quote) "js ! p_pos p = CHR 0x22" "scalar_step (ParseString js p) = r"
  | (space) "is_space (js ! p_pos p)" "r = Some (Ok, p)"
  | (colon) "js ! p_pos p = CHR '':''" "r = Some (Ok, p\<lparr>p_toksuper := p_toknext p - 1\<rparr>)"
  | (comma) "js ! p_pos p = CHR '',''" "map_option (Pair Ok) (comma_step p) = r"
  | (scalar) "\<not> is_delim (js ! p_pos p)" "js ! p_pos p \<noteq> CHR 0x22"
      "scalar_step (ParsePrimitive js p) = r"
proof -
  let ?c = "js ! p_pos p"
  note r = assms [unfolded Parse_step_def Let_def]
  consider "?c = CHR ''{''" | "?c = CHR ''[''" | "?c = CHR ''}''" | "?c = CHR '']''"
    | "?c = CHR 0x22" | "is_space ?c" | "?c = CHR '':''" | "?c = CHR '',''"
    | "\<not> is_delim ?c" "?c \<notin> {CHR 0x22, CHR ''{'', CHR ''[''}"
    by (auto simp: is_delim_def)
  then show thesis
  proof cases
    case 1
    then show ?thesis using r by (intro opens [of Object]) auto
  next
    case 2
    then show ?thesis using r by (intro opens [of Array]) auto
  next
    case 3
    then show ?thesis using r by (intro closes [of Object]) auto
  next
    case 4
    then show ?thesis using r by (intro closes [of Array]) auto
  next
    case 5
    then show ?thesis using r by (intro quote) auto
  next
    case 6
    then show ?thesis using r by (intro space) (auto simp: is_space_def)
  next
    case 7
    then show ?thesis using r by (intro colon) (auto simp: is_space_def)
  next
    case 8
    then show ?thesis using r by (intro comma) (auto simp: is_space_def)
  next
    case 9
    then show ?thesis using r by (intro scalar) (auto simp: is_delim_def)
  qed
qed

lemma Parse_step_pos:
  assumes "Parse_step js p = Some (st, p')"
  shows "p_pos p \<le> p_pos p'"
  using assms
proof (cases rule: Parse_step_cases)
  case quote
  obtain st1 p1 where p1: "ParseString js p = (st1, p1)" by fastforce
  then have "p_pos p \<le> p_pos p1"
    using ParseString_loop_pos [of "p_pos p" "p\<lparr>p_pos := p_pos p + 1\<rparr>" js]
    unfolding ParseString_def by simp
  with quote p1 scalar_step_pos show ?thesis by metis
next
  case scalar
  obtain st1 p1 where p1: "ParsePrimitive js p = (st1, p1)" by fastforce
  then have "p_pos p \<le> p_pos p1"
    using ParsePrimitive_loop_pos [of "p_pos p" p js] scalar unfolding ParsePrimitive_def by simp
  with scalar p1 scalar_step_pos show ?thesis by metis
qed (auto dest: open_step_pos close_loop_pos comma_step_pos)

function Parse_loop :: "string \<Rightarrow> Parser \<Rightarrow> (Status \<times> Parser) option" where
  "Parse_loop js p =
     (if p_pos p < length js then
        (case Parse_step js p of
           None \<Rightarrow> None
         | Some (Inl e, p') \<Rightarrow> Some (Inl e, p')
         | Some (Inr _, p') \<Rightarrow> Parse_loop js (p'\<lparr>p_pos := p_pos p' + 1\<rparr>))
      else Some (Ok, p))"
  by pat_completeness auto
termination
  by (relation "measure (\<lambda>(js, p). length js - p_pos p)") (auto dest!: Parse_step_pos)

declare Parse_loop.simps [simp del]

fun unclosed_loop :: "Token list \<Rightarrow> nat \<Rightarrow> Status option" where
  "unclosed_loop ts 0 = Some Ok"
| "unclosed_loop ts (Suc i) =
     (case tok_get ts (int i) of
        None \<Rightarrow> None
      | Some t \<Rightarrow>
          if tok_start t \<noteq> -1 \<and> tok_end t = -1
          then Some (Fail json_Category json_Partial ''unclosed container'')
          else unclosed_loop ts i)"

definition Parse :: "string \<Rightarrow> Token list \<Rightarrow> (nat Result \<times> Token list) option" where
  "Parse js tokens =
     (case Parse_loop js \<lparr>p_tokens = tokens, p_pos = 0, p_toknext = 0, p_toksuper = -1\<rparr> of
        None \<Rightarrow> None
      | Some (Inl e, p) \<Rightarrow> Some (Inl e, p_tokens p)
      | Some (Inr _, p) \<Rightarrow>
          (case unclosed_loop (p_tokens p) (nat (p_toknext p)) of
             None \<Rightarrow> None
           | Some (Inl e) \<Rightarrow> Some (Inl e, p_tokens p)
           | Some (Inr _) \<Rightarrow> Some (Inr (nat (p_toknext p)), p_tokens p)))"


subsection \<open>The effect of each step on the tokens in use\<close>

text \<open>
  The tokens in use are the first \<open>p_toknext\<close> slots. \<open>safe\<close> says that every index the parser
  keeps, the enclosing token and each token's parent, points into them.
\<close>

definition used :: "Parser \<Rightarrow> Token list" where
  "used p = take (nat (p_toknext p)) (p_tokens p)"

definition safe :: "Parser \<Rightarrow> bool" where
  "safe p \<longleftrightarrow> 0 \<le> p_toknext p \<and> nat (p_toknext p) \<le> length (p_tokens p) \<and>
     -1 \<le> p_toksuper p \<and> p_toksuper p < p_toknext p \<and>
     (\<forall>t \<in> set (used p). -1 \<le> tok_parent t \<and> tok_parent t < p_toknext p)"

definition closed :: "Token \<Rightarrow> bool" where
  "closed t \<longleftrightarrow> \<not> (tok_start t \<noteq> -1 \<and> tok_end t = -1)"

definition bump :: "int \<Rightarrow> Token list \<Rightarrow> Token list" where
  "bump s us = (if s = -1 then us else us[nat s := (us ! nat s)\<lparr>tok_size := tok_size (us ! nat s) + 1\<rparr>])"

definition leaf :: "Type \<Rightarrow> nat \<Rightarrow> nat \<Rightarrow> int \<Rightarrow> Token" where
  "leaf ty s e par =
     \<lparr>tok_type = ty, tok_start = i32 s, tok_end = i32 e, tok_size = 0, tok_parent = par\<rparr>"

definition node :: "Type \<Rightarrow> nat \<Rightarrow> int \<Rightarrow> Token" where
  "node ty s par =
     \<lparr>tok_type = ty, tok_start = i32 s, tok_end = -1, tok_size = 0, tok_parent = par\<rparr>"

lemma length_bump [simp]: "length (bump s us) = length us"
  by (simp add: bump_def)

lemma bump_append: "-1 \<le> s \<Longrightarrow> s < int (length us) \<Longrightarrow> bump s (us @ vs) = bump s us @ vs"
  by (auto simp: bump_def list_update_append nth_append)

lemma safe_split:
  assumes "safe p"
  obtains us rest where "p_tokens p = us @ rest" "p_toknext p = int (length us)" "used p = us"
    "-1 \<le> p_toksuper p" "p_toksuper p < int (length us)"
    "\<forall>t \<in> set us. -1 \<le> tok_parent t \<and> tok_parent t < int (length us)"
proof
  show "p_tokens p = used p @ drop (nat (p_toknext p)) (p_tokens p)" by (simp add: used_def)
  show n: "p_toknext p = int (length (used p))" using assms by (simp add: used_def safe_def)
  show "used p = used p" ..
  show "-1 \<le> p_toksuper p" "p_toksuper p < int (length (used p))"
    using assms n by (simp_all add: safe_def)
  show "\<forall>t \<in> set (used p). -1 \<le> tok_parent t \<and> tok_parent t < int (length (used p))"
    using assms n by (simp add: safe_def)
qed

lemma safeI:
  assumes "p_tokens p = us @ rest" "p_toknext p = int (length us)"
    "-1 \<le> p_toksuper p" "p_toksuper p < int (length us)"
    "\<forall>t \<in> set us. -1 \<le> tok_parent t \<and> tok_parent t < int (length us)"
  shows "safe p"
  using assms by (simp add: safe_def used_def)

lemma usedI: "p_tokens p = us @ rest \<Longrightarrow> p_toknext p = int (length us) \<Longrightarrow> used p = us"
  by (simp add: used_def)

lemma fill_token_eq:
  "p_tokens p = us @ r # rest \<Longrightarrow> p_toknext p = int (length us) \<Longrightarrow>
   fill_token ty start p =
     Some (Ok, p\<lparr>p_tokens := us @ leaf ty start (p_pos p) (p_toksuper p) # rest,
                 p_toknext := int (length us) + 1\<rparr>)"
  by (simp add: fill_token_def Alloc_def leaf_def list_update_append)

lemma fill_token_full:
  "p_tokens p = us \<Longrightarrow> p_toknext p = int (length us) \<Longrightarrow> fill_token ty start p = None"
  by (simp add: fill_token_def Alloc_def)

lemma tok_upd_eq:
  "p_tokens p = us @ t # rest \<Longrightarrow>
   tok_upd f (int (length us)) p = Some (p\<lparr>p_tokens := us @ f t # rest\<rparr>)"
  by (simp add: tok_upd_def tok_get_def)

lemma bump_size_eq:
  "p_tokens p = us @ rest \<Longrightarrow> -1 \<le> p_toksuper p \<Longrightarrow> p_toksuper p < int (length us) \<Longrightarrow>
   bump_size p = Some (p\<lparr>p_tokens := bump (p_toksuper p) us @ rest\<rparr>)"
  by (auto simp: bump_size_def bump_def tok_upd_def tok_get_def list_update_append nth_append)

lemma open_step_eq:
  assumes "p_tokens p = us @ r # rest" "p_toknext p = int (length us)"
    "-1 \<le> p_toksuper p" "p_toksuper p < int (length us)"
  shows "open_step ty p =
    Some (Ok, p\<lparr>p_tokens := bump (p_toksuper p) us @ node ty (p_pos p) (p_toksuper p) # rest,
                p_toknext := int (length us) + 1, p_toksuper := int (length us)\<rparr>)"
proof -
  let ?p1 = "p\<lparr>p_tokens := us @ Token_init # rest, p_toknext := int (length us) + 1\<rparr>"
  let ?p2 = "?p1\<lparr>p_tokens := bump (p_toksuper p) us @ Token_init # rest\<rparr>"
  have a: "Alloc p = (Some (int (length us)), ?p1)"
    using assms(1,2) by (simp add: Alloc_def)
  have b: "bump_size ?p1 = Some ?p2"
    using assms(3,4) by (subst bump_size_eq [where us = us]) auto
  have u: "tok_upd f (int (length us)) ?p2 =
      Some (?p2\<lparr>p_tokens := bump (p_toksuper p) us @ f Token_init # rest\<rparr>)" for f
    using tok_upd_eq [of ?p2 "bump (p_toksuper p) us" Token_init rest f] by simp
  show ?thesis
    by (simp only: open_step_def a b u option.case prod.case option.map)
      (simp add: node_def Token_init_def)
qed

lemma open_step_full:
  "p_tokens p = us \<Longrightarrow> p_toknext p = int (length us) \<Longrightarrow>
   open_step ty p = Some (Fail json_Category json_NoMemory ''tokens exhausted'', p)"
  by (simp add: open_step_def Alloc_def)

lemma close_loop_closed:
  "p_tokens p = us @ ts @ rest \<Longrightarrow> \<forall>t \<in> set ts. closed t \<Longrightarrow>
   close_loop ty (length us + length ts) p = close_loop ty (length us) p"
proof (induction ts arbitrary: rest rule: rev_induct)
  case (snoc t ts)
  from snoc.prems have "close_loop ty (length us + length (ts @ [t])) p =
      close_loop ty (length us + length ts) p"
    by (auto simp: tok_get_def closed_def nth_append)
  with snoc.IH [of "t # rest"] snoc.prems show ?case by simp
qed simp

lemma close_loop_stray:
  "p_tokens p = us @ rest \<Longrightarrow> \<forall>t \<in> set us. closed t \<Longrightarrow>
   close_loop ty (length us) p =
     Some (Fail json_Category json_Invalid ''stray closing bracket'', p)"
  using close_loop_closed [of p "[]" us rest ty] by simp

lemma close_loop_eq:
  assumes "p_tokens p = us @ t # vs @ rest" "\<not> closed t" "\<forall>v \<in> set vs. closed v"
  shows "close_loop ty (length us + 1 + length vs) p =
    (if tok_type t \<noteq> ty then Some (Fail json_Category json_Invalid ''mismatched bracket'', p)
     else Some (Ok, p\<lparr>p_tokens := us @ t\<lparr>tok_end := i32 (p_pos p + 1)\<rparr> # vs @ rest,
                      p_toksuper := tok_parent t\<rparr>))"
  using assms close_loop_closed [of p "us @ [t]" vs rest ty]
  by (simp add: tok_get_def closed_def)

text \<open>What the scanners accept, and how they fail.\<close>

definition json_err :: "'a Result \<Rightarrow> bool" where
  "json_err st \<longleftrightarrow> err_code st \<in> {None, Some json_NoMemory, Some json_Invalid, Some json_Partial}"

lemma json_err_simps [simp]:
  "json_err (Inr x)"
  "json_err (Fail c json_NoMemory m)" "json_err (Fail c json_Invalid m)"
  "json_err (Fail c json_Partial m)"
  by (simp_all add: json_err_def)

lemma hex_loop_err: "hex_loop n js pos = Inl e \<Longrightarrow> json_err (Inl e :: Status)"
  by (induction n js pos rule: hex_loop.induct)
    (auto simp: Fail_def json_err_def split: if_splits)

lemma escape_err: "escape js pos = Inl e \<Longrightarrow> json_err (Inl e :: Status)"
  by (auto simp: escape_def Let_def Fail_def json_err_def split: if_splits
      dest!: hex_loop_err [unfolded json_err_def])

definition prim_span :: "string \<Rightarrow> nat \<Rightarrow> nat \<Rightarrow> bool" where
  "prim_span js s e \<longleftrightarrow> s < e \<and> e < length js \<and> is_delim (js ! e) \<and>
     (\<forall>k. s \<le> k \<and> k < e \<longrightarrow> \<not> is_delim (js ! k) \<and> \<not> is_control (js ! k))"

definition str_span :: "string \<Rightarrow> nat \<Rightarrow> nat \<Rightarrow> bool" where
  "str_span js s e \<longleftrightarrow> 1 \<le> s \<and> s \<le> e \<and> e < length js \<and> js ! (s - 1) = CHR 0x22 \<and> js ! e = CHR 0x22"

lemma ParsePrimitive_loop_result:
  assumes "p_tokens p = us @ rest" "p_toknext p = int (length us)"
    "start \<le> p_pos p" "start < length js" "\<not> is_delim (js ! start)"
    "\<forall>k. start \<le> k \<and> k < p_pos p \<longrightarrow> \<not> is_delim (js ! k) \<and> \<not> is_control (js ! k)"
    "ParsePrimitive_loop start js p = (st, p')"
  shows "(\<not> is_ok st \<and> json_err st \<and> p' = p\<lparr>p_pos := start\<rparr>) \<or>
    (\<exists>e r rest'. st = Ok \<and> prim_span js start e \<and> rest = r # rest' \<and>
      p' = p\<lparr>p_pos := e - 1, p_tokens := us @ leaf Primitive start e (p_toksuper p) # rest',
             p_toknext := int (length us) + 1\<rparr>)"
  using assms
proof (induction start js p rule: ParsePrimitive_loop.induct)
  case (1 start js p)
  note step = "1.prems"(7) [unfolded ParsePrimitive_loop.simps [of start js p]]
  consider (out) "\<not> p_pos p < length js"
    | (delim) "p_pos p < length js" "is_delim (js ! p_pos p)"
    | (ctrl) "p_pos p < length js" "\<not> is_delim (js ! p_pos p)" "is_control (js ! p_pos p)"
    | (more) "p_pos p < length js" "\<not> is_delim (js ! p_pos p)" "\<not> is_control (js ! p_pos p)"
    by blast
  then show ?case
  proof cases
    case delim
    then have lt: "start < p_pos p" using "1.prems"(3,5) by (cases "p_pos p = start") auto
    show ?thesis
    proof (cases rest)
      case Nil
      with step delim "1.prems"(1,2) show ?thesis
        by (simp add: Let_def fill_token_full no_tokens_def Fail_def json_err_def) auto
    next
      case (Cons r rest')
      with step delim "1.prems"(1,2) fill_token_eq [of p us r rest' Primitive start]
      have "st = Ok" "p' = p\<lparr>p_pos := p_pos p - 1,
          p_tokens := us @ leaf Primitive start (p_pos p) (p_toksuper p) # rest',
          p_toknext := int (length us) + 1\<rparr>"
        by (auto simp: Let_def)
      moreover have "prim_span js start (p_pos p)"
        using delim lt "1.prems"(6) by (simp add: prim_span_def)
      ultimately show ?thesis using Cons by blast
    qed
  next
    case more
    with step "1.IH" [OF more(1) refl more(2,3)] "1.prems" show ?thesis
      by (auto simp: Let_def less_Suc_eq)
  qed (use step in \<open>auto simp: Let_def Fail_def json_err_def\<close>)
qed

lemma ParseString_loop_result:
  assumes "p_tokens p = us @ rest" "p_toknext p = int (length us)"
    "start < p_pos p" "js ! start = CHR 0x22"
    "ParseString_loop start js p = (st, p')"
  shows "(\<not> is_ok st \<and> json_err st \<and> p' = p\<lparr>p_pos := start\<rparr>) \<or>
    (\<exists>e r rest'. st = Ok \<and> str_span js (start + 1) e \<and> rest = r # rest' \<and>
      p' = p\<lparr>p_pos := e, p_tokens := us @ leaf String (start + 1) e (p_toksuper p) # rest',
             p_toknext := int (length us) + 1\<rparr>)"
  using assms
proof (induction start js p rule: ParseString_loop.induct)
  case (1 start js p)
  note step = "1.prems"(5) [unfolded ParseString_loop.simps [of start js p]]
  consider (out) "\<not> p_pos p < length js"
    | (quote) "p_pos p < length js" "js ! p_pos p = CHR 0x22"
    | (esc) "p_pos p < length js" "js ! p_pos p \<noteq> CHR 0x22"
      "js ! p_pos p = CHR 0x5C \<and> p_pos p + 1 < length js"
    | (more) "p_pos p < length js" "js ! p_pos p \<noteq> CHR 0x22"
      "\<not> (js ! p_pos p = CHR 0x5C \<and> p_pos p + 1 < length js)"
    by blast
  then show ?case
  proof cases
    case out
    with step show ?thesis by (auto simp: Fail_def json_err_def)
  next
    case quote
    show ?thesis
    proof (cases rest)
      case Nil
      with step quote "1.prems"(1,2) show ?thesis
        by (simp add: Let_def fill_token_full no_tokens_def Fail_def json_err_def) auto
    next
      case (Cons r rest')
      with step quote "1.prems"(1,2) fill_token_eq [of p us r rest' String "start + 1"]
      have "st = Ok" "p' = p\<lparr>p_tokens := us @ leaf String (start + 1) (p_pos p) (p_toksuper p) # rest',
          p_toknext := int (length us) + 1\<rparr>"
        by (auto simp: Let_def)
      moreover have "str_span js (start + 1) (p_pos p)"
        using quote "1.prems"(3,4) by (simp add: str_span_def)
      ultimately show ?thesis using Cons by fastforce
    qed
  next
    case esc
    show ?thesis
    proof (cases "escape js (p_pos p + 1)")
      case (Inl e)
      with step esc escape_err [OF Inl] show ?thesis by (auto simp: Let_def)
    next
      case (Inr q)
      with escape_pos [OF Inr] step "1.IH"(1) [OF esc(1) refl esc(2,3) Inr] "1.prems" esc
      show ?thesis by (auto simp: Let_def)
    qed
  next
    case more
    with step "1.IH"(2) [OF more(1) refl more(2,3)] "1.prems" show ?thesis
      by (auto simp: Let_def split: if_splits)
  qed
qed


subsection \<open>Every step keeps the indices in range\<close>

definition opener :: "Type \<Rightarrow> char" where
  "opener ty = (if ty = Object then CHR ''{'' else CHR ''['')"

definition closer :: "Type \<Rightarrow> char" where
  "closer ty = (if ty = Object then CHR ''}'' else CHR '']'')"

inductive step_effect :: "string \<Rightarrow> Parser \<Rightarrow> Parser \<Rightarrow> bool" for js p where
  keeps: "used p' = used p \<Longrightarrow> p_pos p' = p_pos p \<Longrightarrow> step_effect js p p'"
| opens: "used p' = bump (p_toksuper p) (used p) @ [node ty (p_pos p) (p_toksuper p)] \<Longrightarrow>
    ty \<in> {Object, Array} \<Longrightarrow> js ! p_pos p = opener ty \<Longrightarrow> p_pos p' = p_pos p \<Longrightarrow>
    step_effect js p p'"
| closes: "used p = us @ t # vs \<Longrightarrow> \<not> closed t \<Longrightarrow> \<forall>v \<in> set vs. closed v \<Longrightarrow>
    js ! p_pos p = closer (tok_type t) \<Longrightarrow>
    used p' = us @ t\<lparr>tok_end := i32 (p_pos p + 1)\<rparr> # vs \<Longrightarrow> p_pos p' = p_pos p \<Longrightarrow>
    step_effect js p p'"
| quotes: "used p' = bump (p_toksuper p) (used p) @ [leaf String (p_pos p + 1) e (p_toksuper p)] \<Longrightarrow>
    str_span js (p_pos p + 1) e \<Longrightarrow> p_pos p' = e \<Longrightarrow> step_effect js p p'"
| scalars: "used p' = bump (p_toksuper p) (used p) @ [leaf Primitive (p_pos p) e (p_toksuper p)] \<Longrightarrow>
    prim_span js (p_pos p) e \<Longrightarrow> p_pos p' = e - 1 \<Longrightarrow> step_effect js p p'"

definition step_good :: "string \<Rightarrow> Parser \<Rightarrow> (Status \<times> Parser) option \<Rightarrow> bool" where
  "step_good js p r \<longleftrightarrow>
     (\<exists>st p'. r = Some (st, p') \<and> length (p_tokens p') = length (p_tokens p) \<and>
        json_err st \<and> (is_ok st \<longrightarrow> safe p' \<and> step_effect js p p'))"

lemma step_effect_pos: "step_effect js p p' \<Longrightarrow> p_pos p < length js \<Longrightarrow> p_pos p' < length js"
  by (auto elim!: step_effect.cases simp: str_span_def prim_span_def)

lemma step_good_fail:
  "length (p_tokens p') = length (p_tokens p) \<Longrightarrow> c \<in> {json_NoMemory, json_Invalid, json_Partial} \<Longrightarrow>
   step_good js p (Some (Fail cat c m, p'))"
  by (auto simp: step_good_def) (simp_all add: Fail_def)

lemma bump_nth:
  "i < length us \<Longrightarrow> bump s us ! i =
    (us ! i)\<lparr>tok_size := tok_size (us ! i) + (if s \<noteq> -1 \<and> i = nat s then 1 else 0)\<rparr>"
  by (auto simp: bump_def nth_list_update)

lemma bump_fields:
  "map tok_parent (bump s us) = map tok_parent us" "map tok_type (bump s us) = map tok_type us"
  "map tok_start (bump s us) = map tok_start us" "map tok_end (bump s us) = map tok_end us"
  by (auto simp: list_eq_iff_nth_eq bump_nth)

lemma parents_bump:
  "\<forall>t \<in> set us. -1 \<le> tok_parent t \<and> tok_parent t < n \<Longrightarrow>
   n \<le> m \<Longrightarrow> \<forall>t \<in> set (bump s us). -1 \<le> tok_parent t \<and> tok_parent t < m"
proof -
  assume a: "\<forall>t \<in> set us. -1 \<le> tok_parent t \<and> tok_parent t < n" "n \<le> m"
  have "map tok_parent (bump s us) = map tok_parent us" by (rule bump_fields)
  then have "tok_parent ` set (bump s us) = tok_parent ` set us" by (metis list.set_map)
  moreover have "\<forall>x \<in> tok_parent ` set us. -1 \<le> x \<and> x < m" using a by auto
  ultimately show ?thesis by (metis imageI)
qed

lemma scalar_step_fail:
  "json_err (Inl e :: Status) \<Longrightarrow> step_good js p (scalar_step (Inl e, p\<lparr>p_pos := start\<rparr>))"
  by (simp add: scalar_step_def step_good_def)

lemma scalar_step_good:
  assumes "safe p" and tk: "p_tokens p = used p @ r # rest'"
    and par: "tok_parent t = p_toksuper p"
    and eff: "\<And>p'. used p' = bump (p_toksuper p) (used p) @ [t] \<Longrightarrow> p_pos p' = q \<Longrightarrow> step_effect js p p'"
  shows "step_good js p (scalar_step (Ok, p\<lparr>p_pos := q, p_tokens := used p @ t # rest',
    p_toknext := int (length (used p)) + 1\<rparr>))"
proof -
  let ?us = "used p"
  let ?p1 = "p\<lparr>p_pos := q, p_tokens := used p @ t # rest', p_toknext := int (length (used p)) + 1\<rparr>"
  let ?p' = "?p1\<lparr>p_tokens := (bump (p_toksuper p) ?us @ [t]) @ rest'\<rparr>"
  from safe_split [OF \<open>safe p\<close>] have s: "-1 \<le> p_toksuper p" "p_toksuper p < int (length ?us)"
    and pars: "\<forall>t \<in> set ?us. -1 \<le> tok_parent t \<and> tok_parent t < int (length ?us)" by metis+
  have "bump_size ?p1 = Some ?p'"
    using s by (subst bump_size_eq [where us = "?us @ [t]" and rest = rest'])
      (auto simp: bump_append)
  moreover have "safe ?p'"
    using s par parents_bump [OF pars, of "int (length ?us) + 1" "p_toksuper p"]
    by (intro safeI [where us = "bump (p_toksuper p) ?us @ [t]" and rest = rest']) fastforce+
  moreover have "step_effect js p ?p'"
    by (rule eff) (auto intro: usedI)
  ultimately show ?thesis
    using tk by (simp add: scalar_step_def step_good_def)
qed

lemma open_step_good:
  assumes "safe p" "ty \<in> {Object, Array}" "js ! p_pos p = opener ty"
  shows "step_good js p (open_step ty p)"
proof -
  from safe_split [OF \<open>safe p\<close>] obtain us rest where
    p: "p_tokens p = us @ rest" "p_toknext p = int (length us)" "used p = us"
    and s: "-1 \<le> p_toksuper p" "p_toksuper p < int (length us)"
    and pars: "\<forall>t \<in> set us. -1 \<le> tok_parent t \<and> tok_parent t < int (length us)" by metis
  show ?thesis
  proof (cases rest)
    case Nil
    with p show ?thesis by (simp add: open_step_full step_good_fail)
  next
    case (Cons r rest')
    let ?us = "bump (p_toksuper p) us @ [node ty (p_pos p) (p_toksuper p)]"
    let ?p' = "p\<lparr>p_tokens := bump (p_toksuper p) us @ node ty (p_pos p) (p_toksuper p) # rest',
                p_toknext := int (length us) + 1, p_toksuper := int (length us)\<rparr>"
    have us: "used ?p' = ?us" by (rule usedI [where rest = rest']) auto
    have "safe ?p'"
      using s parents_bump [OF pars, of "int (length us) + 1" "p_toksuper p"]
      by (intro safeI [where us = ?us and rest = rest']) (fastforce simp: node_def)+
    moreover have "step_effect js p ?p'"
      using p assms(2,3) us by (intro step_effect.opens [where ty = ty]) auto
    ultimately show ?thesis
      using open_step_eq [of p us r rest' ty] p s Cons by (simp add: step_good_def)
  qed
qed

lemma split_last_open:
  obtains "\<forall>t \<in> set us. closed t"
  | xs t vs where "us = xs @ t # vs" "\<not> closed t" "\<forall>v \<in> set vs. closed v"
  using split_list_last_prop [of us "\<lambda>t. \<not> closed t"] by blast

lemma close_loop_good:
  assumes "safe p" "js ! p_pos p = closer ty"
  shows "step_good js p (close_loop ty (nat (p_toknext p)) p)"
proof -
  from safe_split [OF \<open>safe p\<close>] obtain us rest where
    p: "p_tokens p = us @ rest" "p_toknext p = int (length us)" "used p = us"
    and s: "-1 \<le> p_toksuper p" "p_toksuper p < int (length us)"
    and pars: "\<forall>t \<in> set us. -1 \<le> tok_parent t \<and> tok_parent t < int (length us)" by metis
  show ?thesis
  proof (cases rule: split_last_open [of us])
    case 1
    with p show ?thesis by (simp add: close_loop_stray step_good_fail)
  next
    case (2 xs t vs)
    let ?p' = "p\<lparr>p_tokens := xs @ t\<lparr>tok_end := i32 (p_pos p + 1)\<rparr> # vs @ rest,
                p_toksuper := tok_parent t\<rparr>"
    have us: "used ?p' = xs @ t\<lparr>tok_end := i32 (p_pos p + 1)\<rparr> # vs"
      using p 2 by (intro usedI [where rest = rest]) auto
    have "safe ?p'"
      using pars 2 p
      by (intro safeI [where us = "xs @ t\<lparr>tok_end := i32 (p_pos p + 1)\<rparr> # vs" and rest = rest]) auto
    moreover have "step_effect js p ?p'" if "tok_type t = ty"
      using p(3) 2 assms(2) that us by (intro step_effect.closes [of p xs t vs]) auto
    moreover have "nat (p_toknext p) = length xs + 1 + length vs" using p 2 by simp
    ultimately show ?thesis
      using close_loop_eq [of p xs t vs rest ty] p 2
      by (auto simp: step_good_def) (simp_all add: Fail_def)
  qed
qed

lemma comma_step_good:
  assumes "safe p"
  shows "step_good js p (map_option (Pair Ok) (comma_step p))"
proof -
  from safe_split [OF \<open>safe p\<close>] obtain us rest where
    p: "p_tokens p = us @ rest" "p_toknext p = int (length us)" "used p = us"
    and s: "-1 \<le> p_toksuper p" "p_toksuper p < int (length us)"
    and pars: "\<forall>t \<in> set us. -1 \<le> tok_parent t \<and> tok_parent t < int (length us)" by metis
  show ?thesis
  proof (cases "p_toksuper p = -1")
    case True
    then show ?thesis
      using assms by (simp add: comma_step_def step_good_def step_effect.keeps)
  next
    case False
    let ?t = "us ! nat (p_toksuper p)"
    have get: "tok_get (p_tokens p) (p_toksuper p) = Some ?t"
      using p s False by (auto simp: tok_get_def nth_append)
    have "?t \<in> set us" using s False by simp
    with pars have "safe (p\<lparr>p_toksuper := tok_parent ?t\<rparr>)"
      using p by (intro safeI [where us = us and rest = rest]) auto
    then show ?thesis
      using assms False get by (auto simp: comma_step_def step_good_def used_def intro!: step_effect.keeps)
  qed
qed

lemma ParseString_good:
  assumes "safe p" "js ! p_pos p = CHR 0x22"
  shows "step_good js p (scalar_step (ParseString js p))"
proof -
  obtain st p1 where r: "ParseString js p = (st, p1)" by fastforce
  from safe_split [OF \<open>safe p\<close>] obtain rest where
    p: "p_tokens p = used p @ rest" "p_toknext p = int (length (used p))" by metis
  from ParseString_loop_result [of "p\<lparr>p_pos := p_pos p + 1\<rparr>" "used p" rest "p_pos p" js st p1]
    p assms(2) r
  have "(\<not> is_ok st \<and> json_err st \<and> p1 = p\<lparr>p_pos := p_pos p\<rparr>) \<or>
    (\<exists>e r rest'. st = Ok \<and> str_span js (p_pos p + 1) e \<and> rest = r # rest' \<and>
      p1 = p\<lparr>p_pos := e, p_tokens := used p @ leaf String (p_pos p + 1) e (p_toksuper p) # rest',
             p_toknext := int (length (used p)) + 1\<rparr>)"
    by (simp add: ParseString_def)
  then show ?thesis
  proof (elim disjE exE conjE)
    assume "\<not> is_ok st" "json_err st" "p1 = p\<lparr>p_pos := p_pos p\<rparr>"
    with r scalar_step_fail [of _ js p "p_pos p"] show ?thesis by (cases st) auto
  next
    fix e r' rest' assume "st = Ok" "str_span js (p_pos p + 1) e" "rest = r' # rest'"
      "p1 = p\<lparr>p_pos := e, p_tokens := used p @ leaf String (p_pos p + 1) e (p_toksuper p) # rest',
             p_toknext := int (length (used p)) + 1\<rparr>"
    with r p scalar_step_good [OF assms(1), of r' rest' "leaf String (p_pos p + 1) e (p_toksuper p)" "e" js]
    show ?thesis by (simp add: leaf_def step_effect.quotes)
  qed
qed

lemma ParsePrimitive_good:
  assumes "safe p" "\<not> is_delim (js ! p_pos p)" "p_pos p < length js"
  shows "step_good js p (scalar_step (ParsePrimitive js p))"
proof -
  obtain st p1 where r: "ParsePrimitive js p = (st, p1)" by fastforce
  from safe_split [OF \<open>safe p\<close>] obtain rest where
    p: "p_tokens p = used p @ rest" "p_toknext p = int (length (used p))" by metis
  have "\<forall>k. p_pos p \<le> k \<and> k < p_pos p \<longrightarrow> \<not> is_delim (js ! k) \<and> \<not> is_control (js ! k)"
    by (meson not_less)
  from ParsePrimitive_loop_result [OF p order_refl assms(3,2) this, of st p1] r
  have "(\<not> is_ok st \<and> json_err st \<and> p1 = p\<lparr>p_pos := p_pos p\<rparr>) \<or>
    (\<exists>e r rest'. st = Ok \<and> prim_span js (p_pos p) e \<and> rest = r # rest' \<and>
      p1 = p\<lparr>p_pos := e - 1, p_tokens := used p @ leaf Primitive (p_pos p) e (p_toksuper p) # rest',
             p_toknext := int (length (used p)) + 1\<rparr>)"
    by (simp add: ParsePrimitive_def)
  then show ?thesis
  proof (elim disjE exE conjE)
    assume "\<not> is_ok st" "json_err st" "p1 = p\<lparr>p_pos := p_pos p\<rparr>"
    with r scalar_step_fail [of _ js p "p_pos p"] show ?thesis by (cases st) auto
  next
    fix e r' rest' assume "st = Ok" "prim_span js (p_pos p) e" "rest = r' # rest'"
      "p1 = p\<lparr>p_pos := e - 1, p_tokens := used p @ leaf Primitive (p_pos p) e (p_toksuper p) # rest',
             p_toknext := int (length (used p)) + 1\<rparr>"
    with r p scalar_step_good [OF assms(1), of r' rest' "leaf Primitive (p_pos p) e (p_toksuper p)" "e - 1" js]
    show ?thesis by (simp add: leaf_def step_effect.scalars)
  qed
qed

lemma Parse_step_good:
  assumes "safe p" "p_pos p < length js"
  shows "step_good js p (Parse_step js p)"
proof -
  have "Parse_step js p = Parse_step js p" ..
  then show ?thesis
  proof (cases rule: Parse_step_cases)
    case (opens ty)
    with open_step_good [of p ty js] assms show ?thesis by (simp add: opener_def)
  next
    case (closes ty)
    with close_loop_good [of p js ty] assms show ?thesis by (simp add: closer_def)
  next
    case quote
    with ParseString_good assms show ?thesis by metis
  next
    case space
    with assms show ?thesis by (auto simp: step_good_def intro: step_effect.keeps)
  next
    case colon
    from assms(1) have "safe (p\<lparr>p_toksuper := p_toknext p - 1\<rparr>)"
      by (auto simp: safe_def used_def)
    with colon show ?thesis by (auto simp: step_good_def used_def intro!: step_effect.keeps)
  next
    case comma
    with comma_step_good assms show ?thesis by metis
  next
    case scalar
    with ParsePrimitive_good assms show ?thesis by metis
  qed
qed


subsection \<open>Well-formed documents\<close>

definition tok_ok :: "string \<Rightarrow> nat \<Rightarrow> Token \<Rightarrow> bool" where
  "tok_ok js pos t \<longleftrightarrow> 0 \<le> tok_start t \<and> tok_start t < int pos \<and>
     (case tok_type t of
        Undefined \<Rightarrow> False
      | String \<Rightarrow> str_span js (nat (tok_start t)) (nat (tok_end t)) \<and> tok_end t < int pos
      | Primitive \<Rightarrow> prim_span js (nat (tok_start t)) (nat (tok_end t)) \<and> tok_end t \<le> int pos
      | ty \<Rightarrow> js ! nat (tok_start t) = opener ty \<and>
          (tok_end t = -1 \<or> tok_start t < tok_end t \<and> tok_end t \<le> int pos \<and>
             js ! nat (tok_end t - 1) = closer ty))"

definition nest :: "Token \<Rightarrow> Token \<Rightarrow> bool" where
  "nest a b \<longleftrightarrow> tok_start a < tok_start b \<and>
     (tok_end a = -1 \<or> tok_end a \<le> tok_start b \<or> (0 \<le> tok_end b \<and> tok_end b \<le> tok_end a))"

definition children :: "Token list \<Rightarrow> nat \<Rightarrow> int" where
  "children us i = int (length (filter (\<lambda>t. tok_parent t = int i) us))"

definition doc_ok :: "string \<Rightarrow> nat \<Rightarrow> Token list \<Rightarrow> bool" where
  "doc_ok js pos us \<longleftrightarrow> (\<forall>t \<in> set us. tok_ok js pos t) \<and> sorted_wrt nest us \<and>
     (\<forall>i < length us. tok_parent (us ! i) < int i \<and> tok_size (us ! i) = children us i)"

lemma i32_small: "n < 2 ^ 31 \<Longrightarrow> i32 n = int n"
  by (simp add: i32_def signed_of_nat signed_take_bit_int_eq_self)

lemma tok_ok_mono: "tok_ok js pos t \<Longrightarrow> pos \<le> pos' \<Longrightarrow> tok_ok js pos' t"
  by (auto simp: tok_ok_def split: Type.splits)

lemma tok_ok_size [simp]: "tok_ok js pos (t\<lparr>tok_size := n\<rparr>) = tok_ok js pos t"
  by (simp add: tok_ok_def split: Type.splits)

lemma tok_ok_end: "tok_ok js pos t \<Longrightarrow> tok_end t = -1 \<or> 0 \<le> tok_end t \<and> tok_end t \<le> int pos"
  by (cases "tok_end t < 0") (auto simp: tok_ok_def str_span_def prim_span_def split: Type.splits)

lemma nest_size [simp]:
  "nest (a\<lparr>tok_size := n\<rparr>) b = nest a b" "nest a (b\<lparr>tok_size := n\<rparr>) = nest a b"
  by (simp_all add: nest_def)

lemma bump_nest: "sorted_wrt nest (bump s us) = sorted_wrt nest us"
  by (auto simp: sorted_wrt_iff_nth_less bump_nth)

lemma bump_ok: "(\<forall>t \<in> set (bump s us). tok_ok js pos t) = (\<forall>t \<in> set us. tok_ok js pos t)"
  by (simp add: all_set_conv_all_nth bump_nth)

lemma children_bump [simp]: "children (bump s us) i = children us i"
proof -
  have c: "children us i = int (length (filter (\<lambda>x. x = int i) (map tok_parent us)))" for us
    by (simp add: children_def filter_map o_def)
  show ?thesis unfolding c bump_fields ..
qed

lemma children_append [simp]: "children (us @ vs) i = children us i + children vs i"
  by (simp add: children_def)

lemma doc_ok_push:
  assumes "doc_ok js pos us" "-1 \<le> s" "s < int (length us)"
    "tok_ok js pos' t" "pos \<le> pos'" "int pos \<le> tok_start t" "tok_parent t = s" "tok_size t = 0"
  shows "doc_ok js pos' (bump s us @ [t])"
proof -
  have "nest u t" if "u \<in> set us" for u
    using assms(1,6) that tok_ok_end [of js pos u] by (fastforce simp: doc_ok_def nest_def tok_ok_def)
  then have "sorted_wrt nest (us @ [t])"
    using assms(1) by (simp add: sorted_wrt_append doc_ok_def)
  then have "sorted_wrt nest (bump s us @ [t])"
    using bump_nest [of s "us @ [t]"] assms(2,3) by (simp add: bump_append)
  moreover have "\<forall>t \<in> set (bump s us). tok_ok js pos' t"
    unfolding bump_ok using assms(1,5) by (auto simp: doc_ok_def intro: tok_ok_mono)
  moreover have "tok_parent ((bump s us @ [t]) ! i) < int i \<and>
      tok_size ((bump s us @ [t]) ! i) = children (bump s us @ [t]) i" if "i < Suc (length us)" for i
  proof (cases "i < length us")
    case True
    with assms show ?thesis
      by (auto simp: nth_append bump_nth doc_ok_def children_def [of "[t]"])
  next
    case False
    have "tok_parent u < int (length us)" if "u \<in> set us" for u
      using assms(1) that by (force simp: doc_ok_def in_set_conv_nth)
    then have "filter (\<lambda>u. tok_parent u = int (length us)) us = []"
      by (fastforce simp: filter_empty_conv)
    with False that assms show ?thesis
      by (simp add: nth_append less_Suc_eq) (simp add: children_def)
  qed
  ultimately show ?thesis using assms(4) by (simp add: doc_ok_def)
qed

lemma doc_ok_close:
  assumes "doc_ok js pos (xs @ t # vs)" "\<not> closed t" "\<forall>v \<in> set vs. closed v"
    "js ! pos = closer (tok_type t)" "pos < length js"
  shows "doc_ok js (pos + 1) (xs @ t\<lparr>tok_end := int (pos + 1)\<rparr> # vs)"
proof -
  let ?t = "t\<lparr>tok_end := int (pos + 1)\<rparr>"
  have ok: "\<forall>u \<in> set (xs @ t # vs). tok_ok js pos u" using assms(1) by (simp add: doc_ok_def)
  have t: "tok_ok js pos t" "tok_end t = -1" using ok assms(2) by (auto simp: closed_def)
  have "tok_ok js (pos + 1) ?t"
    using t assms(4) by (auto simp: tok_ok_def str_span_def prim_span_def split: Type.splits)
  moreover have "nest ?t v" if "v \<in> set vs" for v
  proof -
    have "tok_ok js pos v" using ok that by simp
    moreover have "tok_end v \<noteq> -1"
      using assms(3) that \<open>tok_ok js pos v\<close> by (auto simp: closed_def tok_ok_def)
    moreover have "tok_start t < tok_start v"
      using assms(1) that by (auto simp: doc_ok_def sorted_wrt_append nest_def)
    ultimately show ?thesis using tok_ok_end [of js pos v] by (auto simp: nest_def)
  qed
  moreover have "nest x ?t" if "x \<in> set xs" for x
    using assms(1) that t(2) by (auto simp: doc_ok_def sorted_wrt_append nest_def)
  ultimately have nest: "sorted_wrt nest (xs @ ?t # vs)"
    and toks: "\<forall>u \<in> set (xs @ ?t # vs). tok_ok js (pos + 1) u"
    using assms(1) ok by (auto simp: doc_ok_def sorted_wrt_append intro: tok_ok_mono)
  have ch: "children (xs @ ?t # vs) i = children (xs @ t # vs) i" for i
    by (simp add: children_def)
  have nth: "(xs @ ?t # vs) ! i =
      ((xs @ t # vs) ! i)\<lparr>tok_end := (if i = length xs then int (pos + 1)
                                 else tok_end ((xs @ t # vs) ! i))\<rparr>" for i
    by (simp add: nth_append nth_Cons')
  show ?thesis
    unfolding doc_ok_def ch nth using nest toks assms(1) by (simp add: doc_ok_def)
qed

lemma step_effect_ok:
  assumes "safe p" "step_effect js p p'" "doc_ok js (p_pos p) (used p)" "p_pos p < length js"
    "length js < 2 ^ 31"
  shows "doc_ok js (p_pos p' + 1) (used p')"
proof -
  from safe_split [OF \<open>safe p\<close>] have s: "-1 \<le> p_toksuper p" "p_toksuper p < int (length (used p))"
    by metis+
  have i32: "i32 n = int n" if "n \<le> length js" for n
    using that assms(5) by (intro i32_small) simp
  from assms(2) show ?thesis
  proof (cases rule: step_effect.cases)
    case keeps
    show ?thesis
      unfolding keeps using assms(3) by (auto simp: doc_ok_def intro: tok_ok_mono)
  next
    case (opens ty)
    have "tok_ok js (p_pos p + 1) (node ty (p_pos p) (p_toksuper p))"
      using opens assms(4) by (auto simp: tok_ok_def node_def i32)
    then show ?thesis
      unfolding opens(1,4) using s assms(4)
      by (intro doc_ok_push [OF assms(3)]) (auto simp: node_def i32)
  next
    case (closes us t vs)
    then show ?thesis
      using doc_ok_close [of js "p_pos p" us t vs] assms(3,4) by (simp add: i32)
  next
    case (quotes e)
    have "tok_ok js (e + 1) (leaf String (p_pos p + 1) e (p_toksuper p))"
      using quotes by (auto simp: tok_ok_def leaf_def i32 str_span_def nat_add_distrib)
    then show ?thesis
      unfolding quotes(1,3) using s assms(4) quotes
      by (intro doc_ok_push [OF assms(3)]) (auto simp: leaf_def i32 str_span_def)
  next
    case (scalars e)
    have "tok_ok js (e - 1 + 1) (leaf Primitive (p_pos p) e (p_toksuper p))"
      using scalars by (auto simp: tok_ok_def leaf_def i32 prim_span_def)
    then show ?thesis
      unfolding scalars(1,3) using s assms(4) scalars
      by (intro doc_ok_push [OF assms(3)]) (auto simp: leaf_def i32 prim_span_def)
  qed
qed

lemma Parse_loop_good:
  assumes "safe p" "p_pos p \<le> length js" "length js < 2 ^ 31 \<longrightarrow> doc_ok js (p_pos p) (used p)"
  shows "\<exists>st p'. Parse_loop js p = Some (st, p') \<and> length (p_tokens p') = length (p_tokens p) \<and>
    json_err st \<and>
    (is_ok st \<longrightarrow> safe p' \<and> (length js < 2 ^ 31 \<longrightarrow> doc_ok js (length js) (used p')))"
  using assms
proof (induction js p rule: Parse_loop.induct)
  case (1 js p)
  show ?case
  proof (cases "p_pos p < length js")
    case False
    with "1.prems" show ?thesis by (simp add: Parse_loop.simps [of js p])
  next
    case True
    from Parse_step_good [OF "1.prems"(1) True] obtain st p1 where
      step: "Parse_step js p = Some (st, p1)" and len: "length (p_tokens p1) = length (p_tokens p)"
      and err: "json_err st" and ok: "is_ok st \<Longrightarrow> safe p1 \<and> step_effect js p p1"
      by (auto simp: step_good_def)
    show ?thesis
    proof (cases st)
      case (Inl e)
      with True step len err show ?thesis by (simp add: Parse_loop.simps [of js p])
    next
      case (Inr u)
      let ?p2 = "p1\<lparr>p_pos := p_pos p1 + 1\<rparr>"
      have used: "used ?p2 = used p1" by (simp add: used_def)
      have safe: "safe ?p2" using ok Inr by (simp add: safe_def used_def)
      have "doc_ok js (p_pos ?p2) (used ?p2)" if "length js < 2 ^ 31"
        using step_effect_ok [OF "1.prems"(1) _ "1.prems"(3) [rule_format, OF that] True that, of p1]
          ok Inr used by simp
      moreover have "p_pos ?p2 \<le> length js" using ok Inr step_effect_pos True by force
      ultimately show ?thesis using "1.IH" [OF True step refl Inr safe] len
        by (simp add: Parse_loop.simps [of js p] True step Inr)
    qed
  qed
qed


lemma unclosed_loop_result:
  "n \<le> length ts \<Longrightarrow> unclosed_loop ts n =
    Some (if \<forall>t \<in> set (take n ts). closed t then Ok
          else Fail json_Category json_Partial ''unclosed container'')"
  by (induction n) (auto simp: tok_get_def closed_def take_Suc_conv_app_nth)

text \<open>The outcome of a parse, with the facts about the document it leaves behind.\<close>

lemma Parse_result:
  "\<exists>r ts. Parse js tokens = Some (r, ts) \<and> length ts = length tokens \<and> json_err r \<and>
     (\<forall>n. r = Inr n \<longrightarrow> n \<le> length tokens \<and> (\<forall>t \<in> set (take n ts). closed t) \<and>
        (length js < 2 ^ 31 \<longrightarrow> doc_ok js (length js) (take n ts)))"
proof -
  let ?p = "\<lparr>p_tokens = tokens, p_pos = 0, p_toknext = 0, p_toksuper = -1\<rparr>"
  have "safe ?p" "doc_ok js (p_pos ?p) (used ?p)" by (simp_all add: safe_def used_def doc_ok_def)
  then obtain st p where p: "Parse_loop js ?p = Some (st, p)" "length (p_tokens p) = length tokens"
    "json_err st" "is_ok st \<Longrightarrow> safe p \<and> (length js < 2 ^ 31 \<longrightarrow> doc_ok js (length js) (used p))"
    using Parse_loop_good [of ?p js] by auto
  show ?thesis
  proof (cases st)
    case (Inl e)
    with p show ?thesis by (simp add: Parse_def json_err_def)
  next
    case (Inr u)
    with p have s: "safe p" and d: "length js < 2 ^ 31 \<Longrightarrow> doc_ok js (length js) (used p)" by auto
    have n: "nat (p_toknext p) \<le> length (p_tokens p)" using s by (simp add: safe_def)
    show ?thesis
      using p Inr n d by (auto simp: Parse_def unclosed_loop_result Fail_def used_def json_err_def)
  qed
qed


subsection \<open>Properties\<close>


text \<open>
  C24: the tokens of an accepted document (below 2 GiB) are well formed: each one lies inside the
  source and is delimited by its quotes, its brackets or a delimiter; of two tokens the later
  starts later and either lies inside the earlier or begins after its end; a parent precedes its
  children and its \<open>size\<close> is their number.
\<close>

theorem Parse_well_formed:
  assumes "Parse js tokens = Some (Inr n, ts)" and "length js < 2 ^ 31"
  shows "(\<forall>t \<in> set (take n ts). tok_ok js (length js) t) \<and>
    (\<forall>j < n. \<forall>i < j. nest (ts ! i) (ts ! j)) \<and>
    (\<forall>i < n. tok_parent (ts ! i) < int i \<and> tok_size (ts ! i) = children (take n ts) i)"
proof -
  from Parse_result [of js tokens] assms have "n \<le> length ts" "doc_ok js (length js) (take n ts)"
    by auto
  then show ?thesis by (auto simp: doc_ok_def sorted_wrt_iff_nth_less)
qed

theorem Parse_well_formed_witness:
  "\<exists>ts. Parse ''[7]'' (replicate 2 Token_init) = Some (Inr 2, ts) \<and> nest (ts ! 0) (ts ! 1) \<and>
     tok_size (ts ! 0) = 1"
proof -
  let ?ts = "[\<lparr>tok_type = Array, tok_start = 0, tok_end = 3, tok_size = 1, tok_parent = -1\<rparr>,
      \<lparr>tok_type = Primitive, tok_start = 1, tok_end = 2, tok_size = 0, tok_parent = 0\<rparr>]"
  have p: "Parse ''[7]'' (replicate 2 Token_init) = Some (Inr 2, ?ts)"
    by code_simp
  have l: "length ''[7]'' < (2::nat) ^ 31" by simp
  from Parse_well_formed [OF p l] have "\<forall>j < 2. \<forall>i < j. nest (?ts ! i) (?ts ! j)" by blast
  then have "nest (?ts ! 0) (?ts ! 1)" by (rule allE [of _ 1]) simp
  with p show ?thesis by (intro exI [of _ ?ts]) simp
qed

end
