(* ===== verification/JsonView.thy ===== *)
theory JsonView
  imports Json
begin

section \<open>JsonView: the cursor over a parsed document\<close>

text \<open>
  The class \<open>Json\<close> of \<open>include/etlx/json/json.hpp\<close> and its methods in \<open>src/json/json.cpp\<close>. A
  view holds the source, the tokens and an index; a view whose index is out of range is the
  invalid one every failed lookup answers. \<open>AsInt\<close> accumulates in an \<open>int64_t\<close>: an overflow has no
  defined result in the source and is \<open>None\<close> here.
\<close>

subsection \<open>Operations\<close>

record Json =
  j_src :: string
  j_tokens :: "Token list"
  j_index :: int

definition Json_none :: Json where
  "Json_none = \<lparr>j_src = [], j_tokens = [], j_index = -1\<rparr>"

definition Json_valid :: "Json \<Rightarrow> bool" where
  "Json_valid j = (0 \<le> j_index j \<and> j_index j < i32 (length (j_tokens j)))"

definition Json_type :: "Json \<Rightarrow> Type" where
  "Json_type j = (if Json_valid j then tok_type (j_tokens j ! nat (j_index j)) else Undefined)"

definition is_object :: "Json \<Rightarrow> bool" where
  "is_object j = (Json_type j = Object)"

definition is_array :: "Json \<Rightarrow> bool" where
  "is_array j = (Json_type j = Array)"

definition is_string :: "Json \<Rightarrow> bool" where
  "is_string j = (Json_type j = String)"

definition Json_raw :: "Json \<Rightarrow> string" where
  "Json_raw j =
     (if \<not> Json_valid j then []
      else let t = j_tokens j ! nat (j_index j) in
        if tok_start t < 0 \<or> tok_end t < 0 \<or> tok_end t < tok_start t then []
        else sv_substr (j_src j) (nat (tok_start t)) (nat (tok_end t - tok_start t)))"

definition AsString :: "Json \<Rightarrow> string" where
  "AsString j = Json_raw j"

definition is_null :: "Json \<Rightarrow> bool" where
  "is_null j = (Json_type j = Primitive \<and> Json_raw j = ''null'')"

definition Json_size :: "Json \<Rightarrow> nat" where
  "Json_size j =
     (if \<not> Json_valid j then 0
      else let t = j_tokens j ! nat (j_index j) in
        if tok_type t = Object \<or> tok_type t = Array then nat (tok_size t) else 0)"

function key_loop :: "Json \<Rightarrow> string \<Rightarrow> int \<Rightarrow> Json" where
  "key_loop j key i =
     (if i < i32 (length (j_tokens j)) then
        (let t = j_tokens j ! nat i in
         if tok_parent t = j_index j \<and> tok_type t = String \<and> Json_raw (j\<lparr>j_index := i\<rparr>) = key
         then j\<lparr>j_index := i + 1\<rparr>
         else key_loop j key (i + 1))
      else Json_none)"
  by pat_completeness auto
termination
  by (relation "measure (\<lambda>(j, key, i). nat (i32 (length (j_tokens j)) - i))") auto

definition Json_key :: "Json \<Rightarrow> string \<Rightarrow> Json" where
  "Json_key j key = (if \<not> is_object j then Json_none else key_loop j key (j_index j + 1))"

function elem_loop :: "Json \<Rightarrow> nat \<Rightarrow> nat \<Rightarrow> int \<Rightarrow> Json" where
  "elem_loop j n seen i =
     (if i < i32 (length (j_tokens j)) then
        if tok_parent (j_tokens j ! nat i) = j_index j then
          if seen = n then j\<lparr>j_index := i\<rparr> else elem_loop j n (seen + 1) (i + 1)
        else elem_loop j n seen (i + 1)
      else Json_none)"
  by pat_completeness auto
termination
  by (relation "measure (\<lambda>(j, n, seen, i). nat (i32 (length (j_tokens j)) - i))") auto

definition Json_elem :: "Json \<Rightarrow> nat \<Rightarrow> Json" where
  "Json_elem j n = (if \<not> is_array j then Json_none else elem_loop j n 0 (j_index j + 1))"

definition digit_val :: "char \<Rightarrow> int" where
  "digit_val c = of_char c - 48"

definition is_digit :: "char \<Rightarrow> bool" where
  "is_digit c = (48 \<le> (of_char c :: nat) \<and> (of_char c :: nat) \<le> 57)"

fun AsInt_loop :: "string \<Rightarrow> int \<Rightarrow> int Result option" where
  "AsInt_loop [] v = Some (Inr v)"
| "AsInt_loop (c # s) v =
     (if \<not> is_digit c then Some (Fail json_Category json_WrongType ''not an integer'')
      else if \<not> in_int64 (v * 10) \<or> \<not> in_int64 (v * 10 + digit_val c) then None
      else AsInt_loop s (v * 10 + digit_val c))"

definition AsInt :: "Json \<Rightarrow> int Result option" where
  "AsInt j =
     (if Json_type j \<noteq> Primitive
      then Some (Fail json_Category json_WrongType ''not a primitive'')
      else let s = Json_raw j in
        if s = [] then Some (Fail json_Category json_Invalid ''empty number'')
        else let neg = (s ! 0 = CHR ''-''); i = (if neg then 1 else 0) in
          if i \<ge> length s then Some (Fail json_Category json_Invalid ''bad number'')
          else map_option (map_sum id (\<lambda>v. if neg then - v else v)) (AsInt_loop (drop i s) 0))"

definition AsBool :: "Json \<Rightarrow> bool Result" where
  "AsBool j =
     (if Json_type j \<noteq> Primitive then Fail json_Category json_WrongType ''not a primitive''
      else let s = Json_raw j in
        if s = ''true'' then Inr True
        else if s = ''false'' then Inr False
        else Fail json_Category json_WrongType ''not a boolean'')"

definition ParseToView :: "string \<Rightarrow> Token list \<Rightarrow> (Json Result \<times> Token list) option" where
  "ParseToView js tokens =
     (case Parse js tokens of
        None \<Rightarrow> None
      | Some (Inl e, ts) \<Rightarrow> Some (Inl e, ts)
      | Some (Inr n, ts) \<Rightarrow>
          if n = 0 then Some (Fail json_Category json_Invalid ''empty document'', ts)
          else Some (Inr \<lparr>j_src = js, j_tokens = take n ts, j_index = 0\<rparr>, ts))"

declare key_loop.simps [simp del] elem_loop.simps [simp del]

subsection \<open>Integers\<close>

text \<open>The value of a digit string.\<close>

definition dec_val :: "string \<Rightarrow> int" where
  "dec_val s = foldl (\<lambda>v c. v * 10 + digit_val c) 0 s"

lemma digit_val_range: "is_digit c \<Longrightarrow> 0 \<le> digit_val c \<and> digit_val c \<le> 9"
proof -
  assume "is_digit c"
  then have "48 \<le> int (of_char c)" "int (of_char c) \<le> 57" unfolding is_digit_def by linarith+
  then show ?thesis unfolding of_nat_of_char digit_val_def by simp
qed

lemma foldl_dec_mono:
  "list_all is_digit s \<Longrightarrow> 0 \<le> v \<Longrightarrow> v \<le> foldl (\<lambda>v c. v * 10 + digit_val c) v s"
proof (induction s arbitrary: v)
  case (Cons c s)
  then have "v \<le> v * 10 + digit_val c" "0 \<le> v * 10 + digit_val c"
    using digit_val_range [of c] by auto
  with Cons.IH [of "v * 10 + digit_val c"] Cons.prems(1) show ?case by simp
qed simp

text \<open>What the accumulating loop computes: the value, an error, or no defined result.\<close>

lemma AsInt_loop_digits:
  "list_all is_digit s \<Longrightarrow> 0 \<le> v \<Longrightarrow> v < 2 ^ 63 \<Longrightarrow>
   AsInt_loop s v =
     (let r = foldl (\<lambda>v c. v * 10 + digit_val c) v s in if r < 2 ^ 63 then Some (Inr r) else None)"
proof (induction s arbitrary: v)
  case Nil
  then show ?case by simp
next
  case (Cons c s)
  let ?w = "v * 10 + digit_val c"
  have d: "is_digit c" "list_all is_digit s" "0 \<le> ?w" "v * 10 \<le> ?w"
    using Cons.prems digit_val_range [of c] by auto
  show ?case
  proof (cases "?w < 2 ^ 63")
    case True
    with d Cons.prems Cons.IH [OF d(2,3) True] show ?thesis by (simp add: in_int64_def)
  next
    case False
    with foldl_dec_mono [OF d(2,3)] d show ?thesis by (simp add: in_int64_def Let_def)
  qed
qed

lemma AsInt_loop_ok_digits: "AsInt_loop s v = Some (Inr r) \<Longrightarrow> list_all is_digit s"
  by (induction s arbitrary: v) (auto split: if_splits)

lemma AsInt_loop_iff:
  "AsInt_loop s 0 = Some (Inr r) \<longleftrightarrow> list_all is_digit s \<and> dec_val s = r \<and> r < 2 ^ 63"
  using AsInt_loop_digits [of s 0] AsInt_loop_ok_digits [of s 0 r]
  by (auto simp: dec_val_def Let_def split: if_splits)

lemma not_minus_digit: "is_digit c \<Longrightarrow> c \<noteq> CHR ''-''"
  by (auto simp: is_digit_def)

subsection \<open>Properties\<close>

text \<open>
  \<open>AsInt\<close> answers an integer exactly for a primitive token whose text is an optional minus
  sign and one or more digits, and then it answers the value written, with no wrap-around.
\<close>

theorem AsInt_exact:
  "AsInt j = Some (Inr n) \<longleftrightarrow> Json_type j = Primitive \<and>
     (\<exists>ds. ds \<noteq> [] \<and> list_all is_digit ds \<and> dec_val ds < 2 ^ 63 \<and>
        (Json_raw j = ds \<and> n = dec_val ds \<or> Json_raw j = CHR ''-'' # ds \<and> n = - dec_val ds))"
proof (cases "Json_type j = Primitive")
  case False
  then show ?thesis by (simp add: AsInt_def)
next
  case prim: True
  show ?thesis
  proof (cases "Json_raw j")
    case Nil
    with prim show ?thesis by (simp add: AsInt_def)
  next
    case (Cons c s)
    show ?thesis
    proof (cases "c = CHR ''-''")
      case True
      have "AsInt j = (if s = [] then Some (Fail json_Category json_Invalid ''bad number'')
          else map_option (map_sum id uminus) (AsInt_loop s 0))"
        using prim Cons True by (simp add: AsInt_def)
      moreover have "map_option (map_sum id uminus) r = Some (Inr n) \<longleftrightarrow> r = Some (Inr (- n))"
        for r :: "(Error + int) option"
        by (cases r; cases "the r") auto
      ultimately have "AsInt j = Some (Inr n) \<longleftrightarrow>
          s \<noteq> [] \<and> list_all is_digit s \<and> dec_val s = - n \<and> - n < 2 ^ 63"
        using AsInt_loop_iff [of s "- n"] by simp
      then show ?thesis
        using prim Cons True not_minus_digit by fastforce
    next
      case False
      have "AsInt j = map_option (map_sum id (\<lambda>v. v)) (AsInt_loop (c # s) 0)"
        using prim Cons False by (simp add: AsInt_def del: AsInt_loop.simps)
      moreover have "map_option (map_sum id (\<lambda>v. v)) r = Some (Inr n) \<longleftrightarrow> r = Some (Inr n)"
        for r :: "(Error + int) option"
        by (cases r; cases "the r") auto
      ultimately have "AsInt j = Some (Inr n) \<longleftrightarrow>
          list_all is_digit (c # s) \<and> dec_val (c # s) = n \<and> n < 2 ^ 63"
        using AsInt_loop_iff [of "c # s" n] by simp
      then show ?thesis using prim Cons False by auto
    qed
  qed
qed

text \<open>
  A digit string of a value that no \<open>int64_t\<close> holds drives the accumulator out of range: the
  source then has no defined result, also for the least \<open>int64_t\<close>, whose negation is formed last.
\<close>

theorem AsInt_overflow:
  assumes "Json_type j = Primitive" and "Json_raw j = ds \<or> Json_raw j = CHR ''-'' # ds"
    and "ds \<noteq> []" and "list_all is_digit ds" and "2 ^ 63 \<le> dec_val ds"
  shows "AsInt j = None"
proof -
  have none: "AsInt_loop ds 0 = None"
    using AsInt_loop_digits [of ds 0] assms(4,5) by (simp add: dec_val_def)
  have "ds ! 0 \<noteq> CHR ''-''"
    using assms(3,4) not_minus_digit by (cases ds) auto
  with none assms(1,2,3) show ?thesis
    by (auto simp: AsInt_def Let_def Suc_le_eq)
qed

theorem AsInt_overflow_witness:
  "AsInt \<lparr>j_src = ''-9223372036854775808 '',
     j_tokens = [\<lparr>tok_type = Primitive, tok_start = 0, tok_end = 20, tok_size = 0, tok_parent = -1\<rparr>],
     j_index = 0\<rparr> = None"
  by (rule AsInt_overflow [where ds = "''9223372036854775808''"]) code_simp+

end
