(* ===== verification/JsonDoc.thy ===== *)
theory JsonDoc
  imports JsonView
begin

section \<open>JsonDoc: documents, their tokens and their views\<close>

text \<open>
  The specification of the reader: a JSON value, the text it is written as, and the tokens that
  text has. The tokeniser computes those tokens, and a view over them answers every lookup as the
  value does.
\<close>

subsection \<open>Values and their text\<close>

datatype jval =
    JPrim string
  | JStr string
  | JArr "jval list"
  | JObj "(string \<times> jval) list"

fun render :: "jval \<Rightarrow> string"
  and render_elems :: "jval list \<Rightarrow> string"
  and render_members :: "(string \<times> jval) list \<Rightarrow> string" where
  "render (JPrim s) = s"
| "render (JStr s) = CHR 0x22 # s @ [CHR 0x22]"
| "render (JArr vs) = CHR ''['' # render_elems vs @ [CHR '']'']"
| "render (JObj ms) = CHR ''{'' # render_members ms @ [CHR ''}'']"
| "render_elems [] = []"
| "render_elems (v # vs) = render v @ (if vs = [] then [] else CHR '','' # render_elems vs)"
| "render_members [] = []"
| "render_members ((k, v) # ms) =
     CHR 0x22 # k @ [CHR 0x22, CHR '':''] @ render v @
     (if ms = [] then [] else CHR '','' # render_members ms)"

text \<open>The body of a string: plain characters and complete escapes.\<close>

definition simple_escape :: "char \<Rightarrow> bool" where
  "simple_escape c \<longleftrightarrow>
     c \<in> set [CHR 0x22, CHR ''/'', CHR 0x5C, CHR ''b'', CHR ''f'', CHR ''r'', CHR ''n'', CHR ''t'']"

fun str_body :: "string \<Rightarrow> bool" where
  "str_body [] = True"
| "str_body (c # s) =
     (if c = CHR 0x22 then False
      else if c = CHR 0x5C then
        (case s of
           [] \<Rightarrow> False
         | d # s' \<Rightarrow>
             if simple_escape d then str_body s'
             else d = CHR ''u'' \<and> 4 \<le> length s' \<and> list_all IsHex (take 4 s') \<and> str_body (drop 4 s'))
      else str_body s)"

definition prim_body :: "string \<Rightarrow> bool" where
  "prim_body s \<longleftrightarrow> s \<noteq> [] \<and> list_all (\<lambda>c. \<not> is_delim c \<and> \<not> is_control c) s \<and>
     hd s \<notin> {CHR 0x22, CHR ''{'', CHR ''[''}"

fun wf_val :: "jval \<Rightarrow> bool"
  and wf_elems :: "jval list \<Rightarrow> bool"
  and wf_members :: "(string \<times> jval) list \<Rightarrow> bool" where
  "wf_val (JPrim s) = prim_body s"
| "wf_val (JStr s) = str_body s"
| "wf_val (JArr vs) = wf_elems vs"
| "wf_val (JObj ms) = wf_members ms"
| "wf_elems [] = True"
| "wf_elems (v # vs) = (wf_val v \<and> wf_elems vs)"
| "wf_members [] = True"
| "wf_members ((k, v) # ms) = (str_body k \<and> wf_val v \<and> wf_members ms)"

subsection \<open>The tokens of a value\<close>

fun ntoks :: "jval \<Rightarrow> nat"
  and ntoks_elems :: "jval list \<Rightarrow> nat"
  and ntoks_members :: "(string \<times> jval) list \<Rightarrow> nat" where
  "ntoks (JPrim s) = 1"
| "ntoks (JStr s) = 1"
| "ntoks (JArr vs) = 1 + ntoks_elems vs"
| "ntoks (JObj ms) = 1 + ntoks_members ms"
| "ntoks_elems [] = 0"
| "ntoks_elems (v # vs) = ntoks v + ntoks_elems vs"
| "ntoks_members [] = 0"
| "ntoks_members ((k, v) # ms) = 1 + ntoks v + ntoks_members ms"

definition mk_tok :: "Type \<Rightarrow> nat \<Rightarrow> nat \<Rightarrow> nat \<Rightarrow> int \<Rightarrow> Token" where
  "mk_tok ty s e n par =
     \<lparr>tok_type = ty, tok_start = int s, tok_end = int e, tok_size = int n, tok_parent = par\<rparr>"

text \<open>\<open>toks v pos n par\<close>: written at \<open>pos\<close>, first token at index \<open>n\<close>, parent \<open>par\<close>.\<close>

fun toks :: "jval \<Rightarrow> nat \<Rightarrow> nat \<Rightarrow> int \<Rightarrow> Token list"
  and toks_elems :: "jval list \<Rightarrow> nat \<Rightarrow> nat \<Rightarrow> int \<Rightarrow> Token list"
  and toks_members :: "(string \<times> jval) list \<Rightarrow> nat \<Rightarrow> nat \<Rightarrow> int \<Rightarrow> Token list" where
  "toks (JPrim s) pos n par = [mk_tok Primitive pos (pos + length s) 0 par]"
| "toks (JStr s) pos n par = [mk_tok String (pos + 1) (pos + 1 + length s) 0 par]"
| "toks (JArr vs) pos n par =
     mk_tok Array pos (pos + length (render (JArr vs))) (length vs) par #
     toks_elems vs (pos + 1) (n + 1) (int n)"
| "toks (JObj ms) pos n par =
     mk_tok Object pos (pos + length (render (JObj ms))) (length ms) par #
     toks_members ms (pos + 1) (n + 1) (int n)"
| "toks_elems [] pos n par = []"
| "toks_elems (v # vs) pos n par =
     toks v pos n par @ toks_elems vs (pos + length (render v) + 1) (n + ntoks v) par"
| "toks_members [] pos n par = []"
| "toks_members ((k, v) # ms) pos n par =
     mk_tok String (pos + 1) (pos + 1 + length k) 1 par #
     toks v (pos + length k + 3) (n + 1) (int n) @
     toks_members ms (pos + length k + 3 + length (render v) + 1) (n + 1 + ntoks v) par"

lemma length_toks [simp]:
  "length (toks v pos n par) = ntoks v"
  "length (toks_elems vs pos n par) = ntoks_elems vs"
  "length (toks_members ms pos n par) = ntoks_members ms"
  by (induction v pos n par and vs pos n par and ms pos n par
      rule: toks_toks_elems_toks_members.induct) auto

lemma toks_closed:
  "t \<in> set (toks v pos n par) \<Longrightarrow> closed t"
  "t \<in> set (toks_elems vs pos n par) \<Longrightarrow> closed t"
  "t \<in> set (toks_members ms pos n par) \<Longrightarrow> closed t"
  by (induction v pos n par and vs pos n par and ms pos n par
      rule: toks_toks_elems_toks_members.induct) (auto simp: closed_def mk_tok_def)

subsection \<open>Running the tokeniser forward\<close>

definition run :: "string \<Rightarrow> Token list \<Rightarrow> Token list \<Rightarrow> nat \<Rightarrow> int \<Rightarrow> (Status \<times> Parser) option" where
  "run js us rest pos s = Parse_loop js
     \<lparr>p_tokens = us @ rest, p_pos = pos, p_toknext = int (length us), p_toksuper = s\<rparr>"

lemma run_step:
  assumes "pos < length js"
    "Parse_step js \<lparr>p_tokens = us @ rest, p_pos = pos, p_toknext = int (length us), p_toksuper = s\<rparr> =
     Some (Ok, \<lparr>p_tokens = us' @ rest', p_pos = pos', p_toknext = int (length us'), p_toksuper = s'\<rparr>)"
  shows "run js us rest pos s = run js us' rest' (pos' + 1) s'"
  using assms by (simp add: run_def Parse_loop.simps [of js "\<lparr>p_tokens = us @ rest, p_pos = pos,
    p_toknext = int (length us), p_toksuper = s\<rparr>"])

lemma run_open:
  assumes "pos < length js" "js ! pos = opener ty" "ty \<in> {Object, Array}" "-1 \<le> s" "s < int (length us)"
  shows "run js us (r # rest) pos s =
    run js (bump s us @ [node ty pos s]) rest (pos + 1) (int (length us))"
  using assms
  by (intro run_step) (auto simp: Parse_step_def opener_def open_step_eq [of _ us r rest])

lemma run_close:
  assumes "pos < length js" "js ! pos = closer ty" "ty \<in> {Object, Array}"
    "tok_type t = ty" "\<not> closed t" "\<forall>v \<in> set vs. closed v"
  shows "run js (xs @ t # vs) rest pos s =
    run js (xs @ t\<lparr>tok_end := i32 (pos + 1)\<rparr> # vs) rest (pos + 1) (tok_parent t)"
proof -
  let ?p = "\<lparr>p_tokens = (xs @ t # vs) @ rest, p_pos = pos, p_toknext = int (length (xs @ t # vs)),
    p_toksuper = s\<rparr>"
  have n: "nat (p_toknext ?p) = length xs + 1 + length vs" by simp
  from close_loop_eq [of ?p xs t vs rest ty] assms(4,5,6)
  have "close_loop ty (nat (p_toknext ?p)) ?p =
      Some (Ok, ?p\<lparr>p_tokens := xs @ t\<lparr>tok_end := i32 (pos + 1)\<rparr> # vs @ rest, p_toksuper := tok_parent t\<rparr>)"
    unfolding n by simp
  then show ?thesis
    using assms(1,2,3) by (intro run_step) (auto simp: Parse_step_def closer_def)
qed

lemma run_colon:
  assumes "pos < length js" "js ! pos = CHR '':''"
  shows "run js us rest pos s = run js us rest (pos + 1) (int (length us) - 1)"
  using assms by (intro run_step) (auto simp: Parse_step_def is_space_def)

lemma run_comma:
  assumes "pos < length js" "js ! pos = CHR '',''" "0 \<le> s" "s < int (length us)"
  shows "run js us rest pos s = run js us rest (pos + 1)
    (if tok_type (us ! nat s) \<in> {Object, Array} then s else tok_parent (us ! nat s))"
  using assms
  by (intro run_step)
    (auto simp: Parse_step_def is_space_def comma_step_def tok_get_def nth_append)

lemma scalar_forward:
  assumes "-1 \<le> s" "s < int (length us)"
  shows "scalar_step (Ok, \<lparr>p_tokens = us @ t # rest, p_pos = q,
      p_toknext = int (length us) + 1, p_toksuper = s\<rparr>) =
    Some (Ok, \<lparr>p_tokens = (bump s us @ [t]) @ rest, p_pos = q,
      p_toknext = int (length (bump s us @ [t])), p_toksuper = s\<rparr>)"
  using assms bump_size_eq [of "\<lparr>p_tokens = us @ t # rest, p_pos = q,
      p_toknext = int (length us) + 1, p_toksuper = s\<rparr>" us "t # rest"]
  by (simp add: scalar_step_def)

lemma ParsePrimitive_forward:
  assumes "prim_span js start e" "start \<le> p_pos p" "p_pos p \<le> e"
    "p_tokens p = us @ r # rest" "p_toknext p = int (length us)"
  shows "ParsePrimitive_loop start js p = (Ok, p\<lparr>p_tokens := us @ leaf Primitive start e (p_toksuper p) # rest,
    p_pos := e - 1, p_toknext := int (length us) + 1\<rparr>)"
  using assms
proof (induction start js p rule: ParsePrimitive_loop.induct)
  case (1 start js p)
  show ?case
  proof (cases "p_pos p = e")
    case True
    with "1.prems" fill_token_eq [of p us r rest Primitive start] show ?thesis
      by (simp add: ParsePrimitive_loop.simps [of start js p] prim_span_def Let_def)
  next
    case False
    with "1.prems" have lt: "p_pos p < e" "p_pos p < length js" "\<not> is_delim (js ! p_pos p)"
        "\<not> is_control (js ! p_pos p)"
      by (auto simp: prim_span_def)
    from "1.IH" [OF lt(2) refl lt(3,4)] "1.prems" lt show ?thesis
      by (simp add: ParsePrimitive_loop.simps [of start js p] Let_def)
  qed
qed

lemma hex_forward:
  "list_all IsHex (take n (drop (pos + 1) js)) \<Longrightarrow> pos + n < length js \<Longrightarrow>
   hex_loop n js pos = Inr (pos + n)"
proof (induction n arbitrary: pos)
  case (Suc n)
  have "drop (pos + 1) js = js ! (pos + 1) # drop (pos + 1 + 1) js"
    using Suc.prems(2) Cons_nth_drop_Suc [of "pos + 1" js] by simp
  with Suc.prems Suc.IH [of "pos + 1"] show ?case by simp
qed simp


lemma drop_Cons_nth: "drop pos js = c # cs \<Longrightarrow> pos < length js \<and> js ! pos = c \<and> drop (pos + 1) js = cs"
  by (metis Cons_nth_drop_Suc Suc_eq_plus1 drop_eq_Nil linorder_not_less list.discI list.inject)

lemma drop_append_drop: "drop pos js = xs @ ys \<Longrightarrow> drop (pos + length xs) js = ys"
  by (metis add.commute append_eq_conv_conj drop_drop)

lemma ParseString_forward:
  assumes "str_body s" "drop (p_pos p) js = s @ CHR 0x22 # post"
    "p_tokens p = us @ r # rest" "p_toknext p = int (length us)"
  shows "ParseString_loop start js p = (Ok, p\<lparr>
    p_tokens := us @ leaf String (start + 1) (p_pos p + length s) (p_toksuper p) # rest,
    p_pos := p_pos p + length s, p_toknext := int (length us) + 1\<rparr>)"
  using assms
proof (induction s arbitrary: p rule: str_body.induct)
  case 1
  then have "p_pos p < length js" "js ! p_pos p = CHR 0x22" using drop_Cons_nth [of "p_pos p" js] by auto
  with 1 fill_token_eq [of p us r rest String "start + 1"] show ?case
    by (simp add: ParseString_loop.simps [of start js p] Let_def)
next
  case (2 c s)
  have at: "p_pos p < length js" "js ! p_pos p = c" "drop (p_pos p + 1) js = s @ CHR 0x22 # post"
    using 2 drop_Cons_nth [of "p_pos p" js] by auto
  have step: "ParseString_loop start js p = ParseString_loop start js (p\<lparr>p_pos := q\<rparr>) \<Longrightarrow>
      q = p_pos p + length (c # s) - length s' \<Longrightarrow> length s' \<le> length s \<Longrightarrow>
      (\<And>p'. p' = p\<lparr>p_pos := q\<rparr> \<Longrightarrow> ParseString_loop start js p' = (Ok, p'\<lparr>
        p_tokens := us @ leaf String (start + 1) (p_pos p' + length s') (p_toksuper p') # rest,
        p_pos := p_pos p' + length s', p_toknext := int (length us) + 1\<rparr>)) \<Longrightarrow> ?case" for q s'
    by simp
  show ?case
  proof (cases "c = CHR 0x5C")
    case False
    with "2.prems" have c: "c \<noteq> CHR 0x22" "str_body s" by (auto split: if_splits)
    have "ParseString_loop start js p = ParseString_loop start js (p\<lparr>p_pos := p_pos p + 1\<rparr>)"
      using at c False by (simp add: ParseString_loop.simps [of start js p] Let_def)
    then show ?thesis
      by (rule step [where s' = s])
        (use "2.IH"(3) [OF c(1) False c(2)] at "2.prems" in auto)
  next
    case True
    with "2.prems" obtain d s' where s: "s = d # s'" by (auto split: list.splits)
    have at1: "p_pos p + 1 < length js" "js ! (p_pos p + 1) = d"
      "drop (p_pos p + 2) js = s' @ CHR 0x22 # post"
      using at(3) s drop_Cons_nth [of "p_pos p + 1" js] by auto
    show ?thesis
    proof (cases "simple_escape d")
      case simp: True
      have b: "str_body s'" using "2.prems"(1) True s simp by simp
      have "escape js (p_pos p + 1) = Inr (p_pos p + 1)"
        using simp at1 by (simp add: escape_def simple_escape_def Let_def)
      then have "ParseString_loop start js p = ParseString_loop start js (p\<lparr>p_pos := p_pos p + 2\<rparr>)"
        using at at1 True by (simp add: ParseString_loop.simps [of start js p] Let_def)
      then show ?thesis
        by (rule step [where s' = s'])
          (use "2.IH"(1) [OF _ True s simp b] at1 s True "2.prems" in auto)
    next
      case False
      with "2.prems"(1) True s have u: "d = CHR ''u''" "4 \<le> length s'"
        "list_all IsHex (take 4 s')" "str_body (drop 4 s')" by auto
      have len: "p_pos p + 2 + length s' < length js"
        using arg_cong [OF at1(3), of length] by simp
      have "hex_loop 4 js (p_pos p + 1) = Inr (p_pos p + 1 + 4)"
        using u len at1(3) by (intro hex_forward) auto
      then have "escape js (p_pos p + 1) = Inr (p_pos p + 5)"
        using False at1 u by (simp add: escape_def simple_escape_def Let_def)
      then have "ParseString_loop start js p = ParseString_loop start js (p\<lparr>p_pos := p_pos p + 6\<rparr>)"
        using at at1 True by (simp add: ParseString_loop.simps [of start js p] Let_def add.commute)
      moreover have "drop (p_pos p + 6) js = drop 4 s' @ CHR 0x22 # post"
      proof -
        have "drop (p_pos p + 6) js = drop 4 (drop (p_pos p + 2) js)" by (simp add: add.commute)
        also have "\<dots> = drop 4 (s' @ CHR 0x22 # post)" by (simp only: at1(3))
        finally show ?thesis using u(2) by simp
      qed
      ultimately show ?thesis
        by (intro step [where s' = "drop 4 s'" and q = "p_pos p + 6"])
          (use "2.IH"(2) [OF _ True s False] u s True "2.prems" in auto)
    qed
  qed
qed

lemma run_str:
  assumes "drop pos js = CHR 0x22 # s @ CHR 0x22 # post" "str_body s" "-1 \<le> a" "a < int (length us)"
  shows "run js us (r # rest) pos a =
    run js (bump a us @ [leaf String (pos + 1) (pos + 1 + length s) a]) rest (pos + 1 + length s + 1) a"
proof -
  have at: "pos < length js" "js ! pos = CHR 0x22" "drop (pos + 1) js = s @ CHR 0x22 # post"
    using drop_Cons_nth [OF assms(1)] by auto
  let ?p = "\<lparr>p_tokens = us @ r # rest, p_pos = pos, p_toknext = int (length us), p_toksuper = a\<rparr>"
  have "ParseString js ?p = (Ok, \<lparr>p_tokens = us @ leaf String (pos + 1) (pos + 1 + length s) a # rest,
      p_pos = pos + 1 + length s, p_toknext = int (length us) + 1, p_toksuper = a\<rparr>)"
    unfolding ParseString_def
    by (subst ParseString_forward [where s = s and post = post and us = us and r = r and rest = rest])
      (use assms(2) at in auto)
  then show ?thesis
    using at scalar_forward [OF assms(3,4)]
    by (intro run_step) (auto simp: Parse_step_def)
qed

lemma run_prim:
  assumes "drop pos js = s @ d # post" "prim_body s" "is_delim d" "-1 \<le> a" "a < int (length us)"
  shows "run js us (r # rest) pos a =
    run js (bump a us @ [leaf Primitive pos (pos + length s) a]) rest (pos + length s) a"
proof -
  have len: "length s > 0" using assms(2) by (simp add: prim_body_def)
  have nth: "js ! (pos + i) = (s @ d # post) ! i" if "pos + i < length js" for i
    using that assms(1) by (metis nth_drop less_imp_le_nat le_add1 le_trans)
  have bound: "pos + length s < length js"
    using drop_append_drop [OF assms(1)] by (metis drop_eq_Nil linorder_not_less list.discI)
  have span: "prim_span js pos (pos + length s)"
    unfolding prim_span_def
  proof (intro conjI allI impI)
    show "is_delim (js ! (pos + length s))" using nth [OF bound] assms(3) by simp
    fix k assume k: "pos \<le> k \<and> k < pos + length s"
    then have i: "k - pos < length s" by linarith
    with k have "js ! k = s ! (k - pos)" using nth [of "k - pos"] bound by (simp add: nth_append)
    then have "js ! k \<in> set s" using i by simp
    with assms(2) show "\<not> is_delim (js ! k)" "\<not> is_control (js ! k)"
      by (auto simp: prim_body_def list_all_iff)
  qed (use len bound in auto)
  have hd: "js ! pos = hd s" using nth [of 0] bound len by (simp add: nth_append hd_conv_nth)
  then have c: "\<not> is_delim (js ! pos)" "js ! pos \<notin> {CHR 0x22, CHR ''{'', CHR ''[''}"
    using assms(2) by (auto simp: prim_body_def list_all_iff)
  let ?p = "\<lparr>p_tokens = us @ r # rest, p_pos = pos, p_toknext = int (length us), p_toksuper = a\<rparr>"
  have "ParsePrimitive js ?p = (Ok, \<lparr>p_tokens = us @ leaf Primitive pos (pos + length s) a # rest,
      p_pos = pos + length s - 1, p_toknext = int (length us) + 1, p_toksuper = a\<rparr>)"
    using ParsePrimitive_forward [OF span, of ?p us r rest] by (simp add: ParsePrimitive_def)
  moreover have "Parse_step js ?p = scalar_step (ParsePrimitive js ?p)"
    using c by (auto simp: Parse_step_def is_delim_def)
  ultimately have "run js us (r # rest) pos a =
      run js (bump a us @ [leaf Primitive pos (pos + length s) a]) rest (pos + length s - 1 + 1) a"
    using bound scalar_forward [OF assms(4,5)] by (intro run_step) auto
  then show ?thesis using len by simp
qed


subsection \<open>The tokens the tokeniser finds\<close>

lemma bump_node: "bump (int (length xs)) (xs @ t # ws) = xs @ t\<lparr>tok_size := tok_size t + 1\<rparr> # ws"
  by (simp add: bump_def)

lemma bump_snoc [simp]: "-1 \<le> s \<Longrightarrow> s < int (length us) \<Longrightarrow> length (bump s us @ [t]) = Suc (length us)"
  by simp

lemma render_len: "render v \<noteq> [] \<or> v = JPrim []"
  by (cases v) auto

lemma render_nonempty: "wf_val v \<Longrightarrow> render v \<noteq> []"
  by (cases v) (auto simp: prim_body_def)

definition delim_next :: "string \<Rightarrow> bool" where
  "delim_next post \<longleftrightarrow> post \<noteq> [] \<and> is_delim (hd post)"

lemma run_value:
  assumes js: "length js < 2 ^ 31"
  shows "wf_val v \<Longrightarrow> drop pos js = render v @ post \<Longrightarrow> (\<exists>s. v = JPrim s) \<longrightarrow> delim_next post \<Longrightarrow>
      -1 \<le> a \<Longrightarrow> a < int (length us) \<Longrightarrow> length rest = ntoks v \<Longrightarrow>
      run js us (rest @ left) pos a =
      run js (bump a us @ toks v pos (length us) a) left (pos + length (render v)) a"
    and "wf_elems vs \<Longrightarrow> drop pos js = render_elems vs @ post \<Longrightarrow> delim_next post \<Longrightarrow>
      tok_type t = Array \<Longrightarrow> length rest = ntoks_elems vs \<Longrightarrow>
      run js (xs @ t # ws) (rest @ left) pos (int (length xs)) =
      run js (xs @ t\<lparr>tok_size := tok_size t + int (length vs)\<rparr> # ws @
          toks_elems vs pos (length xs + 1 + length ws) (int (length xs)))
        left (pos + length (render_elems vs)) (int (length xs))"
    and "wf_members ms \<Longrightarrow> drop pos js = render_members ms @ post \<Longrightarrow> delim_next post \<Longrightarrow>
      tok_type t = Object \<Longrightarrow> length rest = ntoks_members ms \<Longrightarrow>
      \<exists>b. run js (xs @ t # ws) (rest @ left) pos (int (length xs)) =
      run js (xs @ t\<lparr>tok_size := tok_size t + int (length ms)\<rparr> # ws @
          toks_members ms pos (length xs + 1 + length ws) (int (length xs)))
        left (pos + length (render_members ms)) b"
proof (induction v and vs and ms arbitrary: pos us a rest left post and pos xs t ws rest left post
    and pos xs t ws rest left post rule: render_render_elems_render_members.induct)
  case (1 s)
  from "1.prems"(3) obtain d post' where post: "post = d # post'" "is_delim d"
    by (cases post) (auto simp: delim_next_def)
  obtain r where r: "rest = [r]" using "1.prems"(6) by (auto simp: length_Suc_conv)
  have "pos + length s < length js"
    using drop_append_drop [of pos js s post] "1.prems"(2) post drop_Cons_nth by fastforce
  then have "leaf Primitive pos (pos + length s) a = mk_tok Primitive pos (pos + length s) 0 a"
    using js by (simp add: leaf_def mk_tok_def i32_small)
  with run_prim [of pos js s d post' a us r left] "1.prems" post r show ?case by simp
next
  case (2 s)
  obtain r where r: "rest = [r]" using "2.prems"(6) by (auto simp: length_Suc_conv)
  have "length (drop pos js) = length s + 2 + length post" using "2.prems"(2) by simp
  then have "leaf String (pos + 1) (pos + 1 + length s) a = mk_tok String (pos + 1) (pos + 1 + length s) 0 a"
    using js by (simp add: leaf_def mk_tok_def i32_small)
  with run_str [of pos js s post a us r left] "2.prems" r show ?case
    by (simp add: ac_simps)
next
  case (3 vs)
  obtain r rest' where r: "rest = r # rest'" "length rest' = ntoks_elems vs"
    using "3.prems"(6) by (auto simp: length_Suc_conv)
  let ?n = "length us" and ?body = "render_elems vs"
  let ?us = "bump a us" and ?nd = "node Array pos a"
  have at: "pos < length js" "js ! pos = CHR ''[''" "drop (pos + 1) js = ?body @ CHR '']'' # post"
    using drop_Cons_nth [of pos js] "3.prems"(2) by auto
  have at2: "pos + 1 + length ?body < length js" "js ! (pos + 1 + length ?body) = CHR '']''"
    using drop_Cons_nth [OF drop_append_drop [OF at(3)]] by auto
  have i32: "i32 (pos + 1 + length ?body + 1) = int (pos + length (render (JArr vs)))" "i32 pos = int pos"
    using at2(1) js by (simp_all add: i32_small)
  let ?ts = "toks_elems vs (pos + 1) (?n + 1) (int ?n)"
  have "run js us (rest @ left) pos a = run js (?us @ ?nd # []) (rest' @ left) (pos + 1) (int (length ?us))"
    using run_open [OF at(1), of Array a us r "rest' @ left"] at(2) "3.prems"(4,5) r
    by (simp add: opener_def)
  also have "\<dots> = run js (?us @ ?nd\<lparr>tok_size := int (length vs)\<rparr> # ?ts) left
      (pos + 1 + length ?body) (int (length ?us))"
    using "3.IH" [OF _ at(3), of ?nd rest' ?us "[]" left] "3.prems"(1) r(2)
    by (simp add: delim_next_def is_delim_def node_def)
  also have "\<dots> = run js (?us @ ?nd\<lparr>tok_size := int (length vs), tok_end := i32 (pos + 1 + length ?body + 1)\<rparr>
      # ?ts) left (pos + 1 + length ?body + 1) a"
    using run_close [OF at2(1), of Array "?nd\<lparr>tok_size := int (length vs)\<rparr>" ?ts ?us left "int (length ?us)"]
      at2(2) toks_closed(2) i32(2)
    by (simp add: closer_def closed_def node_def)
  finally show ?case
    using i32 by (simp add: node_def mk_tok_def)
next
  case (4 ms)
  obtain r rest' where r: "rest = r # rest'" "length rest' = ntoks_members ms"
    using "4.prems"(6) by (auto simp: length_Suc_conv)
  let ?n = "length us" and ?body = "render_members ms"
  let ?us = "bump a us" and ?nd = "node Object pos a"
  have at: "pos < length js" "js ! pos = CHR ''{''" "drop (pos + 1) js = ?body @ CHR ''}'' # post"
    using drop_Cons_nth [of pos js] "4.prems"(2) by auto
  have at2: "pos + 1 + length ?body < length js" "js ! (pos + 1 + length ?body) = CHR ''}''"
    using drop_Cons_nth [OF drop_append_drop [OF at(3)]] by auto
  have i32: "i32 (pos + 1 + length ?body + 1) = int (pos + length (render (JObj ms)))" "i32 pos = int pos"
    using at2(1) js by (simp_all add: i32_small)
  let ?ts = "toks_members ms (pos + 1) (?n + 1) (int ?n)"
  have "run js us (rest @ left) pos a = run js (?us @ ?nd # []) (rest' @ left) (pos + 1) (int (length ?us))"
    using run_open [OF at(1), of Object a us r "rest' @ left"] at(2) "4.prems"(4,5) r
    by (simp add: opener_def)
  also obtain b where "\<dots> = run js (?us @ ?nd\<lparr>tok_size := int (length ms)\<rparr> # ?ts) left
      (pos + 1 + length ?body) b"
    using "4.IH" [OF _ at(3), of ?nd rest' ?us "[]" left] "4.prems"(1) r(2)
    by (auto simp: delim_next_def is_delim_def node_def)
  also have "\<dots> = run js (?us @ ?nd\<lparr>tok_size := int (length ms), tok_end := i32 (pos + 1 + length ?body + 1)\<rparr>
      # ?ts) left (pos + 1 + length ?body + 1) a"
    using run_close [OF at2(1), of Object "?nd\<lparr>tok_size := int (length ms)\<rparr>" ?ts ?us left b]
      at2(2) toks_closed(3) i32(2)
    by (simp add: closer_def closed_def node_def)
  finally show ?case
    using i32 by (simp add: node_def mk_tok_def)
next
  case 5
  then show ?case by simp
next
  case (6 v vs)
  let ?us = "xs @ t # ws" and ?a = "int (length xs)"
  let ?n = "length xs + 1 + length ws" and ?t1 = "t\<lparr>tok_size := tok_size t + 1\<rparr>"
  let ?post = "if vs = [] then post else CHR '','' # render_elems vs @ post"
  define r1 r2 where "r1 = take (ntoks v) rest" and "r2 = drop (ntoks v) rest"
  have r: "rest = r1 @ r2" "length r1 = ntoks v" "length r2 = ntoks_elems vs"
    using "6.prems"(5) by (simp_all add: r1_def r2_def)
  have wf: "wf_val v" "wf_elems vs" using "6.prems"(1) by simp_all
  have at: "drop pos js = render v @ ?post" using "6.prems"(2) by simp
  have dl: "delim_next ?post" using "6.prems"(3) by (simp add: delim_next_def is_delim_def)
  have step: "run js ?us (rest @ left) pos ?a =
      run js (xs @ ?t1 # ws @ toks v pos ?n ?a) (r2 @ left) (pos + length (render v)) ?a"
    using "6.IH"(1) [OF wf(1) at, of ?a ?us r1 "r2 @ left"] dl r by (simp add: bump_node)
  show ?case
  proof (cases "vs = []")
    case True
    with step r(3) show ?thesis by simp
  next
    case False
    then have "drop (pos + length (render v)) js = CHR '','' # render_elems vs @ post"
      using drop_append_drop [OF at] by simp
    from drop_Cons_nth [OF this] have c: "pos + length (render v) < length js" "js ! (pos + length (render v)) = CHR '',''"
      "drop (pos + length (render v) + 1) js = render_elems vs @ post"
      by simp_all
    have "run js (xs @ ?t1 # ws @ toks v pos ?n ?a) (r2 @ left) (pos + length (render v)) ?a =
        run js (xs @ ?t1 # (ws @ toks v pos ?n ?a)) (r2 @ left) (pos + length (render v) + 1) ?a"
      using run_comma [OF c(1,2), of ?a "xs @ ?t1 # ws @ toks v pos ?n ?a" "r2 @ left"] "6.prems"(4)
      by simp
    also have "\<dots> = run js (xs @ ?t1\<lparr>tok_size := tok_size ?t1 + int (length vs)\<rparr> #
        (ws @ toks v pos ?n ?a) @ toks_elems vs (pos + length (render v) + 1) (?n + ntoks v) ?a)
        left (pos + length (render v) + 1 + length (render_elems vs)) ?a"
      using "6.IH"(2) [OF False wf(2) c(3) "6.prems"(3), of ?t1 r2 xs "ws @ toks v pos ?n ?a" left]
        "6.prems"(4) r(3) by (simp add: ac_simps)
    finally show ?thesis using step False by (simp add: ac_simps)
  qed
next
  case 7
  then show ?case by auto
next
  case (8 k v ms)
  let ?us = "xs @ t # ws" and ?a = "int (length xs)"
  let ?n = "length xs + 1 + length ws" and ?t1 = "t\<lparr>tok_size := tok_size t + 1\<rparr>"
  let ?post = "if ms = [] then post else CHR '','' # render_members ms @ post"
  let ?q = "pos + length k + 3"
  obtain r0 rest' where rest: "rest = r0 # rest'" using "8.prems"(5) by (cases rest) auto
  define r1 r2 where "r1 = take (ntoks v) rest'" and "r2 = drop (ntoks v) rest'"
  have r: "rest = r0 # r1 @ r2" "length r1 = ntoks v" "length r2 = ntoks_members ms"
    using "8.prems"(5) rest by (simp_all add: r1_def r2_def)
  have wf: "str_body k" "wf_val v" "wf_members ms" using "8.prems"(1) by simp_all
  have at: "drop pos js = CHR 0x22 # k @ CHR 0x22 # CHR '':'' # render v @ ?post"
    using "8.prems"(2) by simp
  have dl: "delim_next ?post" using "8.prems"(3) by (simp add: delim_next_def is_delim_def)
  let ?key = "mk_tok String (pos + 1) (pos + 1 + length k) 0 ?a"
  let ?key1 = "mk_tok String (pos + 1) (pos + 1 + length k) 1 ?a"
  have "length (drop pos js) \<ge> length k + 3" using at by simp
  then have key: "leaf String (pos + 1) (pos + 1 + length k) ?a = ?key"
    using js by (simp add: leaf_def mk_tok_def i32_small)
  have d: "drop (pos + length k + 2) js = CHR '':'' # render v @ ?post"
    using drop_append_drop [of pos js "CHR 0x22 # k @ [CHR 0x22]" "CHR '':'' # render v @ ?post"] at
    by (simp add: add.assoc)
  have q: "?q = pos + length k + 2 + 1" by simp
  from drop_Cons_nth [OF d] have col: "pos + length k + 2 < length js"
    "js ! (pos + length k + 2) = CHR '':''" "drop ?q js = render v @ ?post"
    unfolding q by blast+
  have "run js ?us (rest @ left) pos ?a =
      run js (xs @ ?t1 # ws @ [?key]) (r1 @ r2 @ left) (pos + length k + 2) ?a"
    using run_str [OF at wf(1), of ?a ?us r0 "r1 @ r2 @ left"] key r(1)
    by (simp add: bump_node)
  also have "\<dots> = run js (xs @ ?t1 # ws @ [?key]) (r1 @ r2 @ left) ?q (int ?n)"
    unfolding q using run_colon [OF col(1,2), of "xs @ ?t1 # ws @ [?key]" "r1 @ r2 @ left" ?a]
    by (simp add: add.commute add.left_commute)
  also have "\<dots> = run js ((xs @ ?t1 # ws @ [?key1]) @ toks v ?q (?n + 1) (int ?n)) (r2 @ left)
      (?q + length (render v)) (int ?n)"
  proof -
    have "bump (int ?n) ((xs @ ?t1 # ws) @ [?key]) = (xs @ ?t1 # ws) @ [?key1]"
      using bump_node [of "xs @ ?t1 # ws" ?key "[]"] by (simp add: mk_tok_def)
    then show ?thesis
      using "8.IH"(1) [OF wf(2) col(3), of "int ?n" "xs @ ?t1 # ws @ [?key]" r1 "r2 @ left"] dl r(2)
      by simp
  qed
  finally have step: "run js ?us (rest @ left) pos ?a =
      run js (xs @ ?t1 # ws @ ?key1 # toks v ?q (?n + 1) (int ?n)) (r2 @ left)
      (?q + length (render v)) (int ?n)"
    by simp
  show ?case
  proof (cases "ms = []")
    case True
    with step r(3) show ?thesis by (auto simp: ac_simps numeral_3_eq_3)
  next
    case False
    let ?ws = "ws @ ?key1 # toks v ?q (?n + 1) (int ?n)"
    have "drop (?q + length (render v)) js = CHR '','' # render_members ms @ post"
      using drop_append_drop [OF col(3)] False by simp
    from drop_Cons_nth [OF this] have c: "?q + length (render v) < length js" "js ! (?q + length (render v)) = CHR '',''"
      "drop (?q + length (render v) + 1) js = render_members ms @ post"
      by simp_all
    have "(xs @ ?t1 # ?ws) ! ?n = ?key1" by (simp add: nth_append)
    moreover have "0 \<le> int ?n" "int ?n < int (length (xs @ ?t1 # ?ws))" by simp_all
    ultimately have "run js (xs @ ?t1 # ?ws) (r2 @ left) (?q + length (render v)) (int ?n) =
        run js (xs @ ?t1 # ?ws) (r2 @ left) (?q + length (render v) + 1)
          (if tok_type ?key1 \<in> {Object, Array} then int ?n else tok_parent ?key1)"
      using run_comma [OF c(1,2), of "int ?n" "xs @ ?t1 # ?ws" "r2 @ left"]
      unfolding nat_int by presburger
    then have "run js (xs @ ?t1 # ?ws) (r2 @ left) (?q + length (render v)) (int ?n) =
        run js (xs @ ?t1 # ?ws) (r2 @ left) (?q + length (render v) + 1) ?a"
      by (simp add: mk_tok_def)
    moreover obtain b where "run js (xs @ ?t1 # ?ws) (r2 @ left) (?q + length (render v) + 1) ?a =
        run js (xs @ ?t1\<lparr>tok_size := tok_size ?t1 + int (length ms)\<rparr> # ?ws @
          toks_members ms (?q + length (render v) + 1) (?n + 1 + ntoks v) ?a)
        left (?q + length (render v) + 1 + length (render_members ms)) b"
      using "8.IH"(2) [OF False wf(3) c(3) "8.prems"(3), of ?t1 r2 xs ?ws left] "8.prems"(4) r(3)
      by (auto simp: ac_simps)
    ultimately show ?thesis using step False by (auto simp: ac_simps numeral_3_eq_3)
  qed
qed

lemma Parse_render:
  assumes "wf_val v" "\<nexists>s. v = JPrim s" "length (render v) < 2 ^ 31" "ntoks v \<le> length tokens"
  shows "Parse (render v) tokens = Some (Inr (ntoks v), toks v 0 0 (-1) @ drop (ntoks v) tokens)"
proof -
  let ?js = "render v" and ?ts = "toks v 0 0 (-1)"
  have "run ?js [] (take (ntoks v) tokens @ drop (ntoks v) tokens) 0 (-1) =
      run ?js (bump (-1) [] @ ?ts) (drop (ntoks v) tokens) (0 + length ?js) (-1)"
    using run_value(1) [OF assms(3,1), of 0 "[]" "-1" "[]" "take (ntoks v) tokens"] assms(2,4)
    by (simp del: append_take_drop_id)
  then have "Parse_loop ?js \<lparr>p_tokens = tokens, p_pos = 0, p_toknext = 0, p_toksuper = -1\<rparr> =
      Some (Ok, \<lparr>p_tokens = ?ts @ drop (ntoks v) tokens, p_pos = length ?js, p_toknext = int (ntoks v),
        p_toksuper = -1\<rparr>)"
    by (simp add: run_def bump_def Parse_loop.simps [of ?js "\<lparr>p_tokens = ?ts @ drop (ntoks v) tokens,
        p_pos = length ?js, p_toknext = int (ntoks v), p_toksuper = -1\<rparr>"])
  then show ?thesis
    using toks_closed(1) [of _ v 0 0 "-1"] by (simp add: Parse_def unclosed_loop_result)
qed

subsection \<open>A view stands for a value\<close>

definition views :: "Json \<Rightarrow> jval \<Rightarrow> bool" where
  "views j v \<longleftrightarrow> (\<exists>bef par aft pre post.
     j_tokens j = bef @ toks v (length pre) (length bef) par @ aft \<and>
     j_index j = int (length bef) \<and> length (j_tokens j) < 2 ^ 31 \<and>
     j_src j = pre @ render v @ post \<and>
     (\<forall>t \<in> set aft. \<not> (int (length bef) \<le> tok_parent t \<and>
                       tok_parent t < int (length bef + ntoks v))))"

fun val_type :: "jval \<Rightarrow> Type" where
  "val_type (JPrim s) = Primitive"
| "val_type (JStr s) = String"
| "val_type (JArr vs) = Array"
| "val_type (JObj ms) = Object"

fun val_size :: "jval \<Rightarrow> nat" where
  "val_size (JArr vs) = length vs"
| "val_size (JObj ms) = length ms"
| "val_size v = 0"

fun val_raw :: "jval \<Rightarrow> string" where
  "val_raw (JStr s) = s"
| "val_raw v = render v"

lemma ntoks_pos [simp]: "0 < ntoks v"
  by (cases v) auto

lemma toks_Cons: "\<exists>rest. toks v pos n par =
    mk_tok (val_type v) (if val_type v = String then pos + 1 else pos)
      (if val_type v = String then pos + 1 + length (val_raw v) else pos + length (val_raw v))
      (val_size v) par # rest"
  by (cases v) auto

lemma views_index:
  assumes "views j v"
  shows "Json_valid j" "\<exists>pos par. j_tokens j ! nat (j_index j) = mk_tok (val_type v)
      (if val_type v = String then pos + 1 else pos)
      (if val_type v = String then pos + 1 + length (val_raw v) else pos + length (val_raw v))
      (val_size v) par \<and> take (length (render v)) (drop pos (j_src j)) = render v"
proof -
  from assms obtain bef par aft pre post where v:
    "j_tokens j = bef @ toks v (length pre) (length bef) par @ aft"
    "j_index j = int (length bef)" "length (j_tokens j) < 2 ^ 31" "j_src j = pre @ render v @ post"
    unfolding views_def by blast
  have "length bef < length (j_tokens j)" using v(1) by simp
  then show "Json_valid j" using v(2,3) by (simp add: Json_valid_def i32_small del: length_append)
  obtain rest where r: "toks v (length pre) (length bef) par =
      mk_tok (val_type v) (if val_type v = String then length pre + 1 else length pre)
      (if val_type v = String then length pre + 1 + length (val_raw v) else length pre + length (val_raw v))
      (val_size v) par # rest" using toks_Cons by blast
  show "\<exists>pos par. j_tokens j ! nat (j_index j) = mk_tok (val_type v)
      (if val_type v = String then pos + 1 else pos)
      (if val_type v = String then pos + 1 + length (val_raw v) else pos + length (val_raw v))
      (val_size v) par \<and> take (length (render v)) (drop pos (j_src j)) = render v"
    by (rule exI [of _ "length pre"], rule exI [of _ par])
      (simp only: v(1,2,4) r nat_int, simp)
qed

lemma views_observe:
  assumes "views j v"
  shows "Json_type j = val_type v" "Json_size j = val_size v" "Json_raw j = val_raw v"
proof -
  note valid = views_index(1) [OF assms]
  from views_index(2) [OF assms] obtain pos par where tk: "j_tokens j ! nat (j_index j) =
      mk_tok (val_type v) (if val_type v = String then pos + 1 else pos)
      (if val_type v = String then pos + 1 + length (val_raw v) else pos + length (val_raw v))
      (val_size v) par" and src: "take (length (render v)) (drop pos (j_src j)) = render v"
    by blast
  show "Json_type j = val_type v" using valid tk by (simp add: Json_type_def mk_tok_def)
  show "Json_size j = val_size v"
    using valid tk by (cases v) (simp_all add: Json_size_def mk_tok_def)
  show "Json_raw j = val_raw v"
  proof (cases v)
    case (JStr s)
    obtain d where "drop pos (j_src j) = render v @ d" using src by (metis append_take_drop_id)
    with JStr drop_Cons_nth [of pos "j_src j"] have "drop (pos + 1) (j_src j) = s @ CHR 0x22 # d"
      by auto
    then show ?thesis
      using valid tk JStr
        by (simp add: Json_raw_def Let_def mk_tok_def sv_substr_def nat_add_distrib)
  qed (use valid tk src in \<open>simp_all add: Json_raw_def Let_def mk_tok_def sv_substr_def nat_add_distrib\<close>)
qed

lemma toks_parents:
  "t \<in> set (toks v pos n par) \<Longrightarrow>
   tok_parent t = par \<or> int n \<le> tok_parent t \<and> tok_parent t < int (n + ntoks v)"
  "t \<in> set (toks_elems vs pos n par) \<Longrightarrow>
   tok_parent t = par \<or> int n \<le> tok_parent t \<and> tok_parent t < int (n + ntoks_elems vs)"
  "t \<in> set (toks_members ms pos n par) \<Longrightarrow>
   tok_parent t = par \<or> int n \<le> tok_parent t \<and> tok_parent t < int (n + ntoks_members ms)"
  by (induction v pos n par and vs pos n par and ms pos n par
      rule: toks_toks_elems_toks_members.induct) (auto simp: mk_tok_def)

lemma toks_tl_parents:
  "t \<in> set (tl (toks v pos n par)) \<Longrightarrow> int n \<le> tok_parent t \<and> tok_parent t < int (n + ntoks v)"
  using toks_parents(2) [of t] toks_parents(3) [of t] by (cases v) force+


subsection \<open>Lookups\<close>

lemma views_at:
  "j_tokens j = bef @ t # aft \<Longrightarrow> j_tokens j ! length bef = t"
  by simp

lemma key_loop_skip:
  assumes "length (j_tokens j) < 2 ^ 31"
  shows "j_tokens j = bef @ seg @ aft \<Longrightarrow> \<forall>t \<in> set seg. tok_parent t \<noteq> j_index j \<Longrightarrow>
    key_loop j key (int (length bef)) = key_loop j key (int (length bef + length seg))"
proof (induction seg arbitrary: bef)
  case (Cons t seg)
  have "int (length bef) < i32 (length (j_tokens j))"
    using Cons.prems(1) by (subst i32_small [OF assms]) simp
  then have "key_loop j key (int (length bef)) = key_loop j key (int (length bef) + 1)"
    using Cons.prems by (subst key_loop.simps) (simp add: Let_def)
  also have "\<dots> = key_loop j key (int (length (bef @ [t]) + length seg))"
    using Cons.IH [of "bef @ [t]"] Cons.prems by (simp add: add.commute)
  finally show ?case by simp
qed simp

lemma elem_loop_skip:
  assumes "length (j_tokens j) < 2 ^ 31"
  shows "j_tokens j = bef @ seg @ aft \<Longrightarrow> \<forall>t \<in> set seg. tok_parent t \<noteq> j_index j \<Longrightarrow>
    elem_loop j n seen (int (length bef)) = elem_loop j n seen (int (length bef + length seg))"
proof (induction seg arbitrary: bef)
  case (Cons t seg)
  have "int (length bef) < i32 (length (j_tokens j))"
    using Cons.prems(1) by (subst i32_small [OF assms]) simp
  then have "elem_loop j n seen (int (length bef)) = elem_loop j n seen (int (length bef) + 1)"
    using Cons.prems by (subst elem_loop.simps) simp
  also have "\<dots> = elem_loop j n seen (int (length (bef @ [t]) + length seg))"
    using Cons.IH [of "bef @ [t]"] Cons.prems by (simp add: add.commute)
  finally show ?case by simp
qed simp

lemma loops_end:
  assumes "length (j_tokens j) < 2 ^ 31"
  shows "key_loop j key (int (length (j_tokens j))) = Json_none"
    "elem_loop j n seen (int (length (j_tokens j))) = Json_none"
  by (simp_all add: key_loop.simps [of j key] elem_loop.simps [of j n seen] i32_small [OF assms])

text \<open>Passing over one element: its first token counts, its descendants do not.\<close>

lemma elem_loop_value:
  assumes small: "length (j_tokens j) < 2 ^ 31"
    and j: "j_tokens j = bef @ toks v pos (length bef) (j_index j) @ aft"
    and i: "j_index j < int (length bef)"
  shows "elem_loop j n seen (int (length bef)) =
    (if seen = n then j\<lparr>j_index := int (length bef)\<rparr>
     else elem_loop j n (seen + 1) (int (length bef + ntoks v)))"
proof -
  obtain t rest where t: "toks v pos (length bef) (j_index j) = t # rest" "tok_parent t = j_index j"
    using toks_Cons [of v pos "length bef" "j_index j"] by (auto simp: mk_tok_def)
  have "int (length bef) < i32 (length (j_tokens j))"
    using j ntoks_pos [of v] by (subst i32_small [OF small]) (simp add: add_pos_nonneg)
  then have "elem_loop j n seen (int (length bef)) =
      (if seen = n then j\<lparr>j_index := int (length bef)\<rparr> else elem_loop j n (seen + 1) (int (length bef) + 1))"
    using j t by (subst elem_loop.simps) (simp add: nth_append)
  moreover have "\<forall>u \<in> set rest. tok_parent u \<noteq> j_index j"
    using toks_tl_parents [of _ v pos "length bef" "j_index j"] t(1) i by fastforce
  then have "elem_loop j n (seen + 1) (int (length (bef @ [t]))) =
      elem_loop j n (seen + 1) (int (length (bef @ [t]) + length rest))"
    using j t(1) by (intro elem_loop_skip [OF small, of _ rest aft]) simp_all
  moreover have "length rest + 1 = ntoks v"
    using arg_cong [OF t(1), of length] by simp
  ultimately show ?thesis by (simp add: add.commute flip: \<open>length rest + 1 = ntoks v\<close>)
qed

lemma key_loop_member:
  assumes small: "length (j_tokens j) < 2 ^ 31"
    and j: "j_tokens j = bef @ mk_tok String kpos (kpos + length k) 1 (j_index j) #
      toks v pos (length bef + 1) (int (length bef)) @ aft"
    and i: "j_index j < int (length bef)"
    and src: "take (length k) (drop kpos (j_src j)) = k"
  shows "key_loop j key (int (length bef)) =
    (if k = key then j\<lparr>j_index := int (length bef) + 1\<rparr>
     else key_loop j key (int (length bef + 1 + ntoks v)))"
proof -
  let ?kt = "mk_tok String kpos (kpos + length k) 1 (j_index j)"
  have lt: "int (length bef) < i32 (length (j_tokens j))"
    using j by (subst i32_small [OF small]) simp
  have nth: "j_tokens j ! length bef = ?kt" using j by simp
  have "Json_raw (j\<lparr>j_index := int (length bef)\<rparr>) = k"
    using lt nth src by (simp add: Json_raw_def Json_valid_def mk_tok_def Let_def sv_substr_def)
  then have "key_loop j key (int (length bef)) =
      (if k = key then j\<lparr>j_index := int (length bef) + 1\<rparr> else key_loop j key (int (length bef) + 1))"
    using lt nth by (subst key_loop.simps) (simp add: mk_tok_def)
  moreover have "\<forall>u \<in> set (toks v pos (length bef + 1) (int (length bef))). tok_parent u \<noteq> j_index j"
    using toks_parents(1) [of _ v pos "length bef + 1" "int (length bef)"] i by fastforce
  then have "key_loop j key (int (length (bef @ [?kt]))) =
      key_loop j key (int (length (bef @ [?kt]) + ntoks v))"
    using key_loop_skip [OF small, of "bef @ [?kt]" "toks v pos (length bef + 1) (int (length bef))" aft] j
    by simp
  ultimately show ?thesis by (simp add: add.commute)
qed

text \<open>A token after a run of tokens does not point into it.\<close>

definition outside :: "int \<Rightarrow> nat \<Rightarrow> nat \<Rightarrow> Token \<Rightarrow> bool" where
  "outside idx lo hi t \<longleftrightarrow> tok_parent t \<noteq> idx \<and> \<not> (int lo \<le> tok_parent t \<and> tok_parent t < int hi)"

lemma elem_loop_elems:
  assumes small: "length (j_tokens j) < 2 ^ 31"
  shows "j_tokens j = bef @ toks_elems vs (length pre) (length bef) (j_index j) @ aft \<Longrightarrow>
    j_index j < int (length bef) \<Longrightarrow> j_src j = pre @ render_elems vs @ post \<Longrightarrow>
    \<forall>t \<in> set aft. outside (j_index j) (length bef) (length bef + ntoks_elems vs) t \<Longrightarrow> seen \<le> n \<Longrightarrow>
    (if n - seen < length vs
     then views (elem_loop j n seen (int (length bef))) (vs ! (n - seen))
     else elem_loop j n seen (int (length bef)) = Json_none)"
proof (induction vs arbitrary: bef pre seen)
  case Nil
  have "elem_loop j n seen (int (length bef)) = elem_loop j n seen (int (length bef + length aft))"
    using Nil by (intro elem_loop_skip [OF small, of _ _ "[]"]) (auto simp: outside_def)
  then show ?case using loops_end(2) [OF small] Nil(1) by simp
next
  case (Cons v vs)
  let ?tk = "toks v (length pre) (length bef) (j_index j)"
  let ?rest = "toks_elems vs (length pre + length (render v) + 1) (length bef + ntoks v) (j_index j)"
  have j: "j_tokens j = bef @ ?tk @ (?rest @ aft)" using Cons.prems(1) by simp
  note step = elem_loop_value [OF small j Cons.prems(2), of n seen]
  show ?case
  proof (cases "seen = n")
    case True
    have "\<not> (int (length bef) \<le> tok_parent t \<and> tok_parent t < int (length bef + ntoks v))"
      if "t \<in> set (?rest @ aft)" for t
      using that Cons.prems(2,4) toks_parents(2) [of t vs _ "length bef + ntoks v" "j_index j"]
      by (fastforce simp: outside_def)
    then have "views (j\<lparr>j_index := int (length bef)\<rparr>) v"
      unfolding views_def using j small Cons.prems(3)
      by (intro exI [of _ bef] exI [of _ "j_index j"] exI [of _ "?rest @ aft"] exI [of _ pre]
          exI [of _ "(if vs = [] then [] else CHR '','' # render_elems vs) @ post"]) simp
    with step True show ?thesis by simp
  next
    case False
    show ?thesis
    proof (cases "vs = []")
      case True
      have "elem_loop j n (seen + 1) (int (length (bef @ ?tk))) =
          elem_loop j n (seen + 1) (int (length (bef @ ?tk) + length aft))"
        using True j Cons.prems(4)
        by (intro elem_loop_skip [OF small, of _ _ "[]"]) (auto simp: outside_def)
      then have "elem_loop j n (seen + 1) (int (length bef + ntoks v)) = Json_none"
        using loops_end(2) [OF small] j True by (simp add: add.assoc)
      with step False True Cons.prems(5) show ?thesis by simp
    next
      case vs: False
      let ?pre = "pre @ render v @ [CHR '','']"
      have "if n - (seen + 1) < length vs
          then views (elem_loop j n (seen + 1) (int (length (bef @ ?tk)))) (vs ! (n - (seen + 1)))
          else elem_loop j n (seen + 1) (int (length (bef @ ?tk))) = Json_none"
        using j Cons.prems False vs
        by (intro Cons.IH [where pre = ?pre]) (auto simp: outside_def)
      then show ?thesis
        using step False Cons.prems(5) by (auto simp: nth_Cons' less_diff_conv split: if_splits)
    qed
  qed
qed

lemma key_loop_members:
  assumes small: "length (j_tokens j) < 2 ^ 31"
  shows "j_tokens j = bef @ toks_members ms (length pre) (length bef) (j_index j) @ aft \<Longrightarrow>
    j_index j < int (length bef) \<Longrightarrow> j_src j = pre @ render_members ms @ post \<Longrightarrow>
    \<forall>t \<in> set aft. outside (j_index j) (length bef) (length bef + ntoks_members ms) t \<Longrightarrow>
    (case map_of ms key of
       Some v \<Rightarrow> views (key_loop j key (int (length bef))) v
     | None \<Rightarrow> key_loop j key (int (length bef)) = Json_none)"
proof (induction ms arbitrary: bef pre)
  case Nil
  have "key_loop j key (int (length bef)) = key_loop j key (int (length bef + length aft))"
    using Nil by (intro key_loop_skip [OF small, of _ _ "[]"]) (auto simp: outside_def)
  then show ?case using loops_end(1) [OF small] Nil(1) by simp
next
  case (Cons kv ms)
  obtain k v where kv: "kv = (k, v)" by (cases kv)
  let ?kt = "mk_tok String (length pre + 1) (length pre + 1 + length k) 1 (j_index j)"
  let ?tk = "toks v (length pre + length k + 3) (length bef + 1) (int (length bef))"
  let ?rest = "toks_members ms (length pre + length k + 3 + length (render v) + 1)
    (length bef + 1 + ntoks v) (j_index j)"
  have j: "j_tokens j = bef @ ?kt # ?tk @ (?rest @ aft)" using Cons.prems(1) kv by simp
  have src: "j_src j = (pre @ [CHR 0x22]) @ k @ [CHR 0x22, CHR '':''] @ render v @
      (if ms = [] then [] else CHR '','' # render_members ms) @ post"
    using Cons.prems(3) kv by simp
  have "take (length k) (drop (length pre + 1) (j_src j)) = k" unfolding src by simp
  note step = key_loop_member [OF small j Cons.prems(2) this, of key]
  show ?case
  proof (cases "k = key")
    case True
    have "\<not> (int (length bef + 1) \<le> tok_parent t \<and> tok_parent t < int (length bef + 1 + ntoks v))"
      if "t \<in> set (?rest @ aft)" for t
      using that Cons.prems(2,4) kv toks_parents(3) [of t ms _ "length bef + 1 + ntoks v" "j_index j"]
      by (fastforce simp: outside_def)
    then have "views (j\<lparr>j_index := int (length bef) + 1\<rparr>) v"
      unfolding views_def using j small src
      by (intro exI [of _ "bef @ [?kt]"] exI [of _ "int (length bef)"] exI [of _ "?rest @ aft"]
          exI [of _ "pre @ [CHR 0x22] @ k @ [CHR 0x22, CHR '':'']"]
          exI [of _ "(if ms = [] then [] else CHR '','' # render_members ms) @ post"])
        (simp add: numeral_3_eq_3 add.commute)
    with step True kv show ?thesis by simp
  next
    case False
    show ?thesis
    proof (cases "ms = []")
      case True
      have "key_loop j key (int (length (bef @ ?kt # ?tk))) =
          key_loop j key (int (length (bef @ ?kt # ?tk) + length aft))"
        using True j Cons.prems(4)
        by (intro key_loop_skip [OF small, of _ _ "[]"]) (auto simp: outside_def)
      then have "key_loop j key (int (length bef + 1 + ntoks v)) = Json_none"
        using loops_end(1) [OF small] j True by (simp add: add.assoc)
      with step False True kv show ?thesis by simp
    next
      case ms: False
      let ?pre = "pre @ [CHR 0x22] @ k @ [CHR 0x22, CHR '':''] @ render v @ [CHR '','']"
      have "case map_of ms key of
          Some v \<Rightarrow> views (key_loop j key (int (length (bef @ ?kt # ?tk)))) v
        | None \<Rightarrow> key_loop j key (int (length (bef @ ?kt # ?tk))) = Json_none"
        using j Cons.prems kv ms src
        by (intro Cons.IH [where pre = ?pre]) (auto simp: outside_def numeral_3_eq_3 add.assoc)
      then show ?thesis using step False kv by (cases "map_of ms key") simp_all
    qed
  qed
qed


lemma Json_none_lookups [simp]:
  "\<not> Json_valid Json_none" "Json_key Json_none k = Json_none" "Json_elem Json_none n = Json_none"
  by (simp_all add: Json_valid_def Json_none_def Json_key_def Json_elem_def is_object_def
      is_array_def Json_type_def)

lemma views_key:
  assumes "views j v"
  shows "case (case v of JObj ms \<Rightarrow> map_of ms key | _ \<Rightarrow> None) of
      Some w \<Rightarrow> views (Json_key j key) w | None \<Rightarrow> Json_key j key = Json_none"
proof (cases "\<exists>ms. v = JObj ms")
  case False
  then have "val_type v \<noteq> Object" by (cases v) auto
  with views_observe(1) [OF assms] have "Json_key j key = Json_none"
    by (simp add: Json_key_def is_object_def)
  with False show ?thesis by (cases v) auto
next
  case True
  then obtain ms where v: "v = JObj ms" by blast
  from assms obtain bef par aft pre post where a:
    "j_tokens j = bef @ toks v (length pre) (length bef) par @ aft"
    "j_index j = int (length bef)" "length (j_tokens j) < 2 ^ 31" "j_src j = pre @ render v @ post"
    "\<forall>t \<in> set aft. \<not> (int (length bef) \<le> tok_parent t \<and> tok_parent t < int (length bef + ntoks v))"
    unfolding views_def by blast
  let ?nd = "mk_tok Object (length pre) (length pre + length (render v)) (length ms) par"
  have "case map_of ms key of
      Some w \<Rightarrow> views (key_loop j key (int (length (bef @ [?nd])))) w
    | None \<Rightarrow> key_loop j key (int (length (bef @ [?nd]))) = Json_none"
    using a v by (intro key_loop_members [where pre = "pre @ [CHR ''{'']" and aft = aft
          and post = "[CHR ''}''] @ post"]) (auto simp: outside_def)
  moreover have "Json_key j key = key_loop j key (int (length (bef @ [?nd])))"
    using views_observe(1) [OF assms] a(2) v by (simp add: Json_key_def is_object_def add.commute)
  ultimately show ?thesis unfolding v jval.case by (simp only:)
qed

lemma views_elem:
  assumes "views j v"
  shows "case (case v of JArr vs \<Rightarrow> if n < length vs then Some (vs ! n) else None | _ \<Rightarrow> None) of
      Some w \<Rightarrow> views (Json_elem j n) w | None \<Rightarrow> Json_elem j n = Json_none"
proof (cases "\<exists>vs. v = JArr vs")
  case False
  then have "val_type v \<noteq> Array" by (cases v) auto
  with views_observe(1) [OF assms] have "Json_elem j n = Json_none"
    by (simp add: Json_elem_def is_array_def)
  with False show ?thesis by (cases v) auto
next
  case True
  then obtain vs where v: "v = JArr vs" by blast
  from assms obtain bef par aft pre post where a:
    "j_tokens j = bef @ toks v (length pre) (length bef) par @ aft"
    "j_index j = int (length bef)" "length (j_tokens j) < 2 ^ 31" "j_src j = pre @ render v @ post"
    "\<forall>t \<in> set aft. \<not> (int (length bef) \<le> tok_parent t \<and> tok_parent t < int (length bef + ntoks v))"
    unfolding views_def by blast
  let ?nd = "mk_tok Array (length pre) (length pre + length (render v)) (length vs) par"
  have "if n - 0 < length vs
      then views (elem_loop j n 0 (int (length (bef @ [?nd])))) (vs ! (n - 0))
      else elem_loop j n 0 (int (length (bef @ [?nd]))) = Json_none"
    using a v by (intro elem_loop_elems [where pre = "pre @ [CHR ''['']" and aft = aft
          and post = "[CHR '']''] @ post"]) (auto simp: outside_def)
  moreover have "Json_elem j n = elem_loop j n 0 (int (length (bef @ [?nd])))"
    using views_observe(1) [OF assms] a(2) v by (simp add: Json_elem_def is_array_def add.commute)
  ultimately show ?thesis using v by (auto split: if_splits)
qed

subsection \<open>Paths\<close>

datatype nav = Key string | Elem nat

fun follow :: "Json \<Rightarrow> nav list \<Rightarrow> Json" where
  "follow j [] = j"
| "follow j (Key k # p) = follow (Json_key j k) p"
| "follow j (Elem n # p) = follow (Json_elem j n) p"

fun lookup :: "jval \<Rightarrow> nav list \<Rightarrow> jval option" where
  "lookup v [] = Some v"
| "lookup v (Key k # p) =
     (case v of JObj ms \<Rightarrow> (case map_of ms k of None \<Rightarrow> None | Some w \<Rightarrow> lookup w p) | _ \<Rightarrow> None)"
| "lookup v (Elem n # p) =
     (case v of JArr vs \<Rightarrow> if n < length vs then lookup (vs ! n) p else None | _ \<Rightarrow> None)"

lemma follow_none [simp]: "follow Json_none p = Json_none"
proof (induction p)
  case (Cons a p)
  then show ?case by (cases a) simp_all
qed simp

lemma views_follow:
  "views j v \<Longrightarrow> (case lookup v p of Some w \<Rightarrow> views (follow j p) w | None \<Rightarrow> follow j p = Json_none)"
proof (induction v p arbitrary: j rule: lookup.induct)
  case (2 v k p)
  show ?case
  proof (cases "case v of JObj ms \<Rightarrow> map_of ms k | _ \<Rightarrow> None")
    case None
    with views_key [OF "2.prems", of k] show ?thesis by (cases v) auto
  next
    case (Some w)
    then obtain ms where v: "v = JObj ms" "map_of ms k = Some w" by (cases v) auto
    with views_key [OF "2.prems", of k] have "views (Json_key j k) w" by simp
    from "2.IH" [OF v this] v show ?thesis by (simp split: option.splits)
  qed
next
  case (3 v n p)
  show ?case
  proof (cases "\<exists>vs. v = JArr vs \<and> n < length vs")
    case True
    then obtain vs where v: "v = JArr vs" "n < length vs" by blast
    with views_elem [OF "3.prems", of n] have "views (Json_elem j n) (vs ! n)" by simp
    from "3.IH" [OF v this] v show ?thesis by (simp split: option.splits)
  next
    case False
    with views_elem [OF "3.prems", of n] show ?thesis by (cases v) auto
  qed
qed simp

lemma ParseToView_views:
  assumes "wf_val v" "\<nexists>s. v = JPrim s" "length (render v) < 2 ^ 31" "ntoks v \<le> length tokens"
    "ntoks v < 2 ^ 31"
  shows "\<exists>j ts. ParseToView (render v) tokens = Some (Inr j, ts) \<and> views j v"
proof -
  let ?j = "\<lparr>j_src = render v, j_tokens = toks v 0 0 (-1), j_index = 0\<rparr>"
  have "ParseToView (render v) tokens = Some (Inr ?j, toks v 0 0 (-1) @ drop (ntoks v) tokens)"
    using Parse_render [OF assms(1-4)] ntoks_pos [of v] by (simp add: ParseToView_def)
  moreover have "views ?j v"
    unfolding views_def using assms(5)
    by (intro exI [of _ "[]"] exI [of _ "-1"]) simp
  ultimately show ?thesis by blast
qed

subsection \<open>Properties\<close>

text \<open>
  C9: a JSON document written from a value (any nesting of objects and arrays, escapes
  included) is accepted whenever the token array has a slot for each of its nodes, and the view
  of the result answers every path of member and element lookups as the value itself does: the
  same kind, text and size where the path leads somewhere, an invalid view where it does not.
\<close>

theorem json_view_refines_value:
  assumes "wf_val v" and "\<nexists>s. v = JPrim s" and "length (render v) < 2 ^ 31"
    and "ntoks v \<le> length tokens" and "ntoks v < 2 ^ 31"
  shows "\<exists>j ts. ParseToView (render v) tokens = Some (Inr j, ts) \<and>
    (\<forall>p. case lookup v p of
       None \<Rightarrow> \<not> Json_valid (follow j p)
     | Some w \<Rightarrow> Json_valid (follow j p) \<and> Json_type (follow j p) = val_type w \<and>
         Json_raw (follow j p) = val_raw w \<and> Json_size (follow j p) = val_size w)"
proof -
  from ParseToView_views [OF assms] obtain j ts where
    j: "ParseToView (render v) tokens = Some (Inr j, ts)" "views j v" by blast
  have "case lookup v p of
       None \<Rightarrow> \<not> Json_valid (follow j p)
     | Some w \<Rightarrow> Json_valid (follow j p) \<and> Json_type (follow j p) = val_type w \<and>
         Json_raw (follow j p) = val_raw w \<and> Json_size (follow j p) = val_size w" for p
    using views_follow [OF j(2), of p] views_observe views_index(1) by (auto split: option.splits)
  with j(1) show ?thesis by blast
qed

theorem json_view_refines_value_witness:
  "\<exists>j ts. ParseToView (render (JObj [(''a'', JArr [JPrim ''1'', JStr ''x''])])) (replicate 8 Token_init) =
      Some (Inr j, ts) \<and>
    Json_raw (follow j [Key ''a'', Elem 1]) = ''x'' \<and> \<not> Json_valid (follow j [Key ''b''])"
proof -
  let ?v = "JObj [(''a'', JArr [JPrim ''1'', JStr ''x''])]"
  have wf: "wf_val ?v" "\<nexists>s. ?v = JPrim s" "length (render ?v) < 2 ^ 31"
      "ntoks ?v \<le> length (replicate 8 Token_init)" "ntoks ?v < 2 ^ 31"
    by (simp_all add: prim_body_def is_delim_def is_space_def is_control_def)
  from json_view_refines_value [OF wf] obtain j ts where
    j: "ParseToView (render ?v) (replicate 8 Token_init) = Some (Inr j, ts)"
    and p: "\<And>p. case lookup ?v p of
       None \<Rightarrow> \<not> Json_valid (follow j p)
     | Some w \<Rightarrow> Json_valid (follow j p) \<and> Json_type (follow j p) = val_type w \<and>
         Json_raw (follow j p) = val_raw w \<and> Json_size (follow j p) = val_size w"
    by blast
  from p [of "[Key ''a'', Elem 1]"] p [of "[Key ''b'']"] j show ?thesis by auto
qed

end
