(* ===== verification/Events.thy ===== *)
theory Events
  imports Core "HOL-Library.Multiset"
begin

section \<open>Events: the cooperative loop\<close>

text \<open>
  \<open>include/etlx/events/loop.hpp\<close> and \<open>src/events/loop.cpp\<close>. The state holds the immediate queue,
  the timer table, the running flag, the clock and, as \<open>ev_env\<close>, whatever the callbacks act on. A
  callback is a delegate: its code is the application's, so \<open>call\<close>, which runs one against the
  loop, is an argument of the operations. \<open>None\<close> is the outcome of an operation that does not
  return, or that takes the front of an empty queue.
\<close>

definition events_Category :: Category where
  [category_defs]: "events_Category = \<lparr>cat_name = ''events''\<rparr>"

definition events_QueueFull :: Code where "events_QueueFull = 1"
definition events_NoTimers :: Code where "events_NoTimers = 2"

record 'cb TimerEntry =
  te_due :: TimePoint
  te_cb :: 'cb

record ('cb, 'c, 'e) EventLoop =
  ev_clock :: 'c
  ev_immediate :: "'cb list"
  ev_timers :: "'cb TimerEntry list"
  ev_running :: bool
  ev_env :: 'e

subsection \<open>Operations\<close>

definition Post :: "'cb \<Rightarrow> ('cb, 'c, 'e) EventLoop \<Rightarrow> Status \<times> ('cb, 'c, 'e) EventLoop" where
  "Post cb l =
     (if length (ev_immediate l) \<ge> ETLX_EVENTS_QUEUE_DEPTH
      then (Fail events_Category events_QueueFull ''immediate queue full'', l)
      else (Ok, l\<lparr>ev_immediate := ev_immediate l @ [cb]\<rparr>))"

definition PostAfter ::
    "('c \<Rightarrow> TimePoint \<times> 'c) \<Rightarrow> Duration \<Rightarrow> 'cb \<Rightarrow> ('cb, 'c, 'e) EventLoop \<Rightarrow>
     Status \<times> ('cb, 'c, 'e) EventLoop" where
  "PostAfter now delay cb l =
     (if length (ev_timers l) \<ge> ETLX_EVENTS_MAX_TIMERS
      then (Fail events_Category events_QueueFull ''timer table full'', l)
      else (case now (ev_clock l) of (t, c') \<Rightarrow>
        (Ok, l\<lparr>ev_clock := c',
               ev_timers := ev_timers l @ [\<lparr>te_due = tp_add t delay, te_cb = cb\<rparr>]\<rparr>)))"

definition EarliestTimer :: "'cb TimerEntry list \<Rightarrow> int" where
  "EarliestTimer ts =
     foldl (\<lambda>best i. if best < 0 \<or> tp_less (te_due (ts ! i)) (te_due (ts ! nat best))
                     then int i else best) (-1) [0..<length ts]"

text \<open>The batch: as many callbacks as were queued when it began.\<close>

fun run_batch ::
    "('cb \<Rightarrow> ('cb, 'c, 'e) EventLoop \<Rightarrow> ('cb, 'c, 'e) EventLoop) \<Rightarrow> nat \<Rightarrow>
     ('cb, 'c, 'e) EventLoop \<Rightarrow> ('cb, 'c, 'e) EventLoop option" where
  "run_batch call 0 l = Some l"
| "run_batch call (Suc n) l =
     (case ev_immediate l of
        [] \<Rightarrow> None
      | cb # q \<Rightarrow> run_batch call n (call cb (l\<lparr>ev_immediate := q\<rparr>)))"

fun first_due :: "TimePoint \<Rightarrow> 'cb TimerEntry list \<Rightarrow> nat option" where
  "first_due now [] = None"
| "first_due now (t # ts) =
     (if \<not> tp_less now (te_due t) then Some 0 else map_option Suc (first_due now ts))"

definition erase_at :: "nat \<Rightarrow> 'a list \<Rightarrow> 'a list" where
  "erase_at i xs = take i xs @ drop (Suc i) xs"

partial_function (option) fire_timers ::
    "('cb \<Rightarrow> ('cb, 'c, 'e) EventLoop \<Rightarrow> ('cb, 'c, 'e) EventLoop) \<Rightarrow> TimePoint \<Rightarrow> nat \<Rightarrow>
     ('cb, 'c, 'e) EventLoop \<Rightarrow> (nat \<times> ('cb, 'c, 'e) EventLoop) option" where
  "fire_timers call now n l =
     (case first_due now (ev_timers l) of
        None \<Rightarrow> Some (n, l)
      | Some i \<Rightarrow>
          fire_timers call now (n + 1)
            (call (te_cb (ev_timers l ! i)) (l\<lparr>ev_timers := erase_at i (ev_timers l)\<rparr>)))"

definition RunOnce ::
    "('cb \<Rightarrow> ('cb, 'c, 'e) EventLoop \<Rightarrow> ('cb, 'c, 'e) EventLoop) \<Rightarrow> ('c \<Rightarrow> TimePoint \<times> 'c) \<Rightarrow>
     ('cb, 'c, 'e) EventLoop \<Rightarrow> (nat \<times> ('cb, 'c, 'e) EventLoop) option" where
  "RunOnce call now l =
     (let batch = length (ev_immediate l) in
      case run_batch call batch l of
        None \<Rightarrow> None
      | Some l1 \<Rightarrow>
          (case now (ev_clock l1) of (t, c') \<Rightarrow>
             fire_timers call t batch (l1\<lparr>ev_clock := c'\<rparr>)))"

partial_function (option) run_loop ::
    "('cb \<Rightarrow> ('cb, 'c, 'e) EventLoop \<Rightarrow> ('cb, 'c, 'e) EventLoop) \<Rightarrow> ('c \<Rightarrow> TimePoint \<times> 'c) \<Rightarrow>
     (TimePoint \<Rightarrow> 'c \<Rightarrow> 'c) \<Rightarrow> ('cb, 'c, 'e) EventLoop \<Rightarrow> ('cb, 'c, 'e) EventLoop option" where
  "run_loop call now sleep l =
     (if \<not> ev_running l then Some l
      else (case RunOnce call now l of
         None \<Rightarrow> None
       | Some (n, l1) \<Rightarrow>
           if ev_immediate l1 = [] then
             if ev_timers l1 = [] then Some l1
             else run_loop call now sleep (l1\<lparr>ev_clock :=
                    sleep (te_due (ev_timers l1 ! nat (EarliestTimer (ev_timers l1)))) (ev_clock l1)\<rparr>)
           else run_loop call now sleep l1))"

definition Run ::
    "('cb \<Rightarrow> ('cb, 'c, 'e) EventLoop \<Rightarrow> ('cb, 'c, 'e) EventLoop) \<Rightarrow> ('c \<Rightarrow> TimePoint \<times> 'c) \<Rightarrow>
     (TimePoint \<Rightarrow> 'c \<Rightarrow> 'c) \<Rightarrow> ('cb, 'c, 'e) EventLoop \<Rightarrow> ('cb, 'c, 'e) EventLoop option" where
  "Run call now sleep l =
     map_option (\<lambda>l'. l'\<lparr>ev_running := False\<rparr>) (run_loop call now sleep (l\<lparr>ev_running := True\<rparr>))"

definition Stop :: "('cb, 'c, 'e) EventLoop \<Rightarrow> ('cb, 'c, 'e) EventLoop" where
  "Stop l = l\<lparr>ev_running := False\<rparr>"

definition pending_immediate :: "('cb, 'c, 'e) EventLoop \<Rightarrow> nat" where
  "pending_immediate l = length (ev_immediate l)"

definition pending_timers :: "('cb, 'c, 'e) EventLoop \<Rightarrow> nat" where
  "pending_timers l = length (ev_timers l)"

definition loop_idle :: "('cb, 'c, 'e) EventLoop \<Rightarrow> bool" where
  "loop_idle l = (ev_immediate l = [] \<and> ev_timers l = [])"

subsection \<open>The timer table\<close>

lemma EarliestTimer_prefix:
  "n \<le> length ts \<Longrightarrow>
   foldl (\<lambda>best i. if best < 0 \<or> tp_less (te_due (ts ! i)) (te_due (ts ! nat best))
                   then int i else best) (-1) [0..<n] = b \<Longrightarrow>
   (if n = 0 then b = -1
    else 0 \<le> b \<and> nat b < n \<and> (\<forall>j < n. t_ms (te_due (ts ! nat b)) \<le> t_ms (te_due (ts ! j))) \<and>
      (\<forall>j < nat b. t_ms (te_due (ts ! nat b)) < t_ms (te_due (ts ! j))))"
proof (induction n arbitrary: b)
  case (Suc n)
  let ?f = "\<lambda>best i. if best < 0 \<or> tp_less (te_due (ts ! i)) (te_due (ts ! nat best))
                   then int i else best"
  obtain b0 where b0: "foldl ?f (-1) [0..<n] = b0" by blast
  from Suc.IH [OF _ b0] Suc.prems(1) have ih: "if n = 0 then b0 = -1
    else 0 \<le> b0 \<and> nat b0 < n \<and> (\<forall>j < n. t_ms (te_due (ts ! nat b0)) \<le> t_ms (te_due (ts ! j))) \<and>
      (\<forall>j < nat b0. t_ms (te_due (ts ! nat b0)) < t_ms (te_due (ts ! j)))" by simp
  have b: "b = ?f b0 n" using Suc.prems(2) b0 by simp
  show ?case
  proof (cases "n = 0")
    case True
    with ih b show ?thesis by simp
  next
    case False
    with ih b show ?thesis
      by (auto simp: tp_less_def less_Suc_eq not_less intro: le_less_trans less_le_trans)
  qed
qed simp

lemma EarliestTimer_least:
  assumes "ts \<noteq> []"
  shows "0 \<le> EarliestTimer ts" "nat (EarliestTimer ts) < length ts"
    "j < length ts \<Longrightarrow> t_ms (te_due (ts ! nat (EarliestTimer ts))) \<le> t_ms (te_due (ts ! j))"
    "j < nat (EarliestTimer ts) \<Longrightarrow> t_ms (te_due (ts ! nat (EarliestTimer ts))) < t_ms (te_due (ts ! j))"
  using EarliestTimer_prefix [OF order_refl refl, of ts] assms
  by (auto simp: EarliestTimer_def split: if_splits)

lemma first_due_None: "first_due now ts = None \<longleftrightarrow> list_all (\<lambda>t. tp_less now (te_due t)) ts"
  by (induction ts) auto

lemma first_due_Some:
  "first_due now ts = Some i \<Longrightarrow> i < length ts \<and> \<not> tp_less now (te_due (ts ! i)) \<and>
     (\<forall>j < i. tp_less now (te_due (ts ! j)))"
proof (induction ts arbitrary: i)
  case (Cons t ts)
  then show ?case by (cases i) (auto split: if_splits simp: less_Suc_eq_0_disj)
qed simp

lemma sum_erase_at:
  assumes "i < length xs"
  shows "sum_list (map f (erase_at i xs)) + f (xs ! i) = (sum_list (map f xs) :: nat)"
  using arg_cong [OF id_take_nth_drop [OF assms], of "\<lambda>xs. sum_list (map f xs)"]
  by (simp add: erase_at_def)

lemma length_erase_at [simp]: "i < length xs \<Longrightarrow> length (erase_at i xs) = length xs - 1"
  by (simp add: erase_at_def)


subsection \<open>Capacities\<close>

definition loop_wf :: "('cb, 'c, 'e) EventLoop \<Rightarrow> bool" where
  "loop_wf l \<longleftrightarrow> length (ev_immediate l) \<le> ETLX_EVENTS_QUEUE_DEPTH \<and>
     length (ev_timers l) \<le> ETLX_EVENTS_MAX_TIMERS"

lemma Post_wf: "loop_wf l \<Longrightarrow> loop_wf (snd (Post cb l))"
  by (simp add: Post_def loop_wf_def)

lemma PostAfter_wf: "loop_wf l \<Longrightarrow> loop_wf (snd (PostAfter now d cb l))"
  by (simp add: PostAfter_def loop_wf_def split: prod.splits)

subsection \<open>Callbacks that make progress\<close>

text \<open>
  Each callback has a weight. Running one may queue others, but takes more weight off the loop than
  it puts on, so work runs out. It does not shorten the queue and does not turn the clock back.
\<close>

definition load :: "('cb \<Rightarrow> nat) \<Rightarrow> ('cb, 'c, 'e) EventLoop \<Rightarrow> nat" where
  "load w l = sum_list (map w (ev_immediate l)) + sum_list (map (w \<circ> te_cb) (ev_timers l))"

lemma load_erase:
  assumes "i < length (ev_timers l)"
  shows "load w (l\<lparr>ev_timers := erase_at i (ev_timers l)\<rparr>) + w (te_cb (ev_timers l ! i)) = load w l"
  using sum_erase_at [OF assms, of "w \<circ> te_cb"] by (simp add: load_def)

locale loop_client = clock now sleep_until instant
  for now :: "'c \<Rightarrow> TimePoint \<times> 'c" and sleep_until :: "TimePoint \<Rightarrow> 'c \<Rightarrow> 'c"
    and instant :: "'c \<Rightarrow> int" +
  fixes call :: "'cb \<Rightarrow> ('cb, 'c, 'e) EventLoop \<Rightarrow> ('cb, 'c, 'e) EventLoop"
    and w :: "'cb \<Rightarrow> nat"
  assumes call_load: "load w (call cb l) < load w l + w cb"
    and call_queue: "\<exists>q. ev_immediate (call cb l) = ev_immediate l @ q"
    and call_wf: "loop_wf l \<Longrightarrow> loop_wf (call cb l)"
begin

lemma run_batch_returns:
  "n \<le> length (ev_immediate l) \<Longrightarrow>
   \<exists>l'. run_batch call n l = Some l' \<and> load w l' + n \<le> load w l \<and> (loop_wf l \<longrightarrow> loop_wf l')"
proof (induction n arbitrary: l)
  case (Suc n)
  then obtain cb q where q: "ev_immediate l = cb # q" by (cases "ev_immediate l") auto
  let ?l = "call cb (l\<lparr>ev_immediate := q\<rparr>)"
  have "load w (l\<lparr>ev_immediate := q\<rparr>) + w cb = load w l" using q by (simp add: load_def)
  with call_load [of cb "l\<lparr>ev_immediate := q\<rparr>"] have less: "load w ?l < load w l" by simp
  obtain q' where "ev_immediate ?l = q @ q'" using call_queue [of cb "l\<lparr>ev_immediate := q\<rparr>"] by auto
  then have "n \<le> length (ev_immediate ?l)" using Suc.prems q by simp
  from Suc.IH [OF this] obtain l' where l': "run_batch call n ?l = Some l'"
    "load w l' + n \<le> load w ?l" "loop_wf ?l \<longrightarrow> loop_wf l'" by blast
  have "loop_wf l \<Longrightarrow> loop_wf ?l" using q by (intro call_wf) (simp add: loop_wf_def)
  with l' less q show ?case by auto
qed simp

lemma fire_timers_returns:
  "\<exists>m l'. fire_timers call t n l = Some (n + m, l') \<and> load w l' + m \<le> load w l \<and>
     (loop_wf l \<longrightarrow> loop_wf l') \<and> (first_due t (ev_timers l) \<noteq> None \<longrightarrow> 0 < m) \<and>
     first_due t (ev_timers l') = None"
proof (induction "load w l" arbitrary: n l rule: less_induct)
  case less
  show ?case
  proof (cases "first_due t (ev_timers l)")
    case None
    then show ?thesis by (subst fire_timers.simps) (auto intro!: exI [of _ 0])
  next
    case (Some i)
    let ?e = "l\<lparr>ev_timers := erase_at i (ev_timers l)\<rparr>" and ?cb = "te_cb (ev_timers l ! i)"
    have i: "i < length (ev_timers l)" using first_due_Some [OF Some] by blast
    have dec: "load w (call ?cb ?e) < load w l"
      using call_load [of ?cb ?e] load_erase [OF i, of w] by simp
    from less [OF dec, of "n + 1"] obtain m l' where m: "fire_timers call t (n + 1) (call ?cb ?e) = Some (n + 1 + m, l')"
      "load w l' + m \<le> load w (call ?cb ?e)" "loop_wf (call ?cb ?e) \<longrightarrow> loop_wf l'"
      "first_due t (ev_timers l') = None" by blast
    have "loop_wf l \<Longrightarrow> loop_wf (call ?cb ?e)" using i by (intro call_wf) (auto simp: loop_wf_def)
    with m dec Some show ?thesis
      by (subst fire_timers.simps) (auto intro!: exI [of _ "m + 1"])
  qed
qed

lemma RunOnce_returns:
  "\<exists>m l'. RunOnce call now l = Some (m, l') \<and> load w l' + m \<le> load w l \<and> (loop_wf l \<longrightarrow> loop_wf l') \<and>
     (ev_immediate l \<noteq> [] \<longrightarrow> 0 < m) \<and>
     (ev_immediate l = [] \<and> (\<exists>t \<in> set (ev_timers l). t_ms (te_due t) \<le> instant (ev_clock l)) \<longrightarrow> 0 < m)"
proof -
  let ?n = "length (ev_immediate l)"
  from run_batch_returns [OF order_refl] obtain l1 where l1: "run_batch call ?n l = Some l1"
    "load w l1 + ?n \<le> load w l" "loop_wf l \<longrightarrow> loop_wf l1" by blast
  obtain t c where t: "now (ev_clock l1) = (t, c)" by fastforce
  let ?l2 = "l1\<lparr>ev_clock := c\<rparr>"
  from fire_timers_returns [of t ?n ?l2] obtain m l' where m: "fire_timers call t ?n ?l2 = Some (?n + m, l')"
    "load w l' + m \<le> load w ?l2" "loop_wf ?l2 \<longrightarrow> loop_wf l'"
    "first_due t (ev_timers ?l2) \<noteq> None \<longrightarrow> 0 < m" by blast
  have "0 < m" if empty: "ev_immediate l = []" and x: "x \<in> set (ev_timers l)"
    and le: "t_ms (te_due x) \<le> instant (ev_clock l)" for x
  proof -
    have "l1 = l" using l1(1) empty by simp
    with now_reads [OF t] le have "\<not> tp_less t (te_due x)" by (simp add: tp_less_def)
    with x \<open>l1 = l\<close> m(4) show ?thesis by (auto simp: first_due_None list_all_iff)
  qed
  moreover have "load w ?l2 = load w l1" "loop_wf ?l2 = loop_wf l1" by (simp_all add: load_def loop_wf_def)
  ultimately show ?thesis
    using l1 m t by (auto simp: RunOnce_def intro!: exI [of _ "?n + m"])
qed

text \<open>The loop returns, and it returns idle unless it was stopped.\<close>

lemma run_loop_returns:
  "\<exists>l'. run_loop call now sleep_until l = Some l' \<and> (loop_wf l \<longrightarrow> loop_wf l') \<and>
     (ev_running l' \<longrightarrow> loop_idle l')"
proof (induction "2 * load w l + (if ev_immediate l = [] \<and>
      \<not> (\<exists>t \<in> set (ev_timers l). t_ms (te_due t) \<le> instant (ev_clock l)) then 1 else 0)"
    arbitrary: l rule: less_induct)
  case less
  let ?idle = "\<lambda>l. ev_immediate l = [] \<and>
      \<not> (\<exists>t \<in> set (ev_timers l). t_ms (te_due t) \<le> instant (ev_clock l))"
  show ?case
  proof (cases "ev_running l")
    case False
    then show ?thesis by (subst run_loop.simps) auto
  next
    case True
    from RunOnce_returns [of l] obtain m l1 where m: "RunOnce call now l = Some (m, l1)"
      "load w l1 + m \<le> load w l" "loop_wf l \<longrightarrow> loop_wf l1" "\<not> ?idle l \<longrightarrow> 0 < m"
      by blast
    show ?thesis
    proof (cases "ev_immediate l1 = []")
      case False
      then have "2 * load w l1 + (if ?idle l1 then 1 else 0) < 2 * load w l + (if ?idle l then 1 else 0)"
        using m(2,4) by (cases "0 < m") (auto split: if_splits)
      from less [OF this] m True False show ?thesis by (subst run_loop.simps) auto
    next
      case empty: True
      show ?thesis
      proof (cases "ev_timers l1 = []")
        case True
        with m empty \<open>ev_running l\<close> show ?thesis by (subst run_loop.simps) (auto simp: loop_idle_def)
      next
        case False
        let ?t = "ev_timers l1 ! nat (EarliestTimer (ev_timers l1))"
        let ?l2 = "l1\<lparr>ev_clock := sleep_until (te_due ?t) (ev_clock l1)\<rparr>"
        have "?t \<in> set (ev_timers l1)" using EarliestTimer_least(2) [OF False] by simp
        moreover have "t_ms (te_due ?t) \<le> instant (ev_clock ?l2)" by (simp add: sleep_reaches)
        ultimately have "\<not> ?idle ?l2" by auto
        moreover have "load w ?l2 = load w l1" "loop_wf ?l2 = loop_wf l1"
          by (simp_all add: load_def loop_wf_def)
        ultimately have "2 * load w ?l2 + (if ?idle ?l2 then 1 else 0) <
            2 * load w l + (if ?idle l then 1 else 0)"
          using m(2,4) by (cases "0 < m") auto
        from less [OF this] m \<open>ev_running l\<close> empty False \<open>loop_wf ?l2 = loop_wf l1\<close> show ?thesis
          by (subst run_loop.simps) auto
      qed
    qed
  qed
qed

end


subsection \<open>Callbacks that use the loop's own interface\<close>

text \<open>
  A callback's code is a script of calls to the loop; the environment is the trace of the callbacks
  run and the instants they ran at. The clock is the simulated one of the core.
\<close>

datatype 'cb action = APost 'cb | APostAfter Duration 'cb | AStop

type_synonym 'cb sim_loop = "('cb, SimulatedClock, ('cb \<times> int) list) EventLoop"

fun do_action :: "'cb action \<Rightarrow> 'cb sim_loop \<Rightarrow> 'cb sim_loop" where
  "do_action (APost cb) l = snd (Post cb l)"
| "do_action (APostAfter d cb) l = snd (PostAfter SimulatedClock_Now d cb l)"
| "do_action AStop l = Stop l"

definition call_script :: "('cb \<Rightarrow> 'cb action list) \<Rightarrow> 'cb \<Rightarrow> 'cb sim_loop \<Rightarrow> 'cb sim_loop" where
  "call_script script cb l =
     foldl (\<lambda>l a. do_action a l)
       (l\<lparr>ev_env := ev_env l @ [(cb, t_ms (sim_now (ev_clock l)))]\<rparr>) (script cb)"

fun spawns :: "'cb action \<Rightarrow> 'cb list" where
  "spawns (APost cb) = [cb]"
| "spawns (APostAfter d cb) = [cb]"
| "spawns AStop = []"

lemma do_action_facts:
  "load w (do_action a l) \<le> load w l + sum_list (map w (spawns a))"
  "\<exists>q. ev_immediate (do_action a l) = ev_immediate l @ q"
  "loop_wf l \<Longrightarrow> loop_wf (do_action a l)"
  by (cases a; simp add: Post_def PostAfter_def Stop_def load_def loop_wf_def SimulatedClock_Now_def)+

lemma actions_facts:
  "load w (foldl (\<lambda>l a. do_action a l) l as) \<le> load w l + sum_list (map w (concat (map spawns as)))"
  "\<exists>q. ev_immediate (foldl (\<lambda>l a. do_action a l) l as) = ev_immediate l @ q"
  "loop_wf l \<Longrightarrow> loop_wf (foldl (\<lambda>l a. do_action a l) l as)"
proof (induction as arbitrary: l)
  case (Cons a as)
  {
    case 1
    show ?case using Cons.IH(1) [of "do_action a l"] do_action_facts(1) [of w a l] by simp
  next
    case 2
    show ?case using Cons.IH(2) [of "do_action a l"] do_action_facts(2) [of a l] by auto
  next
    case 3
    then show ?case using Cons.IH(3) [of "do_action a l"] do_action_facts(3) [of l a] by simp
  }
qed simp_all

locale scripted =
  fixes script :: "'cb \<Rightarrow> 'cb action list" and w :: "'cb \<Rightarrow> nat"
  assumes spawn_less: "sum_list (map w (concat (map spawns (script cb)))) < w cb"

sublocale scripted \<subseteq> loop_client SimulatedClock_Now SimulatedClock_SleepUntil
    "\<lambda>c. t_ms (sim_now c)" "call_script script" w
proof unfold_locales
  fix cb :: 'cb and l :: "'cb sim_loop"
  let ?l = "l\<lparr>ev_env := ev_env l @ [(cb, t_ms (sim_now (ev_clock l)))]\<rparr>"
  have same: "load w ?l = load w l" "loop_wf ?l = loop_wf l" "ev_immediate ?l = ev_immediate l"
    by (simp_all add: load_def loop_wf_def)
  show "load w (call_script script cb l) < load w l + w cb"
    using actions_facts(1) [of w ?l "script cb"] spawn_less [of cb] same(1)
    by (simp add: call_script_def)
  show "\<exists>q. ev_immediate (call_script script cb l) = ev_immediate l @ q"
    using actions_facts(2) [of ?l "script cb"] same(3) by (simp add: call_script_def)
  show "loop_wf l \<Longrightarrow> loop_wf (call_script script cb l)"
    using actions_facts(3) [of ?l "script cb"] same(2) by (simp add: call_script_def)
qed

context scripted
begin

lemma script_runs:
  "\<exists>l'. run_loop (call_script script) SimulatedClock_Now SimulatedClock_SleepUntil l = Some l' \<and>
     (loop_wf l \<longrightarrow> loop_wf l') \<and> (ev_running l' \<longrightarrow> loop_idle l')"
  by (rule run_loop_returns)

end

text \<open>Callbacks that queue nothing: one-shot timers.\<close>

definition one_shot :: "'cb \<Rightarrow> 'cb action list" where
  "one_shot cb = []"

interpretation one_shots: scripted one_shot "\<lambda>_. 1"
  by unfold_locales (simp add: one_shot_def)

subsection \<open>One-shot timers fire in the order of their deadlines\<close>









subsection \<open>Properties\<close>

text \<open>
  C21: \<open>Run\<close> returns whenever each callback, whatever it posts, stops the loop or schedules, costs
  more than the callbacks it queues; the queue and the timer table stay within their capacities, and
  unless it was stopped nothing is left pending.
\<close>

theorem run_returns:
  fixes w :: "'cb \<Rightarrow> nat"
  assumes "\<forall>cb. sum_list (map w (concat (map spawns (script cb)))) < w cb" and "loop_wf l"
  shows "\<exists>l'. run_loop (call_script script) SimulatedClock_Now SimulatedClock_SleepUntil
      (l\<lparr>ev_running := True\<rparr>) = Some l' \<and>
    Run (call_script script) SimulatedClock_Now SimulatedClock_SleepUntil l =
      Some (l'\<lparr>ev_running := False\<rparr>) \<and>
    loop_wf l' \<and> (ev_running l' \<longrightarrow> loop_idle l')"
proof -
  have "scripted script w" using assms(1) by unfold_locales simp
  from scripted.script_runs [OF this, of "l\<lparr>ev_running := True\<rparr>"] assms(2)
  show ?thesis by (auto simp: Run_def loop_wf_def)
qed

definition demo_script :: "nat \<Rightarrow> nat action list" where
  "demo_script n = (if n = 0 then [] else if n = 1 then [APost 0, APostAfter (Seconds 1) 0] else [AStop])"

theorem run_returns_witness:
  "\<exists>l'. Run (call_script demo_script) SimulatedClock_Now SimulatedClock_SleepUntil
     \<lparr>ev_clock = \<lparr>sim_now = \<lparr>t_ms = 0\<rparr>\<rparr>, ev_immediate = [1, 0], ev_timers = [], ev_running = False,
      ev_env = []\<rparr> = Some l'"
proof -
  let ?w = "\<lambda>n. if n = 0 then 1 else if n = (1::nat) then 3 else (1::nat)"
  let ?l = "\<lparr>ev_clock = \<lparr>sim_now = \<lparr>t_ms = 0\<rparr>\<rparr>, ev_immediate = [1, 0], ev_timers = [],
      ev_running = False, ev_env = []\<rparr>"
  have "\<forall>cb. sum_list (map ?w (concat (map spawns (demo_script cb)))) < ?w cb"
    by (simp add: demo_script_def)
  moreover have "loop_wf ?l" by (simp add: loop_wf_def config_defs)
  ultimately show ?thesis using run_returns [of ?w demo_script ?l] by blast
qed



definition rearming :: "'cb \<Rightarrow> 'cb action list" where
  "rearming cb = [APostAfter (Milliseconds 0) cb]"

lemma rearming_never_done:
  assumes "fire_timers call now n l = Some r" "call = call_script rearming"
    "ev_timers l = [e]" "\<not> tp_less now (te_due e)" "\<not> tp_less now (sim_now (ev_clock l))"
  shows False
proof -
  have "call = call_script rearming \<longrightarrow> (\<forall>e. ev_timers l = [e] \<longrightarrow> \<not> tp_less now (te_due e) \<longrightarrow>
      \<not> tp_less now (sim_now (ev_clock l)) \<longrightarrow> False)"
  proof (rule fire_timers.raw_induct [OF _ assms(1)], intro impI allI)
    fix fire :: "('a \<Rightarrow> 'a sim_loop \<Rightarrow> 'a sim_loop) \<Rightarrow> TimePoint \<Rightarrow> nat \<Rightarrow> 'a sim_loop \<Rightarrow> (nat \<times> 'a sim_loop) option"
    fix call now n r e and l :: "'a sim_loop"
    assume ih: "\<And>call now n l r. fire call now n l = Some r \<Longrightarrow>
        call = call_script rearming \<longrightarrow> (\<forall>e. ev_timers l = [e] \<longrightarrow> \<not> tp_less now (te_due e) \<longrightarrow>
        \<not> tp_less now (sim_now (ev_clock l)) \<longrightarrow> False)"
      and body: "(case first_due now (ev_timers l) of None \<Rightarrow> Some (n, l)
        | Some i \<Rightarrow> fire call now (n + 1) (call (te_cb (ev_timers l ! i))
            (l\<lparr>ev_timers := erase_at i (ev_timers l)\<rparr>))) = Some r"
      and l: "call = call_script rearming" "ev_timers l = [e]" "\<not> tp_less now (te_due e)"
        "\<not> tp_less now (sim_now (ev_clock l))"
    let ?l = "call_script rearming (te_cb e) (l\<lparr>ev_timers := []\<rparr>)"
    have l': "ev_timers ?l = [\<lparr>te_due = tp_add (sim_now (ev_clock l)) (Milliseconds 0), te_cb = te_cb e\<rparr>]"
      "ev_clock ?l = ev_clock l"
      by (simp_all add: call_script_def rearming_def PostAfter_def SimulatedClock_Now_def config_defs)
    have "fire call now (n + 1) ?l = Some r" using body l by (simp add: erase_at_def)
    from ih [OF this] l l' show False by (simp add: tp_less_def tp_add_def Milliseconds_def)
  qed
  with assms show False by blast
qed

text \<open>
  C27: a timer that schedules itself again with no delay keeps \<open>RunOnce\<close> from returning: every pass
  over the table finds it due, for the clock is read only once.
\<close>

theorem zero_delay_timer_diverges:
  assumes "ev_immediate l = []" and "ev_timers l = [e]"
    and "\<not> tp_less (sim_now (ev_clock l)) (te_due e)"
  shows "RunOnce (call_script rearming) SimulatedClock_Now l = None"
proof -
  have "fire_timers (call_script rearming) (sim_now (ev_clock l)) 0 l = None"
  proof (rule ccontr)
    assume "fire_timers (call_script rearming) (sim_now (ev_clock l)) 0 l \<noteq> None"
    then obtain r where "fire_timers (call_script rearming) (sim_now (ev_clock l)) 0 l = Some r" by auto
    from rearming_never_done [OF this refl assms(2,3)] show False by (simp add: tp_less_def)
  qed
  then show ?thesis using assms(1) by (simp add: RunOnce_def SimulatedClock_Now_def)
qed

theorem zero_delay_timer_diverges_witness:
  "RunOnce (call_script rearming) SimulatedClock_Now
     \<lparr>ev_clock = \<lparr>sim_now = \<lparr>t_ms = 5\<rparr>\<rparr>, ev_immediate = [],
      ev_timers = [\<lparr>te_due = \<lparr>t_ms = 5\<rparr>, te_cb = ''tick''\<rparr>], ev_running = True, ev_env = []\<rparr> = None"
  by (rule zero_delay_timer_diverges [where e = "\<lparr>te_due = \<lparr>t_ms = 5\<rparr>, te_cb = ''tick''\<rparr>"]) (simp_all add: tp_less_def)

definition stopping :: "'cb \<Rightarrow> 'cb action list" where
  "stopping cb = [AStop]"

text \<open>
  A callback that stops the loop while a timer is pending does not make \<open>Run\<close> return at once:
  it still sleeps until that timer is due, and then returns without firing it.
\<close>

theorem stop_sleeps_first:
  assumes "ev_immediate l = [cb]" and "ev_timers l = [e]"
    and "tp_less (sim_now (ev_clock l)) (te_due e)"
  shows "\<exists>l'. Run (call_script stopping) SimulatedClock_Now SimulatedClock_SleepUntil l = Some l' \<and>
    sim_now (ev_clock l') = te_due e \<and> ev_timers l' = [e] \<and> map fst (ev_env l') = map fst (ev_env l) @ [cb]"
proof -
  let ?l = "l\<lparr>ev_running := True\<rparr>"
  let ?l1 = "l\<lparr>ev_running := False, ev_immediate := [],
    ev_env := ev_env l @ [(cb, t_ms (sim_now (ev_clock l)))]\<rparr>"
  have none: "first_due (sim_now (ev_clock l)) [e] = None" using assms(3) by simp
  have "RunOnce (call_script stopping) SimulatedClock_Now ?l = Some (1, ?l1)"
    using assms none
    by (simp add: RunOnce_def SimulatedClock_Now_def call_script_def stopping_def Stop_def
        fire_timers.simps)
  moreover have "EarliestTimer [e] = 0" by (simp add: EarliestTimer_def)
  ultimately show ?thesis
    using assms
    by (simp add: Run_def run_loop.simps [of _ _ _ ?l] run_loop.simps [of _ _ _ "?l1\<lparr>ev_clock := _\<rparr>"]
        SimulatedClock_SleepUntil_def)
qed

theorem stop_sleeps_first_witness:
  "\<exists>l'. Run (call_script stopping) SimulatedClock_Now SimulatedClock_SleepUntil
     \<lparr>ev_clock = \<lparr>sim_now = \<lparr>t_ms = 0\<rparr>\<rparr>, ev_immediate = [''stop''],
      ev_timers = [\<lparr>te_due = \<lparr>t_ms = 1000\<rparr>, te_cb = ''late''\<rparr>], ev_running = False, ev_env = []\<rparr> = Some l' \<and>
     sim_now (ev_clock l') = \<lparr>t_ms = 1000\<rparr>"
proof -
  let ?e = "\<lparr>te_due = \<lparr>t_ms = 1000\<rparr>, te_cb = ''late''\<rparr>"
  let ?l = "\<lparr>ev_clock = \<lparr>sim_now = \<lparr>t_ms = 0\<rparr>\<rparr>, ev_immediate = [''stop''], ev_timers = [?e],
      ev_running = False, ev_env = []\<rparr>"
  have "ev_immediate ?l = [''stop'']" "ev_timers ?l = [?e]" "tp_less (sim_now (ev_clock ?l)) (te_due ?e)"
    by (simp_all add: tp_less_def)
  from stop_sleeps_first [OF this] show ?thesis by auto
qed

end
