(* ===== verification/Io.thy ===== *)
theory Io
  imports Core
begin

section \<open>Io: readers, writers and the copy loop\<close>

text \<open>
  \<open>include/etlx/io/io.hpp\<close> and \<open>src/io/io.cpp\<close>. A reader is a state with an operation that
  fills a prefix of the caller's buffer; a writer is a state with an operation that takes a whole
  span or fails. The two interfaces are the locales \<open>reader\<close> and \<open>writer\<close>; the copy loop is
  verified once against them, and the concrete readers and writers interpret them.
\<close>

definition io_Category :: Category where
  [category_defs]: "io_Category = \<lparr>cat_name = ''io''\<rparr>"

definition io_EndOfStream :: Code where "io_EndOfStream = 1"
definition io_ShortWrite :: Code where "io_ShortWrite = 2"
definition io_OutOfRange :: Code where "io_OutOfRange = 3"

subsection \<open>The concrete streams\<close>

record SpanReader =
  sr_data :: bytes
  sr_pos :: nat

definition sr_new :: "bytes \<Rightarrow> SpanReader" where
  "sr_new d = \<lparr>sr_data = d, sr_pos = 0\<rparr>"

definition sr_remaining :: "SpanReader \<Rightarrow> nat" where
  "sr_remaining r = length (sr_data r) - sr_pos r"

definition SpanReader_Read :: "bytes \<Rightarrow> SpanReader \<Rightarrow> nat Result \<times> bytes \<times> SpanReader" where
  "SpanReader_Read dst r =
     (let n = min (length dst) (sr_remaining r) in
      if n > 0
      then (Inr n, memcpy dst 0 (take n (drop (sr_pos r) (sr_data r))), r\<lparr>sr_pos := sr_pos r + n\<rparr>)
      else (Inr n, dst, r))"

record SpanWriter =
  sw_buffer :: bytes
  sw_pos :: nat

definition sw_new :: "bytes \<Rightarrow> SpanWriter" where
  "sw_new b = \<lparr>sw_buffer = b, sw_pos = 0\<rparr>"

definition sw_written :: "SpanWriter \<Rightarrow> nat" where
  "sw_written w = sw_pos w"

definition SpanWriter_Write :: "bytes \<Rightarrow> SpanWriter \<Rightarrow> Status \<times> SpanWriter" where
  "SpanWriter_Write src w =
     (if length src > length (sw_buffer w) - sw_pos w
      then (Fail io_Category io_ShortWrite ''SpanWriter buffer full'', w)
      else (Ok, w\<lparr>sw_buffer := memcpy (sw_buffer w) (sw_pos w) src,
                  sw_pos := sw_pos w + length src\<rparr>))"

record CountingWriter =
  cw_count :: nat

definition CountingWriter_Write :: "bytes \<Rightarrow> CountingWriter \<Rightarrow> Status \<times> CountingWriter" where
  "CountingWriter_Write src w = (Ok, w\<lparr>cw_count := wrap_size (cw_count w + length src)\<rparr>)"

text \<open>The tee holds references to two writers; the model threads both states.\<close>

definition TeeWriter_Write ::
    "(bytes \<Rightarrow> 'a \<Rightarrow> Status \<times> 'a) \<Rightarrow> (bytes \<Rightarrow> 'b \<Rightarrow> Status \<times> 'b) \<Rightarrow>
     bytes \<Rightarrow> 'a \<times> 'b \<Rightarrow> Status \<times> ('a \<times> 'b)" where
  "TeeWriter_Write wa wb src ab =
     (case wa src (fst ab) of
        (Inl e, a') \<Rightarrow> (Inl e, (a', snd ab))
      | (Inr _, a') \<Rightarrow> (case wb src (snd ab) of (st, b') \<Rightarrow> (st, (a', b'))))"

subsection \<open>The copy loop\<close>

text \<open>
  \<open>Copy\<close> runs until the reader reports 0 bytes or one side fails. Nothing in its own text
  bounds it, so it is a partial function whose value \<open>None\<close> means that it does not return.
\<close>

partial_function (option) copy_loop ::
    "(bytes \<Rightarrow> 'r \<Rightarrow> nat Result \<times> bytes \<times> 'r) \<Rightarrow> (bytes \<Rightarrow> 'w \<Rightarrow> Status \<times> 'w) \<Rightarrow>
     nat \<Rightarrow> bytes \<Rightarrow> 'r \<Rightarrow> 'w \<Rightarrow> (nat Result \<times> bytes \<times> 'r \<times> 'w) option" where
  "copy_loop rd wr done_n scratch r w =
     (case rd scratch r of (res, scratch', r') \<Rightarrow>
        (case res of
           Inl e \<Rightarrow> Some (Inl e, scratch', r', w)
         | Inr n \<Rightarrow>
             if n = 0 then Some (Inr done_n, scratch', r', w)
             else (case wr (take n scratch') w of (st, w') \<Rightarrow>
                     (case st of
                        Inl e \<Rightarrow> Some (Inl e, scratch', r', w')
                      | Inr _ \<Rightarrow> copy_loop rd wr (wrap_size (done_n + n)) scratch' r' w'))))"

definition io_Copy ::
    "(bytes \<Rightarrow> 'r \<Rightarrow> nat Result \<times> bytes \<times> 'r) \<Rightarrow> (bytes \<Rightarrow> 'w \<Rightarrow> Status \<times> 'w) \<Rightarrow>
     'r \<Rightarrow> 'w \<Rightarrow> bytes \<Rightarrow> (nat Result \<times> bytes \<times> 'r \<times> 'w) option" where
  "io_Copy rd wr r w scratch =
     (if scratch = []
      then Some (Fail io_Category io_OutOfRange ''Copy needs a non-empty scratch buffer'',
                 scratch, r, w)
      else copy_loop rd wr 0 scratch r w)"

subsection \<open>The reader contract\<close>

text \<open>
  \<open>pending r\<close> is what the reader has still to give. A read that succeeds moves a prefix of it to
  the front of the buffer, whose length it keeps, and answers 0 exactly at the end of the stream.
\<close>

locale reader =
  fixes rd :: "bytes \<Rightarrow> 'r \<Rightarrow> nat Result \<times> bytes \<times> 'r"
    and rinv :: "'r \<Rightarrow> bool"
    and pending :: "'r \<Rightarrow> bytes"
  assumes read_Inr: "rinv r \<Longrightarrow> dst \<noteq> [] \<Longrightarrow> rd dst r = (Inr n, dst', r') \<Longrightarrow>
      rinv r' \<and> length dst' = length dst \<and> n \<le> length dst \<and> n \<le> length (pending r) \<and>
      take n dst' = take n (pending r) \<and> pending r' = drop n (pending r) \<and>
      (n = 0 \<longrightarrow> pending r = [])"

text \<open>A reader over memory never fails.\<close>

locale total_reader = reader +
  assumes read_total: "rinv r \<Longrightarrow> is_ok (fst (rd dst r))"
begin

lemma read_cases:
  assumes "rinv r" "dst \<noteq> []"
  obtains n dst' r' where "rd dst r = (Inr n, dst', r')" "rinv r'" "length dst' = length dst"
    "n \<le> length dst" "n \<le> length (pending r)" "take n dst' = take n (pending r)"
    "pending r' = drop n (pending r)" "n = 0 \<longrightarrow> pending r = []"
proof -
  obtain res dst' r' where rd: "rd dst r = (res, dst', r')" by (cases "rd dst r")
  with read_total [OF assms(1), of dst] obtain n where "res = Inr n" by (cases res) auto
  with rd have "rd dst r = (Inr n, dst', r')" by simp
  from read_Inr [OF assms this] this show thesis by (auto intro: that)
qed

end

subsection \<open>The writer contract\<close>

text \<open>
  \<open>view w\<close> is what the writer has taken so far, \<open>absorb\<close> how a span changes it, \<open>fits\<close>
  whether it has room and \<open>refusal\<close> the codes it fails with when it has none. Absorbing a concatenation is absorbing its parts, so the way a stream is
  cut into chunks does not show in the view.
\<close>

locale writer =
  fixes wr :: "bytes \<Rightarrow> 'w \<Rightarrow> Status \<times> 'w"
    and winv :: "'w \<Rightarrow> bool"
    and view :: "'w \<Rightarrow> 'v"
    and absorb :: "bytes \<Rightarrow> 'v \<Rightarrow> 'v"
    and fits :: "'v \<Rightarrow> bytes \<Rightarrow> bool"
    and refusal :: "Code \<Rightarrow> bool"
  assumes absorb_Nil: "winv w \<Longrightarrow> absorb [] (view w) = view w"
    and absorb_append: "winv w \<Longrightarrow>
      absorb (xs @ ys) (view w) = absorb ys (absorb xs (view w))"
    and fits_Nil: "winv w \<Longrightarrow> fits (view w) []"
    and fits_append: "winv w \<Longrightarrow>
      fits (view w) (xs @ ys) \<longleftrightarrow> fits (view w) xs \<and> fits (absorb xs (view w)) ys"
    and write_fits: "winv w \<Longrightarrow> fits (view w) src \<Longrightarrow>
      \<exists>w'. wr src w = (Inr (), w') \<and> winv w' \<and> view w' = absorb src (view w)"
    and write_full: "winv w \<Longrightarrow> \<not> fits (view w) src \<Longrightarrow>
      \<exists>e w'. wr src w = (Inl e, w') \<and> refusal (code e)"
begin

lemma write_Inr:
  assumes "winv w" "wr src w = (Inr u, w')"
  shows "fits (view w) src" "winv w'" "view w' = absorb src (view w)"
proof -
  from assms write_full [of w src] show "fits (view w) src" by fastforce
  from write_fits [OF assms(1) this] assms(2)
  show "winv w'" "view w' = absorb src (view w)" by auto
qed

end

subsection \<open>Copy, once for every reader and writer\<close>

locale stream_copy = total_reader rd rinv pending + writer wr winv view absorb fits refusal
  for rd :: "bytes \<Rightarrow> 'r \<Rightarrow> nat Result \<times> bytes \<times> 'r"
    and rinv :: "'r \<Rightarrow> bool" and pending :: "'r \<Rightarrow> bytes"
    and wr :: "bytes \<Rightarrow> 'w \<Rightarrow> Status \<times> 'w"
    and winv :: "'w \<Rightarrow> bool" and view :: "'w \<Rightarrow> 'v"
    and absorb :: "bytes \<Rightarrow> 'v \<Rightarrow> 'v" and fits :: "'v \<Rightarrow> bytes \<Rightarrow> bool"
    and refusal :: "Code \<Rightarrow> bool"
begin

lemma copy_loop_fits:
  assumes "rinv r" "winv w" "scratch \<noteq> []" "fits (view w) (pending r)"
  shows "\<exists>s' r' w'. copy_loop rd wr done_n scratch r w =
           Some (Inr (if pending r = [] then done_n else wrap_size (done_n + length (pending r))),
                 s', r', w') \<and>
         pending r' = [] \<and> winv w' \<and> view w' = absorb (pending r) (view w)"
  using assms
proof (induction "length (pending r)" arbitrary: r w scratch done_n rule: less_induct)
  case less
  obtain n s' r' where rd: "rd scratch r = (Inr n, s', r')" "rinv r'" "length s' = length scratch"
    "n \<le> length (pending r)" "take n s' = take n (pending r)"
    "pending r' = drop n (pending r)" "n = 0 \<longrightarrow> pending r = []"
    using less.prems by (auto elim: read_cases)
  show ?case
  proof (cases "n = 0")
    case True
    with rd less.prems absorb_Nil show ?thesis
      by (simp add: copy_loop.simps [of rd wr done_n scratch])
  next
    case False
    let ?chunk = "take n (pending r)"
    have "fits (view w) (?chunk @ drop n (pending r))" using less.prems by simp
    then have f: "fits (view w) ?chunk" "fits (absorb ?chunk (view w)) (drop n (pending r))"
      using fits_append less.prems(2) by blast+
    obtain w' where w': "wr ?chunk w = (Inr (), w')" "winv w'" "view w' = absorb ?chunk (view w)"
      using write_fits [OF less.prems(2) f(1)] by blast
    have "absorb (?chunk @ drop n (pending r)) (view w) = absorb (pending r') (view w')"
      unfolding w'(3) rd(6) by (rule absorb_append [OF less.prems(2)])
    then have ab: "absorb (pending r') (view w') = absorb (pending r) (view w)" by simp
    have step: "copy_loop rd wr done_n scratch r w =
        copy_loop rd wr (wrap_size (done_n + n)) s' r' w'"
      using rd False w' by (simp add: copy_loop.simps [of rd wr done_n scratch])
    have "\<exists>s'' r'' w''. copy_loop rd wr (wrap_size (done_n + n)) s' r' w' =
        Some (Inr (if pending r' = [] then wrap_size (done_n + n)
                   else wrap_size (wrap_size (done_n + n) + length (pending r'))), s'', r'', w'') \<and>
        pending r'' = [] \<and> winv w'' \<and> view w'' = absorb (pending r') (view w')"
      using less.prems rd False f w' by (intro less.hyps) auto
    moreover have "length (pending r) = n + length (pending r')" using rd(4,6) by simp
    then have "(if pending r' = [] then wrap_size (done_n + n)
        else wrap_size (wrap_size (done_n + n) + length (pending r'))) =
        wrap_size (done_n + length (pending r))"
      by (simp add: add.assoc)
    moreover have "pending r \<noteq> []" using rd(4) False by auto
    ultimately show ?thesis using step ab by simp
  qed
qed

lemma copy_loop_full:
  assumes "rinv r" "winv w" "scratch \<noteq> []" "\<not> fits (view w) (pending r)"
  shows "\<exists>e s' r' w'. copy_loop rd wr done_n scratch r w = Some (Inl e, s', r', w') \<and>
    refusal (code e)"
  using assms
proof (induction "length (pending r)" arbitrary: r w scratch done_n rule: less_induct)
  case less
  obtain n s' r' where rd: "rd scratch r = (Inr n, s', r')" "rinv r'" "length s' = length scratch"
    "n \<le> length (pending r)" "take n s' = take n (pending r)"
    "pending r' = drop n (pending r)" "n = 0 \<longrightarrow> pending r = []"
    using less.prems by (auto elim: read_cases)
  have n: "n \<noteq> 0" using rd(7) less.prems(2,4) fits_Nil by auto
  let ?chunk = "take n (pending r)"
  show ?case
  proof (cases "fits (view w) ?chunk")
    case False
    then obtain e w' where "wr ?chunk w = (Inl e, w')" "refusal (code e)"
      using write_full less.prems(2) by blast
    with rd n show ?thesis by (simp add: copy_loop.simps [of rd wr done_n scratch])
  next
    case True
    obtain w' where w': "wr ?chunk w = (Inr (), w')" "winv w'" "view w' = absorb ?chunk (view w)"
      using write_fits [OF less.prems(2) True] by blast
    have "\<not> fits (view w) (?chunk @ drop n (pending r))" using less.prems by simp
    then have "\<not> fits (view w') (pending r')"
      using fits_append [OF less.prems(2)] True w'(3) rd(6) by metis
    then have "\<exists>e s'' r'' w''. copy_loop rd wr (wrap_size (done_n + n)) s' r' w' =
        Some (Inl e, s'', r'', w'') \<and> refusal (code e)"
      using less.prems rd n w' by (intro less.hyps) auto
    with rd n w' show ?thesis by (simp add: copy_loop.simps [of rd wr done_n scratch])
  qed
qed

lemma copy_returns:
  assumes "rinv r" "winv w"
  shows "\<exists>res s' r' w'. io_Copy rd wr r w scratch = Some (res, s', r', w') \<and>
    (is_ok res \<longleftrightarrow> scratch \<noteq> [] \<and> fits (view w) (pending r)) \<and>
    (err_code res = None \<or> (if scratch = [] then err_code res = Some io_OutOfRange
       else (\<exists>c. err_code res = Some c \<and> refusal c)))"
  using copy_loop_fits [OF assms, of scratch 0] copy_loop_full [OF assms, of scratch 0]
  by (cases "scratch = []"; cases "fits (view w) (pending r)")
    (auto simp: io_Copy_def Fail_def)

lemma copy_all:
  assumes "rinv r" "winv w" "scratch \<noteq> []" "fits (view w) (pending r)"
  shows "\<exists>s' r' w'. io_Copy rd wr r w scratch =
           Some (Inr (wrap_size (length (pending r))), s', r', w') \<and>
         pending r' = [] \<and> winv w' \<and> view w' = absorb (pending r) (view w)"
  using copy_loop_fits [OF assms, of 0] assms(3) by (auto simp: io_Copy_def split: if_splits)

end

subsection \<open>The providers\<close>

definition sr_wf :: "SpanReader \<Rightarrow> bool" where
  "sr_wf r \<longleftrightarrow> sr_pos r \<le> length (sr_data r)"

definition sr_pending :: "SpanReader \<Rightarrow> bytes" where
  "sr_pending r = drop (sr_pos r) (sr_data r)"

lemma sr_new_simps [simp]: "sr_wf (sr_new d)" "sr_pending (sr_new d) = d"
  by (simp_all add: sr_wf_def sr_pending_def sr_new_def)

interpretation span_reader: total_reader SpanReader_Read sr_wf sr_pending
proof unfold_locales
  fix r dst n dst' r'
  assume wf: "sr_wf r" and "dst \<noteq> []" and rd: "SpanReader_Read dst r = (Inr n, dst', r')"
  let ?n = "min (length dst) (sr_remaining r)"
  have n: "n = ?n" using rd by (auto simp: SpanReader_Read_def Let_def split: if_splits)
  have len: "length (take n (drop (sr_pos r) (sr_data r))) = n"
    using n by (simp add: sr_remaining_def)
  have "dst' = (if n > 0 then memcpy dst 0 (take n (drop (sr_pos r) (sr_data r))) else dst)"
    and "r' = r\<lparr>sr_pos := sr_pos r + n\<rparr>"
    using rd n by (auto simp: SpanReader_Read_def Let_def split: if_splits)
  with n len wf \<open>dst \<noteq> []\<close> show "sr_wf r' \<and> length dst' = length dst \<and> n \<le> length dst \<and>
      n \<le> length (sr_pending r) \<and> take n dst' = take n (sr_pending r) \<and>
      sr_pending r' = drop n (sr_pending r) \<and> (n = 0 \<longrightarrow> sr_pending r = [])"
    by (auto simp: sr_wf_def sr_pending_def sr_remaining_def memcpy_def add.commute)
next
  fix r dst
  show "is_ok (fst (SpanReader_Read dst r))" by (simp add: SpanReader_Read_def Let_def)
qed

definition sw_wf :: "SpanWriter \<Rightarrow> bool" where
  "sw_wf w \<longleftrightarrow> sw_pos w \<le> length (sw_buffer w)"

definition sw_content :: "SpanWriter \<Rightarrow> bytes" where
  "sw_content w = take (sw_pos w) (sw_buffer w)"

definition sw_view :: "SpanWriter \<Rightarrow> bytes \<times> nat" where
  "sw_view w = (sw_content w, length (sw_buffer w))"

lemma sw_new_simps [simp]:
  "sw_wf (sw_new b)" "sw_content (sw_new b) = []" "sw_view (sw_new b) = ([], length b)"
  by (simp_all add: sw_wf_def sw_content_def sw_view_def sw_new_def)

lemma sw_written_content: "sw_wf w \<Longrightarrow> sw_written w = length (sw_content w)"
  by (simp add: sw_wf_def sw_content_def sw_written_def)

definition sw_absorb :: "bytes \<Rightarrow> bytes \<times> nat \<Rightarrow> bytes \<times> nat" where
  "sw_absorb src v = (fst v @ src, snd v)"

definition sw_fits :: "bytes \<times> nat \<Rightarrow> bytes \<Rightarrow> bool" where
  "sw_fits v src \<longleftrightarrow> length (fst v) + length src \<le> snd v"

lemmas sw_contract_defs = sw_wf_def sw_content_def sw_view_def sw_absorb_def sw_fits_def

interpretation span_writer: writer SpanWriter_Write sw_wf sw_view sw_absorb sw_fits "\<lambda>c. c = io_ShortWrite"
  by unfold_locales
    (auto simp: SpanWriter_Write_def sw_contract_defs Fail_def buffer_simps)

definition cw_absorb :: "bytes \<Rightarrow> nat \<Rightarrow> nat" where
  "cw_absorb src n = wrap_size (n + length src)"

definition cw_wf :: "CountingWriter \<Rightarrow> bool" where
  "cw_wf w \<longleftrightarrow> cw_count w < 2 ^ 64"

interpretation counting_writer: writer CountingWriter_Write cw_wf cw_count cw_absorb "\<lambda>_ _. True" "\<lambda>_. False"
  by unfold_locales
    (auto simp: CountingWriter_Write_def cw_absorb_def cw_wf_def wrap_size_def mod_simps
       add.assoc)

text \<open>A tee over two writers that keep the contract keeps it: it fits what both fit.\<close>

locale tee_of = a: writer wa inva viewa absorba fitsa ra + b: writer wb invb viewb absorbb fitsb rb
  for wa :: "bytes \<Rightarrow> 'a \<Rightarrow> Status \<times> 'a" and inva :: "'a \<Rightarrow> bool" and viewa :: "'a \<Rightarrow> 'va"
    and absorba :: "bytes \<Rightarrow> 'va \<Rightarrow> 'va" and fitsa :: "'va \<Rightarrow> bytes \<Rightarrow> bool"
    and ra :: "Code \<Rightarrow> bool"
    and wb :: "bytes \<Rightarrow> 'b \<Rightarrow> Status \<times> 'b" and invb :: "'b \<Rightarrow> bool" and viewb :: "'b \<Rightarrow> 'vb"
    and absorbb :: "bytes \<Rightarrow> 'vb \<Rightarrow> 'vb" and fitsb :: "'vb \<Rightarrow> bytes \<Rightarrow> bool"
    and rb :: "Code \<Rightarrow> bool"

definition tee_inv :: "('a \<Rightarrow> bool) \<Rightarrow> ('b \<Rightarrow> bool) \<Rightarrow> 'a \<times> 'b \<Rightarrow> bool" where
  "tee_inv ia ib ab \<longleftrightarrow> ia (fst ab) \<and> ib (snd ab)"

definition tee_absorb ::
    "(bytes \<Rightarrow> 'va \<Rightarrow> 'va) \<Rightarrow> (bytes \<Rightarrow> 'vb \<Rightarrow> 'vb) \<Rightarrow> bytes \<Rightarrow> 'va \<times> 'vb \<Rightarrow> 'va \<times> 'vb" where
  "tee_absorb fa fb src = map_prod (fa src) (fb src)"

definition tee_fits ::
    "('va \<Rightarrow> bytes \<Rightarrow> bool) \<Rightarrow> ('vb \<Rightarrow> bytes \<Rightarrow> bool) \<Rightarrow> 'va \<times> 'vb \<Rightarrow> bytes \<Rightarrow> bool" where
  "tee_fits fa fb v src \<longleftrightarrow> fa (fst v) src \<and> fb (snd v) src"

sublocale tee_of \<subseteq> tee: writer "TeeWriter_Write wa wb" "tee_inv inva invb" "map_prod viewa viewb"
    "tee_absorb absorba absorbb" "tee_fits fitsa fitsb" "\<lambda>c. ra c \<or> rb c"
proof (unfold_locales, goal_cases)
  case (5 w src)
  then obtain w1 w2 where "wa src (fst w) = (Inr (), w1)" "inva w1"
      "viewa w1 = absorba src (viewa (fst w))" "wb src (snd w) = (Inr (), w2)" "invb w2"
      "viewb w2 = absorbb src (viewb (snd w))"
    using a.write_fits [of "fst w" src] b.write_fits [of "snd w" src]
    by (auto simp: tee_inv_def tee_fits_def)
  then show ?case
    by (auto simp: TeeWriter_Write_def tee_inv_def tee_absorb_def map_prod_def split: prod.splits)
next
  case (6 w src)
  show ?case
  proof (cases "fitsa (viewa (fst w)) src")
    case True
    with 6 have "\<not> fitsb (viewb (snd w)) src" by (simp add: tee_fits_def)
    with 6 True show ?thesis
      using a.write_fits [of "fst w" src] b.write_full [of "snd w" src]
      by (auto simp: TeeWriter_Write_def tee_inv_def)
  next
    case False
    with 6 show ?thesis
      using a.write_full [of "fst w" src] by (auto simp: TeeWriter_Write_def tee_inv_def)
  qed
qed (auto simp: tee_inv_def tee_absorb_def tee_fits_def a.absorb_Nil b.absorb_Nil
       a.absorb_append b.absorb_append a.fits_Nil b.fits_Nil a.fits_append b.fits_append)

interpretation tee_span_count: tee_of SpanWriter_Write sw_wf sw_view sw_absorb sw_fits
    "\<lambda>c. c = io_ShortWrite"
    CountingWriter_Write cw_wf cw_count cw_absorb "\<lambda>_ _. True" "\<lambda>_. False"
  by unfold_locales

interpretation span_to_tee: stream_copy SpanReader_Read sr_wf sr_pending
    "TeeWriter_Write SpanWriter_Write CountingWriter_Write" "tee_inv sw_wf cw_wf"
    "map_prod sw_view cw_count" "tee_absorb sw_absorb cw_absorb" "tee_fits sw_fits (\<lambda>_ _. True)"
    "\<lambda>c. c = io_ShortWrite \<or> False"
  by unfold_locales

interpretation span_to_span: stream_copy SpanReader_Read sr_wf sr_pending
    SpanWriter_Write sw_wf sw_view sw_absorb sw_fits "\<lambda>c. c = io_ShortWrite"
  by unfold_locales

subsection \<open>Properties\<close>

definition cw_new :: CountingWriter where
  "cw_new = \<lparr>cw_count = 0\<rparr>"

lemma cw_new_simps [simp]: "cw_wf cw_new" "cw_count cw_new = 0"
  by (simp_all add: cw_wf_def cw_new_def)

text \<open>The copy loop over this tee, for every program that uses it.\<close>

lemma span_tee_copies:
  assumes "scratch \<noteq> []" and "length data \<le> length buf"
  shows "\<exists>scratch' r w c.
    io_Copy SpanReader_Read (TeeWriter_Write SpanWriter_Write CountingWriter_Write)
      (sr_new data) (sw_new buf, cw_new) scratch =
      Some (Inr (wrap_size (length data)), scratch', r, (w, c)) \<and>
    sw_content w = data \<and> sw_written w = length data \<and> cw_count c = wrap_size (length data) \<and>
    sr_remaining r = 0"
proof -
  have fits: "tee_fits sw_fits (\<lambda>_ _. True) (map_prod sw_view cw_count (sw_new buf, cw_new))
      (sr_pending (sr_new data))"
    using assms(2) by (simp add: tee_fits_def sw_fits_def)
  have inv: "tee_inv sw_wf cw_wf (sw_new buf, cw_new)" by (simp add: tee_inv_def)
  from span_to_tee.copy_all [OF _ inv assms(1) fits] obtain scratch' r w c where
    run: "io_Copy SpanReader_Read (TeeWriter_Write SpanWriter_Write CountingWriter_Write)
        (sr_new data) (sw_new buf, cw_new) scratch =
        Some (Inr (wrap_size (length data)), scratch', r, (w, c))"
    and drained: "sr_pending r = []" and wf: "tee_inv sw_wf cw_wf (w, c)"
    and view: "map_prod sw_view cw_count (w, c) =
        tee_absorb sw_absorb cw_absorb data (map_prod sw_view cw_count (sw_new buf, cw_new))"
    by auto
  have "sw_content w = data" "cw_count c = wrap_size (length data)"
    using view by (auto simp: tee_absorb_def sw_view_def sw_absorb_def cw_absorb_def sw_new_def
        sw_content_def)
  with run drained wf show ?thesis
    by (auto simp: tee_inv_def sw_written_content sr_pending_def sr_remaining_def)
qed

text \<open>
  Copying a memory reader into a tee over a span writer and a counter, through any non-empty
  scratch buffer, returns, moves every byte in order into the span, counts them all and leaves the
  reader drained, provided the bytes fit the span.
\<close>

theorem copy_through_tee:
  assumes "scratch \<noteq> []" and "length data \<le> length buf"
  shows "\<exists>scratch' r w c.
    io_Copy SpanReader_Read (TeeWriter_Write SpanWriter_Write CountingWriter_Write)
      (sr_new data) (sw_new buf, cw_new) scratch =
      Some (Inr (wrap_size (length data)), scratch', r, (w, c)) \<and>
    sw_content w = data \<and> sw_written w = length data \<and> cw_count c = wrap_size (length data) \<and>
    sr_remaining r = 0"
  using assms by (rule span_tee_copies)

theorem copy_through_tee_witness:
  "\<exists>scratch' r w c.
    io_Copy SpanReader_Read (TeeWriter_Write SpanWriter_Write CountingWriter_Write)
      (sr_new [1, 2, 3]) (sw_new [0, 0, 0, 0], cw_new) [0, 0] =
      Some (Inr 3, scratch', r, (w, c)) \<and> sw_content w = [1, 2, 3]"
  using copy_through_tee [of "[0, 0]" "[1, 2, 3]" "[0, 0, 0, 0]"] by (auto simp: wrap_size_def)

text \<open>
  Copying between memory streams always returns; it succeeds exactly when the scratch buffer
  is not empty and the bytes fit, and otherwise reports \<open>OutOfRange\<close> or \<open>ShortWrite\<close>.
\<close>

theorem copy_between_spans_returns:
  "\<exists>res scratch' r w.
    io_Copy SpanReader_Read SpanWriter_Write (sr_new data) (sw_new buf) scratch =
      Some (res, scratch', r, w) \<and>
    err_code res =
      (if scratch = [] then Some io_OutOfRange
       else if length data \<le> length buf then None else Some io_ShortWrite)"
proof -
  obtain res scratch' r w where
    1: "io_Copy SpanReader_Read SpanWriter_Write (sr_new data) (sw_new buf) scratch =
         Some (res, scratch', r, w)" and
    2: "is_ok res \<longleftrightarrow> scratch \<noteq> [] \<and> sw_fits (sw_view (sw_new buf)) (sr_pending (sr_new data))" and
    3: "err_code res = None \<or> (if scratch = [] then err_code res = Some io_OutOfRange
         else (\<exists>c. err_code res = Some c \<and> c = io_ShortWrite))"
    using span_to_span.copy_returns [OF sr_new_simps(1) sw_new_simps(1), of data buf scratch]
    by blast
  from 1 2 3 show ?thesis by (cases res) (auto simp: sw_fits_def split: if_splits)
qed

end
