(* ===== verification/Crypto.thy ===== *)
theory Crypto
  imports Io
begin

section \<open>Crypto: the hasher contract, constant-time comparison, hashing a stream\<close>

text \<open>
  \<open>include/etlx/crypto/crypto.hpp\<close>, \<open>stream.hpp\<close> and \<open>src/crypto/crypto.cpp\<close>. The interface
  \<open>Hasher\<close> is the locale \<open>hasher\<close>; the writer that feeds a hasher keeps the contract of a
  writer, so that the copy loop of \<open>Io\<close> gives the digest of a whole stream. \<open>Sha256\<close> and
  \<open>Hmac\<close> interpret the locale.
\<close>

definition crypto_Category :: Category where
  [category_defs]: "crypto_Category = \<lparr>cat_name = ''crypto''\<rparr>"

definition crypto_BadState :: Code where "crypto_BadState = 1"
definition crypto_VerifyFailed :: Code where "crypto_VerifyFailed = 2"
definition crypto_RandomFailed :: Code where "crypto_RandomFailed = 3"

definition kSha256DigestSize :: nat where
  [config_defs]: "kSha256DigestSize = 32"

subsection \<open>Comparison\<close>

text \<open>The difference of all byte pairs is accumulated; only the lengths decide early.\<close>

fun diff_loop :: "u8 \<Rightarrow> bytes \<Rightarrow> bytes \<Rightarrow> u8" where
  "diff_loop diff (a # as) (b # bs) = diff_loop (or diff (xor a b)) as bs"
| "diff_loop diff _ _ = diff"

definition ConstTimeEqual :: "bytes \<Rightarrow> bytes \<Rightarrow> bool" where
  "ConstTimeEqual a b = (if length a \<noteq> length b then False else diff_loop 0 a b = 0)"

lemma xor_zero_iff: "xor a b = 0 \<longleftrightarrow> a = (b :: 'a::len word)"
proof
  assume "xor a b = 0"
  then have "xor (xor a b) b = b" by simp
  then show "a = b" by (simp add: xor.assoc)
qed simp

lemma diff_loop_zero:
  "length as = length bs \<Longrightarrow> diff_loop d as bs = 0 \<longleftrightarrow> d = 0 \<and> as = bs"
  by (induction d as bs rule: diff_loop.induct)
    (simp_all add: or_eq_0_iff xor_zero_iff)

lemma ConstTimeEqual_iff [simp]: "ConstTimeEqual a b \<longleftrightarrow> a = b"
  by (auto simp: ConstTimeEqual_def diff_loop_zero)

subsection \<open>The hasher contract\<close>

text \<open>
  \<open>live h\<close> says that the hasher still takes data, \<open>view h\<close> what it remembers of what it has
  taken. \<open>Update\<close> absorbs a span and \<open>Final\<close> gives the digest of the view and ends the
  hasher's life: from then on both operations answer \<open>BadState\<close> and change nothing. \<open>Final\<close> has
  a loop of its own, so its value is an option.
\<close>

locale hasher =
  fixes update :: "bytes \<Rightarrow> 'h \<Rightarrow> Status \<times> 'h"
    and final :: "'h \<Rightarrow> (bytes Result \<times> 'h) option"
    and live :: "'h \<Rightarrow> bool"
    and dead :: "'h \<Rightarrow> bool"
    and view :: "'h \<Rightarrow> 'v"
    and absorb :: "bytes \<Rightarrow> 'v \<Rightarrow> 'v"
    and digest :: "'v \<Rightarrow> bytes"
  assumes absorb_none: "live h \<Longrightarrow> absorb [] (view h) = view h"
    and absorb_concat: "live h \<Longrightarrow>
      absorb (xs @ ys) (view h) = absorb ys (absorb xs (view h))"
    and update_live: "live h \<Longrightarrow>
      \<exists>h'. update bs h = (Inr (), h') \<and> live h' \<and> view h' = absorb bs (view h)"
    and final_live: "live h \<Longrightarrow> \<exists>h'. final h = Some (Inr (digest (view h)), h') \<and> dead h'"
    and update_dead: "dead h \<Longrightarrow>
      \<exists>e. update bs h = (Inl e, h) \<and> code e = crypto_BadState"
    and final_dead: "dead h \<Longrightarrow>
      \<exists>e. final h = Some (Inl e, h) \<and> code e = crypto_BadState"

text \<open>A sequence of updates.\<close>

fun update_all :: "(bytes \<Rightarrow> 'h \<Rightarrow> Status \<times> 'h) \<Rightarrow> bytes list \<Rightarrow> 'h \<Rightarrow> 'h" where
  "update_all update [] h = h"
| "update_all update (bs # bss) h = update_all update bss (snd (update bs h))"

context hasher
begin

lemma update_all_view:
  assumes "live h"
  shows "live (update_all update bss h) \<and>
    view (update_all update bss h) = absorb (concat bss) (view h)"
  using assms
proof (induction bss arbitrary: h)
  case Nil
  then show ?case by (simp add: absorb_none)
next
  case (Cons bs bss)
  from update_live [OF Cons.prems, of bs] obtain h' where
    "update bs h = (Inr (), h')" "live h'" "view h' = absorb bs (view h)" by blast
  with Cons.IH [of h'] Cons.prems show ?case by (simp add: absorb_concat)
qed

text \<open>The digest depends on the bytes only, not on how they were cut into updates.\<close>

lemma chunks_irrelevant:
  assumes "live h"
  shows "\<exists>h'. final (update_all update bss h) =
    Some (Inr (digest (absorb (concat bss) (view h))), h') \<and> dead h'"
  using final_live update_all_view [OF assms, of bss] by metis

end

subsection \<open>Hashing a stream\<close>

text \<open>The writer holds a reference to the hasher; its state is the hasher's.\<close>

definition HasherWriter_Write :: "(bytes \<Rightarrow> 'h \<Rightarrow> Status \<times> 'h) \<Rightarrow> bytes \<Rightarrow> 'h \<Rightarrow> Status \<times> 'h" where
  "HasherWriter_Write update src h = update src h"

definition HashStream ::
    "(bytes \<Rightarrow> 'r \<Rightarrow> nat Result \<times> bytes \<times> 'r) \<Rightarrow> (bytes \<Rightarrow> 'h \<Rightarrow> Status \<times> 'h) \<Rightarrow>
     ('h \<Rightarrow> (bytes Result \<times> 'h) option) \<Rightarrow> 'r \<Rightarrow> 'h \<Rightarrow> bytes \<Rightarrow>
     (bytes Result \<times> bytes \<times> 'r \<times> 'h) option" where
  "HashStream rd update final src h scratch =
     (case io_Copy rd (HasherWriter_Write update) src h scratch of
        None \<Rightarrow> None
      | Some (Inl e, scratch', src', h') \<Rightarrow> Some (Inl e, scratch', src', h')
      | Some (Inr n, scratch', src', h') \<Rightarrow>
          (case final h' of
             None \<Rightarrow> None
           | Some (d, h'') \<Rightarrow> Some (d, scratch', src', h'')))"

sublocale hasher \<subseteq> sink: writer "HasherWriter_Write update" live view absorb "\<lambda>_ _. True" "\<lambda>_. False"
  by unfold_locales
    (auto simp: HasherWriter_Write_def absorb_none absorb_concat update_live)

locale hash_stream = total_reader rd rinv pending + hasher update final live dead view absorb digest
  for rd :: "bytes \<Rightarrow> 'r \<Rightarrow> nat Result \<times> bytes \<times> 'r"
    and rinv :: "'r \<Rightarrow> bool" and pending :: "'r \<Rightarrow> bytes"
    and update :: "bytes \<Rightarrow> 'h \<Rightarrow> Status \<times> 'h"
    and final :: "'h \<Rightarrow> (bytes Result \<times> 'h) option"
    and live :: "'h \<Rightarrow> bool" and dead :: "'h \<Rightarrow> bool" and view :: "'h \<Rightarrow> 'v"
    and absorb :: "bytes \<Rightarrow> 'v \<Rightarrow> 'v" and digest :: "'v \<Rightarrow> bytes"

sublocale hash_stream \<subseteq> feed: stream_copy rd rinv pending "HasherWriter_Write update" live view
    absorb "\<lambda>_ _. True" "\<lambda>_. False"
  by unfold_locales

context hash_stream
begin

lemma stream_digest:
  assumes "rinv r" "live h" "scratch \<noteq> []"
  shows "\<exists>scratch' r' h'. HashStream rd update final r h scratch =
      Some (Inr (digest (absorb (pending r) (view h))), scratch', r', h') \<and>
    pending r' = [] \<and> dead h'"
proof -
  from feed.copy_all [OF assms] obtain s' r' h' where
    "io_Copy rd (HasherWriter_Write update) r h scratch =
       Some (Inr (wrap_size (length (pending r))), s', r', h')"
    "pending r' = []" "live h'" "view h' = absorb (pending r) (view h)" by auto
  with final_live [of h'] show ?thesis by (auto simp: HashStream_def)
qed

end

end
