(* ===== verification/Sha256.thy ===== *)
theory Sha256
  imports Crypto
begin

section \<open>Sha256: the software hash\<close>

text \<open>
  \<open>include/etlx/crypto/sha256.hpp\<close> and \<open>src/crypto/sha256.cpp\<close>. The state has the members of
  the class; the 64-byte buffer is not initialised by the constructor, so the initial contents are an
  argument. Beside the code stands the hash of FIPS 180-4 (message schedule by recursion, rotation
  as \<open>word_rotr\<close>, padding of the whole message), and the code is shown to refine it.
\<close>

unbundle bit_operations_syntax

subsection \<open>The code\<close>

text \<open>The table, in the rows of the source.\<close>

definition K :: "u32 list" where
  "K = concat [
     [0x428a2f98, 0x71374491, 0xb5c0fbcf, 0xe9b5dba5, 0x3956c25b, 0x59f111f1],
     [0x923f82a4, 0xab1c5ed5, 0xd807aa98, 0x12835b01, 0x243185be, 0x550c7dc3],
     [0x72be5d74, 0x80deb1fe, 0x9bdc06a7, 0xc19bf174, 0xe49b69c1, 0xefbe4786],
     [0x0fc19dc6, 0x240ca1cc, 0x2de92c6f, 0x4a7484aa, 0x5cb0a9dc, 0x76f988da],
     [0x983e5152, 0xa831c66d, 0xb00327c8, 0xbf597fc7, 0xc6e00bf3, 0xd5a79147],
     [0x06ca6351, 0x14292967, 0x27b70a85, 0x2e1b2138, 0x4d2c6dfc, 0x53380d13],
     [0x650a7354, 0x766a0abb, 0x81c2c92e, 0x92722c85, 0xa2bfe8a1, 0xa81a664b],
     [0xc24b8b70, 0xc76c51a3, 0xd192e819, 0xd6990624, 0xf40e3585, 0x106aa070],
     [0x19a4c116, 0x1e376c08, 0x2748774c, 0x34b0bcb5, 0x391c0cb3, 0x4ed8aa4a],
     [0x5b9cca4f, 0x682e6ff3, 0x748f82ee, 0x78a5636f, 0x84c87814, 0x8cc70208],
     [0x90befffa, 0xa4506ceb, 0xbef9a3f7, 0xc67178f2]]"

definition Ror :: "u32 \<Rightarrow> nat \<Rightarrow> u32" where
  "Ror x n = (drop_bit n x OR push_bit (32 - n) x)"

record Sha256 =
  sha_state :: "u32 list"
  sha_bitlen :: u64
  sha_buffer :: bytes
  sha_buffered :: nat
  sha_finalized :: bool

definition sha_Reset :: "Sha256 \<Rightarrow> Sha256" where
  "sha_Reset s = s\<lparr>
     sha_state := [0x6a09e667, 0xbb67ae85, 0x3c6ef372, 0xa54ff53a,
                   0x510e527f, 0x9b05688c, 0x1f83d9ab, 0x5be0cd19],
     sha_bitlen := 0,
     sha_buffered := 0,
     sha_finalized := False\<rparr>"

text \<open>The constructor: \<open>junk\<close> is what the uninitialised members hold.\<close>

definition sha_new :: "u32 list \<Rightarrow> bytes \<Rightarrow> Sha256" where
  "sha_new junk_state junk = sha_Reset
     \<lparr>sha_state = junk_state, sha_bitlen = 0, sha_buffer = junk, sha_buffered = 0,
      sha_finalized = False\<rparr>"

text \<open>The first 16 words are read big-endian; the other 48 are appended one by one.\<close>

definition load_word :: "bytes \<Rightarrow> nat \<Rightarrow> u32" where
  "load_word block i =
     (push_bit 24 (ucast (block ! (i * 4))) OR push_bit 16 (ucast (block ! (i * 4 + 1))) OR
      push_bit 8 (ucast (block ! (i * 4 + 2))) OR ucast (block ! (i * 4 + 3)))"

definition extend_word :: "u32 list \<Rightarrow> nat \<Rightarrow> u32" where
  "extend_word w i =
     (let s0 = Ror (w ! (i - 15)) 7 XOR Ror (w ! (i - 15)) 18 XOR drop_bit 3 (w ! (i - 15));
          s1 = Ror (w ! (i - 2)) 17 XOR Ror (w ! (i - 2)) 19 XOR drop_bit 10 (w ! (i - 2)) in
      w ! (i - 16) + s0 + w ! (i - 7) + s1)"

definition schedule :: "bytes \<Rightarrow> u32 list" where
  "schedule block =
     foldl (\<lambda>w i. w @ [extend_word w i]) (map (load_word block) [0..<16]) [16..<64]"

type_synonym vars = "u32 \<times> u32 \<times> u32 \<times> u32 \<times> u32 \<times> u32 \<times> u32 \<times> u32"

definition sha_round :: "u32 list \<Rightarrow> vars \<Rightarrow> nat \<Rightarrow> vars" where
  "sha_round w v i =
     (case v of (a, b, c, d, e, f, g, h) \<Rightarrow>
        let S1 = Ror e 6 XOR Ror e 11 XOR Ror e 25;
            ch = (e AND f) XOR (NOT e AND g);
            temp1 = h + S1 + ch + K ! i + w ! i;
            S0 = Ror a 2 XOR Ror a 13 XOR Ror a 22;
            maj = (a AND b) XOR (a AND c) XOR (b AND c);
            temp2 = S0 + maj in
        (temp1 + temp2, a, b, c, d + temp1, e, f, g))"

definition load_vars :: "u32 list \<Rightarrow> vars" where
  "load_vars st = (st ! 0, st ! 1, st ! 2, st ! 3, st ! 4, st ! 5, st ! 6, st ! 7)"

definition vars_list :: "vars \<Rightarrow> u32 list" where
  "vars_list v = (case v of (a, b, c, d, e, f, g, h) \<Rightarrow> [a, b, c, d, e, f, g, h])"

definition Compress :: "bytes \<Rightarrow> Sha256 \<Rightarrow> Sha256" where
  "Compress block s =
     (let w = schedule block;
          v = foldl (sha_round w) (load_vars (sha_state s)) [0..<64] in
      s\<lparr>sha_state := map2 (+) (sha_state s) (vars_list v)\<rparr>)"

text \<open>\<open>buffer_[buffered_++] = x\<close>\<close>

definition push_byte :: "u8 \<Rightarrow> Sha256 \<Rightarrow> Sha256" where
  "push_byte x s = s\<lparr>sha_buffer := (sha_buffer s)[sha_buffered s := x],
                     sha_buffered := sha_buffered s + 1\<rparr>"

fun drain_loop :: "bytes \<Rightarrow> Sha256 \<Rightarrow> bytes \<times> Sha256" where
  "drain_loop [] s = ([], s)"
| "drain_loop (x # p) s =
     (if sha_buffered s < 64 then drain_loop p (push_byte x s) else (x # p, s))"

function block_loop :: "bytes \<Rightarrow> Sha256 \<Rightarrow> bytes \<times> Sha256" where
  "block_loop p s =
     (if length p \<ge> 64 then block_loop (drop 64 p) (Compress (take 64 p) s) else (p, s))"
  by pat_completeness auto
termination by (relation "measure (\<lambda>(p, _). length p)") auto

declare block_loop.simps [simp del]

definition sha_Update :: "bytes \<Rightarrow> Sha256 \<Rightarrow> Status \<times> Sha256" where
  "sha_Update p s =
     (if sha_finalized s then (Fail crypto_Category crypto_BadState ''Update after Final'', s)
      else
        let s = s\<lparr>sha_bitlen := sha_bitlen s + word_of_nat (length p) * 8\<rparr>;
            (p, s) =
              (if sha_buffered s > 0
               then (case drain_loop p s of (p, s) \<Rightarrow>
                       (p, if sha_buffered s = 64
                           then (Compress (sha_buffer s) s)\<lparr>sha_buffered := 0\<rparr> else s))
               else (p, s));
            (p, s) = block_loop p s in
        (Ok, fold push_byte p s))"

text \<open>The padding loop stops when the buffer holds 56 bytes, which nothing in its text bounds.\<close>

partial_function (option) pad_loop :: "Sha256 \<Rightarrow> Sha256 option" where
  "pad_loop s = (if sha_buffered s = 56 then Some s else pad_loop (snd (sha_Update [0] s)))"

definition len_byte :: "u64 \<Rightarrow> nat \<Rightarrow> u8" where
  "len_byte bits i = ucast (drop_bit (56 - 8 * i) bits AND 0xFF)"

definition out_word :: "u32 \<Rightarrow> bytes" where
  "out_word w = [ucast (drop_bit 24 w AND 0xFF), ucast (drop_bit 16 w AND 0xFF),
                 ucast (drop_bit 8 w AND 0xFF), ucast (w AND 0xFF)]"

definition sha_Final :: "Sha256 \<Rightarrow> (bytes Result \<times> Sha256) option" where
  "sha_Final s =
     (if sha_finalized s then Some (Fail crypto_Category crypto_BadState ''already finalized'', s)
      else
        let bits = sha_bitlen s;
            s = snd (sha_Update [0x80] s) in
        (case pad_loop s of
           None \<Rightarrow> None
         | Some s \<Rightarrow>
             let s = fold push_byte (map (len_byte bits) [0..<8]) s;
                 s = (Compress (sha_buffer s) s)\<lparr>sha_buffered := 0\<rparr>;
                 out = concat (map out_word (sha_state s)) in
             Some (Inr out, s\<lparr>sha_finalized := True\<rparr>)))"

text \<open>
  \<open>Hash\<close> takes the value of the result of \<open>Final\<close>, which has none after an error: \<open>None\<close>.
\<close>

definition sha_Hash :: "u32 list \<Rightarrow> bytes \<Rightarrow> bytes \<Rightarrow> bytes option" where
  "sha_Hash junk_state junk p =
     (case sha_Final (snd (sha_Update p (sha_new junk_state junk))) of
        Some (Inr out, _) \<Rightarrow> Some out
      | _ \<Rightarrow> None)"

subsection \<open>Byte order and rotation\<close>

definition be_word :: "bytes \<Rightarrow> 'a::len word" where
  "be_word bs = foldl (\<lambda>a b. a * 256 + ucast b) 0 bs"

definition be_bytes :: "nat \<Rightarrow> 'a::len word \<Rightarrow> bytes" where
  "be_bytes n w = map (\<lambda>i. ucast (drop_bit (8 * (n - 1 - i)) w)) [0..<n]"

lemma Ror_rotr: 
  assumes "n < 32" shows "Ror x n = word_rotr n x"
proof (rule bit_word_eqI)
  fix i :: nat assume i: "i < LENGTH(32)"
  show "bit (Ror x n) i = bit (word_rotr n x) i"
  proof (cases "i + n < 32")
    case True
    with assms i show ?thesis by (auto simp: Ror_def bit_simps ac_simps)
  next
    case False
    with assms i have "(i + n) mod 32 = i + n - 32" by (simp add: mod_if)
    with False assms i show ?thesis 
     by (auto simp: Ror_def bit_simps ac_simps dest: bit_imp_le_length)
  qed
qed

lemma mult_256_add: "a * 256 + ucast (b :: u8) = (push_bit 8 a OR ucast b :: 'a::len word)"
proof -
  have "push_bit 8 a AND ucast b = (0 :: 'a word)"
    by (rule bit_word_eqI) (auto simp: bit_simps dest: bit_imp_le_length)
  then have "push_bit 8 a OR ucast b = push_bit 8 a + (ucast b :: 'a word)"
    by (simp add: disjunctive_add_eq_or)
  then show ?thesis by (simp add: push_bit_eq_mult)
qed

lemma load_word_be: 
  "load_word block i = be_word [block ! (i * 4), block ! (i * 4 + 1), block ! (i * 4 + 2), block ! (i * 4 + 3)]"
  by (rule bit_word_eqI) (auto simp: load_word_def be_word_def mult_256_add bit_simps)

lemma byte_of_and: "ucast (w AND 0xFF :: 'a::len word) = (ucast w :: u8)"
proof -
  have "(0xFF :: 'a word) = mask 8" by (simp add: mask_eq_exp_minus_1)
  then have "w AND 0xFF = take_bit 8 w" by (simp only: take_bit_eq_mask)
  then show ?thesis by (simp only:) (rule bit_word_eqI, auto simp: bit_simps dest: bit_imp_le_length)
qed

lemma out_word_be: "out_word w = be_bytes 4 w"
  by (simp add: out_word_def be_bytes_def upt_rec byte_of_and)

lemma len_byte_be: "map (len_byte w) [0..<8] = be_bytes 8 w"
  by (auto simp: len_byte_def be_bytes_def byte_of_and right_diff_distrib')

lemma be_bytes_Suc: "be_bytes (Suc n) w = be_bytes n (drop_bit 8 w) @ [ucast w]"
  by (auto simp: be_bytes_def intro!: bit_word_eqI simp: bit_simps right_diff_distrib')

lemma be_word_be_bytes: "be_word (be_bytes n w) = take_bit (8 * n) w"
proof (induction n arbitrary: w)
  case 0 then show ?case by (simp add: be_word_def be_bytes_def)
next
  case (Suc n)
  have "be_word (be_bytes (Suc n) w) = be_word (be_bytes n (drop_bit 8 w)) * 256 + ucast (ucast w :: u8)"
    by (simp add: be_bytes_Suc be_word_def)
  also have "... = push_bit 8 (take_bit (8 * n) (drop_bit 8 w)) OR ucast (ucast w :: u8)"
    by (simp add: Suc mult_256_add)
  also have "... = take_bit (8 * Suc n) w"
    by (rule bit_word_eqI) (auto simp: bit_simps)
  finally show ?case .
qed

subsection \<open>The hash of FIPS 180-4\<close>

definition Ch :: "u32 \<Rightarrow> u32 \<Rightarrow> u32 \<Rightarrow> u32" where
  "Ch x y z = (x AND y) XOR (NOT x AND z)"
definition Maj :: "u32 \<Rightarrow> u32 \<Rightarrow> u32 \<Rightarrow> u32" where
  "Maj x y z = (x AND y) XOR (x AND z) XOR (y AND z)"
definition Sigma0 :: "u32 \<Rightarrow> u32" where
  "Sigma0 x = word_rotr 2 x XOR word_rotr 13 x XOR word_rotr 22 x"
definition Sigma1 :: "u32 \<Rightarrow> u32" where
  "Sigma1 x = word_rotr 6 x XOR word_rotr 11 x XOR word_rotr 25 x"
definition sigma0 :: "u32 \<Rightarrow> u32" where
  "sigma0 x = word_rotr 7 x XOR word_rotr 18 x XOR drop_bit 3 x"
definition sigma1 :: "u32 \<Rightarrow> u32" where
  "sigma1 x = word_rotr 17 x XOR word_rotr 19 x XOR drop_bit 10 x"

lemmas fips_defs = Ch_def Maj_def Sigma0_def Sigma1_def sigma0_def sigma1_def

fun fips_W :: "bytes \<Rightarrow> nat \<Rightarrow> u32" where
  "fips_W block t =
     (if t < 16
      then be_word [block ! (t * 4), block ! (t * 4 + 1), block ! (t * 4 + 2), block ! (t * 4 + 3)]
      else sigma1 (fips_W block (t - 2)) + fips_W block (t - 7) +
           sigma0 (fips_W block (t - 15)) + fips_W block (t - 16))"

declare fips_W.simps [simp del]

definition fips_round :: "(nat \<Rightarrow> u32) \<Rightarrow> vars \<Rightarrow> nat \<Rightarrow> vars" where
  "fips_round W v t =
     (case v of (a, b, c, d, e, f, g, h) \<Rightarrow>
        let T1 = h + Sigma1 e + Ch e f g + K ! t + W t;
            T2 = Sigma0 a + Maj a b c in
        (T1 + T2, a, b, c, d + T1, e, f, g))"

definition fips_compress :: "u32 list \<Rightarrow> bytes \<Rightarrow> u32 list" where
  "fips_compress st block =
     map2 (+) st (vars_list (foldl (fips_round (fips_W block)) (load_vars st) [0..<64]))"

text \<open>Whole blocks are compressed, and what is left over is answered.\<close>

function fips_blocks :: "u32 list \<Rightarrow> bytes \<Rightarrow> u32 list \<times> bytes" where
  "fips_blocks st p =
     (if length p \<ge> 64 then fips_blocks (fips_compress st (take 64 p)) (drop 64 p) else (st, p))"
  by pat_completeness auto
termination by (relation "measure (\<lambda>(_, p). length p)") auto

declare fips_blocks.simps [simp del]

definition fips_H0 :: "u32 list" where
  "fips_H0 = [0x6a09e667, 0xbb67ae85, 0x3c6ef372, 0xa54ff53a,
              0x510e527f, 0x9b05688c, 0x1f83d9ab, 0x5be0cd19]"

text \<open>A one bit, then as many zeros as make the length 56 modulo 64, then the length in bits.\<close>

definition fips_pad :: "nat \<Rightarrow> u64 \<Rightarrow> bytes" where
  "fips_pad n bits = [0x80] @ replicate ((119 - n mod 64) mod 64) 0 @ be_bytes 8 bits"

definition fips_out :: "u32 list \<Rightarrow> bytes" where
  "fips_out st = concat (map (be_bytes 4) st)"

definition sha256 :: "bytes \<Rightarrow> bytes" where
  "sha256 msg =
     fips_out (fst (fips_blocks fips_H0 (msg @ fips_pad (length msg) (word_of_nat (length msg) * 8))))"

lemma length_be_bytes [simp]: "length (be_bytes n w) = n"
  by (simp add: be_bytes_def)

lemma pad_count:
  fixes r :: nat
  assumes "r < 64"
  shows "(119 - r) mod 64 = (if r \<le> 55 then 55 - r else 119 - r)"
proof (cases "r \<le> 55")
  case True
  then have "119 - r = (55 - r) + 64" by simp
  with True show ?thesis by (simp only: mod_add_self2) simp
next
  case False
  with assms show ?thesis by simp
qed

lemma fips_pad_length: "(n + length (fips_pad n bits)) mod 64 = 0"
proof -
  let ?r = "n mod 64" and ?k = "(119 - n mod 64) mod 64"
  have "?r < 64" by simp
  then have "?r + ?k = 55 \<or> ?r + ?k = 119"
    unfolding pad_count [OF \<open>?r < 64\<close>] by (cases "?r \<le> 55") simp_all
  then have "?r + (?k + 9) = 64 \<or> ?r + (?k + 9) = 128" by linarith
  then have "(?r + (?k + 9)) mod 64 = 0" by (elim disjE) (simp_all only: mod_self, simp)
  then have "(n + (?k + 9)) mod 64 = 0" by (simp only: mod_add_left_eq)
  then show ?thesis by (simp add: fips_pad_def ac_simps)
qed

lemma length_vars_list [simp]: "length (vars_list v) = 8"
  by (simp add: vars_list_def split: prod.splits)

lemma length_fips_compress [simp]: "length st = 8 \<Longrightarrow> length (fips_compress st block) = 8"
  by (simp add: fips_compress_def)

lemma fips_blocks_short: "length p < 64 \<Longrightarrow> fips_blocks st p = (st, p)"
  by (simp add: fips_blocks.simps)

lemma fips_blocks_first: "length b = 64 \<Longrightarrow> fips_blocks st (b @ p) = fips_blocks (fips_compress st b) p"
  by (simp add: fips_blocks.simps [of st "b @ p"])

lemma fips_blocks_length:
  "length (snd (fips_blocks st p)) = length p mod 64 \<and>
   (length st = 8 \<longrightarrow> length (fst (fips_blocks st p)) = 8)"
  by (induction st p rule: fips_blocks.induct) (simp add: fips_blocks.simps mod_if [of "length _"])

lemma fips_blocks_append:
  "fips_blocks st (p @ q) =
     (case fips_blocks st p of (st', r) \<Rightarrow> fips_blocks st' (r @ q))"
proof (induction st p rule: fips_blocks.induct)
  case (1 st p)
  show ?case
  proof (cases "length p \<ge> 64")
    case True
    then have "fips_blocks st (p @ q) = fips_blocks (fips_compress st (take 64 p)) (drop 64 p @ q)"
      by (simp add: fips_blocks.simps [of st "p @ q"])
    with 1 True show ?thesis by (simp add: fips_blocks.simps [of st p])
  next
    case False
    then show ?thesis by (simp add: fips_blocks.simps [of st p])
  qed
qed

subsection \<open>The code compresses as FIPS does\<close>

lemma extend_word_fips:
  assumes "16 \<le> i" "\<And>j. j < i \<Longrightarrow> w ! j = fips_W block j"
  shows "extend_word w i = fips_W block i"
proof -
  have "w ! (i - 15) = fips_W block (i - 15)" "w ! (i - 2) = fips_W block (i - 2)"
    "w ! (i - 16) = fips_W block (i - 16)" "w ! (i - 7) = fips_W block (i - 7)"
    using assms by simp_all
  moreover have W: "fips_W block i = sigma1 (fips_W block (i - 2)) + fips_W block (i - 7) +
      sigma0 (fips_W block (i - 15)) + fips_W block (i - 16)"
    using assms(1) by (subst fips_W.simps) simp
  ultimately have "extend_word w i = fips_W block (i - 16) + sigma0 (fips_W block (i - 15)) +
      fips_W block (i - 7) + sigma1 (fips_W block (i - 2))"
    by (simp add: extend_word_def Ror_rotr sigma0_def sigma1_def Let_def)
  also have "\<dots> = fips_W block i"
    by (simp add: W)
  finally show ?thesis .
qed

lemma schedule_upto:
  assumes "16 \<le> n"
  shows "let w = foldl (\<lambda>w i. w @ [extend_word w i]) (map (load_word block) [0..<16]) [16..<n] in
    length w = n \<and> (\<forall>i < n. w ! i = fips_W block i)"
  using assms
proof (induction n rule: dec_induct)
  case base
  show ?case by (simp add: load_word_be fips_W.simps)
next
  case (step n)
  then show ?case
    by (auto simp: Let_def nth_append less_Suc_eq extend_word_fips)
qed

lemma schedule_fips:
  assumes "i < 64"
  shows "schedule block ! i = fips_W block i"
proof -
  have "16 \<le> (64 :: nat)" by simp
  from schedule_upto [OF this, of block] assms show ?thesis
    unfolding Let_def schedule_def by blast
qed

lemma sha_round_fips: "i < 64 \<Longrightarrow> sha_round (schedule block) v i = fips_round (fips_W block) v i"
  by (simp add: sha_round_def fips_round_def Ror_rotr fips_defs schedule_fips Let_def
      split: prod.splits)

lemma rounds_fips:
  "foldl (sha_round (schedule block)) v [0..<64] = foldl (fips_round (fips_W block)) v [0..<64]"
  by (rule foldl_cong) (auto simp: sha_round_fips)

lemma Compress_fips: "Compress block s = s\<lparr>sha_state := fips_compress (sha_state s) block\<rparr>"
  by (simp add: Compress_def fips_compress_def rounds_fips Let_def)

subsection \<open>What the state stands for\<close>

definition sha_live :: "Sha256 \<Rightarrow> bool" where
  "sha_live s \<longleftrightarrow> length (sha_state s) = 8 \<and> length (sha_buffer s) = 64 \<and> sha_buffered s < 64 \<and>
     \<not> sha_finalized s"

definition sha_dead :: "Sha256 \<Rightarrow> bool" where
  "sha_dead s \<longleftrightarrow> sha_finalized s"

definition sha_pending :: "Sha256 \<Rightarrow> bytes" where
  "sha_pending s = take (sha_buffered s) (sha_buffer s)"

type_synonym sha_view = "u32 list \<times> bytes \<times> u64"

definition view_of :: "Sha256 \<Rightarrow> sha_view" where
  "view_of s = (sha_state s, sha_pending s, sha_bitlen s)"

definition sha_absorb :: "bytes \<Rightarrow> sha_view \<Rightarrow> sha_view" where
  "sha_absorb p v = (case v of (st, pend, n) \<Rightarrow>
     (case fips_blocks st (pend @ p) of (st', rest) \<Rightarrow> (st', rest, n + word_of_nat (length p) * 8)))"

definition sha_digest :: "sha_view \<Rightarrow> bytes" where
  "sha_digest v = (case v of (st, pend, n) \<Rightarrow>
     fips_out (fst (fips_blocks st (pend @ fips_pad (length pend) n))))"

definition sha_start :: sha_view where
  "sha_start = (fips_H0, [], 0)"

lemma length_sha_pending: "sha_live s \<Longrightarrow> length (sha_pending s) = sha_buffered s"
  by (simp add: sha_live_def sha_pending_def)

lemma sha_absorb_Nil:
  assumes "sha_live s"
  shows "sha_absorb [] (view_of s) = view_of s"
proof -
  have "length (sha_pending s) < 64" using assms length_sha_pending by (simp add: sha_live_def)
  then show ?thesis by (simp add: sha_absorb_def view_of_def fips_blocks_short)
qed

lemma sha_absorb_append: "sha_absorb (p @ q) v = sha_absorb q (sha_absorb p v)"
proof -
  obtain st pend n where v: "v = (st, pend, n)" by (cases v)
  obtain st' rest where "fips_blocks st (pend @ p) = (st', rest)" by fastforce
  with fips_blocks_append [of st "pend @ p" q] v show ?thesis
    by (simp add: sha_absorb_def distrib_right add.assoc split: prod.splits)
qed

text \<open>The digest of all that was absorbed from the start is the hash of FIPS 180-4.\<close>

lemma sha_digest_start: "sha_digest (sha_absorb msg sha_start) = sha256 msg"
proof -
  obtain st rest where b: "fips_blocks fips_H0 msg = (st, rest)" by fastforce
  from fips_blocks_length [of fips_H0 msg] b have "length rest = length msg mod 64" by simp
  then have pad: "fips_pad (length rest) = fips_pad (length msg)"
    by (simp only: fips_pad_def fun_eq_iff mod_mod_trivial) simp
  have "sha_digest (sha_absorb msg sha_start) =
      fips_out (fst (fips_blocks st (rest @ fips_pad (length rest) (word_of_nat (length msg) * 8))))"
    unfolding sha_digest_def sha_absorb_def sha_start_def using b by simp
  also have "\<dots> = sha256 msg"
    unfolding pad sha256_def fips_blocks_append [of fips_H0 msg] using b by simp
  finally show ?thesis .
qed

subsection \<open>Update\<close>

lemma push_bytes:
  assumes "sha_buffered s + length p \<le> length (sha_buffer s)"
  shows "fold push_byte p s = s\<lparr>sha_buffer := memcpy (sha_buffer s) (sha_buffered s) p,
    sha_buffered := sha_buffered s + length p\<rparr>"
  using assms
proof (induction p arbitrary: s)
  case Nil
  then show ?case by (simp add: memcpy_def)
next
  case (Cons x p)
  from Cons.prems have "fold push_byte (x # p) s =
      (push_byte x s)\<lparr>sha_buffer := memcpy (sha_buffer (push_byte x s)) (sha_buffered s + 1) p,
        sha_buffered := sha_buffered s + 1 + length p\<rparr>"
    by (simp only: fold_simps, subst Cons.IH) (simp_all add: push_byte_def)
  moreover have "memcpy ((sha_buffer s)[sha_buffered s := x]) (sha_buffered s + 1) p =
      memcpy (sha_buffer s) (sha_buffered s) (x # p)"
    using Cons.prems by (simp add: memcpy_def upd_conv_take_nth_drop add.commute)
  ultimately show ?case by (simp only:) (simp add: push_byte_def)
qed

lemma push_pending:
  assumes "sha_buffered s + length p \<le> length (sha_buffer s)"
  shows "sha_pending (fold push_byte p s) = sha_pending s @ p"
  using assms by (simp add: push_bytes sha_pending_def buffer_simps)

lemma drain_loop_pushes:
  assumes "sha_buffered s \<le> 64"
  shows "drain_loop p s = (drop (64 - sha_buffered s) p, fold push_byte (take (64 - sha_buffered s) p) s)"
  using assms
proof (induction p s rule: drain_loop.induct)
  case (2 x p s)
  show ?case
  proof (cases "sha_buffered s < 64")
    case True
    then obtain k where k: "64 - sha_buffered s = Suc k" "64 - sha_buffered (push_byte x s) = k"
      "sha_buffered (push_byte x s) \<le> 64"
      by (cases "64 - sha_buffered s") (auto simp: push_byte_def)
    with 2(1) [OF True k(3)] True show ?thesis by simp
  qed (use 2(2) in simp)
qed simp

lemma block_loop_fips:
  "block_loop p s = (case fips_blocks (sha_state s) p of (st, rest) \<Rightarrow> (rest, s\<lparr>sha_state := st\<rparr>))"
proof (induction p s rule: block_loop.induct)
  case (1 p s)
  then show ?case
    by (subst block_loop.simps, subst fips_blocks.simps) (simp add: Compress_fips split: prod.splits)
qed

lemma block_tail_view:
  assumes "sha_live s" "sha_buffered s = 0" "fips_blocks (sha_state s) p = (st, rest)"
  shows "sha_live (case block_loop p s of (p, s) \<Rightarrow> fold push_byte p s) \<and>
    view_of (case block_loop p s of (p, s) \<Rightarrow> fold push_byte p s) = (st, rest, sha_bitlen s)"
proof -
  let ?s = "s\<lparr>sha_state := st\<rparr>"
  have len: "length rest < 64" "length st = 8"
    using fips_blocks_length [of "sha_state s" p] assms(1,3) by (auto simp: sha_live_def)
  moreover have "sha_pending ?s = []" using assms(2) by (simp add: sha_pending_def)
  ultimately have "sha_pending (fold push_byte rest ?s) = rest"
    using push_pending [of ?s rest] assms(1,2) by (simp add: sha_live_def)
  with len assms show ?thesis
    by (simp add: block_loop_fips view_of_def push_bytes sha_live_def)
qed

lemma sha_Update_view:
  assumes "sha_live s"
  shows "\<exists>s'. sha_Update p s = (Inr (), s') \<and> sha_live s' \<and> view_of s' = sha_absorb p (view_of s)"
proof -
  let ?n = "sha_bitlen s + word_of_nat (length p) * 8"
  let ?s = "s\<lparr>sha_bitlen := ?n\<rparr>" and ?k = "64 - sha_buffered s"
  note live = assms [unfolded sha_live_def]
  obtain st rest where b: "fips_blocks (sha_state s) (sha_pending s @ p) = (st, rest)" by fastforce
  then have goal: "sha_absorb p (view_of s) = (st, rest, ?n)"
    by (simp add: sha_absorb_def view_of_def)
  show ?thesis
  proof (cases "sha_buffered s = 0")
    case True
    then have "fips_blocks (sha_state ?s) p = (st, rest)" using b by (simp add: sha_pending_def)
    moreover have "sha_live ?s" using live by (simp add: sha_live_def)
    ultimately show ?thesis
      using block_tail_view [of ?s p] True live goal
      by (simp add: sha_Update_def Let_def split: prod.splits)
  next
    case False
    let ?d = "fold push_byte (take ?k p) ?s"
    have drain: "drain_loop p ?s = (drop ?k p, ?d)"
      using drain_loop_pushes [of ?s p] live by simp
    have room: "sha_buffered ?s + length (take ?k p) \<le> length (sha_buffer ?s)"
      using live by (auto simp: min_def)
    have pend: "sha_pending ?d = sha_pending s @ take ?k p"
      using push_pending [OF room] by (simp add: sha_pending_def)
    have d: "sha_state ?d = sha_state s" "sha_bitlen ?d = ?n" "sha_finalized ?d = sha_finalized s"
      "length (sha_buffer ?d) = 64" "sha_buffered ?d = sha_buffered s + min (length p) ?k"
      using push_bytes [OF room] room live by simp_all
    show ?thesis
    proof (cases "length p < ?k")
      case True
      then have "length (sha_pending s @ p) < 64" using assms by (simp add: length_sha_pending)
      then have "st = sha_state s" "rest = sha_pending s @ p" using b by (auto simp: fips_blocks_short)
      moreover have "sha_Update p s = (Inr (), ?d)"
        using False True live d drain by (simp add: sha_Update_def block_loop.simps [of "[]"] Let_def)
      moreover have "sha_live ?d" using d True live by (simp add: sha_live_def)
      ultimately show ?thesis using goal True pend d by (simp add: view_of_def)
    next
      case full: False
      let ?e = "(Compress (sha_buffer ?d) ?d)\<lparr>sha_buffered := 0\<rparr>"
      have buf: "sha_buffer ?d = sha_pending s @ take ?k p" "length (sha_pending s @ take ?k p) = 64"
        using pend d(4,5) full live length_sha_pending [OF assms] by (simp_all add: sha_pending_def)
      have e: "sha_state ?e = fips_compress (sha_state s) (sha_pending s @ take ?k p)"
        "sha_bitlen ?e = ?n" "sha_buffered ?e = 0"
        using d buf by (simp_all add: Compress_fips)
      have "sha_live ?e" using live d e by (simp add: sha_live_def Compress_fips)
      moreover have "fips_blocks (sha_state ?e) (drop ?k p) = (st, rest)"
        using b fips_blocks_first [OF buf(2), of "sha_state s" "drop ?k p"] e by simp
      moreover have "sha_Update p s =
          (Inr (), case block_loop (drop ?k p) ?e of (p, s) \<Rightarrow> fold push_byte p s)"
        using False full live d drain by (simp add: sha_Update_def Let_def split: prod.splits)
      ultimately show ?thesis using block_tail_view [of ?e "drop ?k p" st rest] goal e by simp
    qed
  qed
qed

subsection \<open>Final\<close>

lemma sha_Update_buffered:
  assumes "sha_live s" "sha_Update p s = (u, s')"
  shows "sha_buffered s' = (sha_buffered s + length p) mod 64"
proof -
  obtain st rest where b: "fips_blocks (sha_state s) (sha_pending s @ p) = (st, rest)" by fastforce
  from sha_Update_view [OF assms(1), of p] assms(2) b have "sha_live s'" "sha_pending s' = rest"
    by (auto simp: view_of_def sha_absorb_def)
  then show ?thesis
    using fips_blocks_length [of "sha_state s" "sha_pending s @ p"] b assms(1)
      length_sha_pending [of s] length_sha_pending [of s'] by simp
qed

lemma zero_count:
  fixes b :: nat
  assumes "b < 64"
  shows "(120 - b) mod 64 = (if b \<le> 56 then 56 - b else 120 - b)"
proof (cases "b \<le> 56")
  case True
  then have "120 - b = (56 - b) + 64" by simp
  with True show ?thesis by (simp only: mod_add_self2) simp
qed (use assms in simp)

lemma zero_count_step:
  fixes b :: nat
  assumes "b < 64" "(120 - b) mod 64 = Suc k"
  shows "(120 - (b + 1) mod 64) mod 64 = k"
proof (cases "b = 63")
  case False
  with assms(1) have "(b + 1) mod 64 = b + 1" "b + 1 < 64" by simp_all
  with assms zero_count [OF assms(1)] zero_count [of "b + 1"] show ?thesis
    by (auto split: if_splits)
qed (use assms in simp)

lemma pad_loop_zeros:
  assumes "sha_live s" "k = (120 - sha_buffered s) mod 64"
  shows "\<exists>s'. pad_loop s = Some s' \<and> sha_live s' \<and> sha_buffered s' = 56 \<and>
    view_of s' = sha_absorb (replicate k 0) (view_of s)"
  using assms
proof (induction k arbitrary: s)
  case 0
  then have "sha_buffered s = 56"
    using zero_count [of "sha_buffered s"] by (auto simp: sha_live_def split: if_splits)
  with 0 show ?case by (simp add: pad_loop.simps [of s] sha_absorb_Nil)
next
  case (Suc k)
  then have b: "sha_buffered s < 64" "(120 - sha_buffered s) mod 64 = Suc k"
    by (simp_all add: sha_live_def)
  then have "sha_buffered s \<noteq> 56" by auto
  moreover obtain s1 where s1: "sha_Update [0] s = (Inr (), s1)" "sha_live s1"
    "view_of s1 = sha_absorb [0] (view_of s)"
    using sha_Update_view [OF Suc.prems(1)] by blast
  moreover have "k = (120 - sha_buffered s1) mod 64"
    using zero_count_step [OF b] sha_Update_buffered [OF Suc.prems(1) s1(1)] by simp
  ultimately obtain s' where "pad_loop s = Some s'" "sha_live s'" "sha_buffered s' = 56"
    "view_of s' = sha_absorb (replicate k 0) (sha_absorb [0] (view_of s))"
    using Suc.IH [of s1] by (auto simp: pad_loop.simps [of s])
  then show ?case using sha_absorb_append [of "[0]" "replicate k 0"] by simp
qed

lemma zero_count_pad:
  fixes b :: nat
  assumes "b < 64"
  shows "(120 - (b + 1) mod 64) mod 64 = (119 - b mod 64) mod 64"
proof (cases "b = 63")
  case False
  with assms have "(b + 1) mod 64 = b + 1" by simp
  with assms show ?thesis by simp
qed simp

lemma sha_Final_digest:
  assumes "sha_live s"
  shows "\<exists>s'. sha_Final s = Some (Inr (sha_digest (view_of s)), s') \<and> sha_dead s'"
proof -
  let ?k = "(119 - sha_buffered s mod 64) mod 64"
  note live = assms [unfolded sha_live_def]
  obtain s1 where s1: "sha_Update [0x80] s = (Inr (), s1)" "sha_live s1"
    "view_of s1 = sha_absorb [0x80] (view_of s)"
    using sha_Update_view [OF assms] by blast
  have "?k = (120 - sha_buffered s1) mod 64"
    using zero_count_pad [of "sha_buffered s"] sha_Update_buffered [OF assms s1(1)] live by simp
  from pad_loop_zeros [OF s1(2) this] obtain s2 where s2: "pad_loop s1 = Some s2" "sha_live s2"
    "sha_buffered s2 = 56" "view_of s2 = sha_absorb (replicate ?k 0) (view_of s1)" by blast
  let ?len = "map (len_byte (sha_bitlen s)) [0..<8]"
  let ?s3 = "fold push_byte ?len s2"
  have room: "sha_buffered s2 + length ?len \<le> length (sha_buffer s2)"
    using s2(2,3) by (simp add: sha_live_def)
  have "sha_buffered ?s3 = 64" "length (sha_buffer ?s3) = 64"
    using push_bytes [OF room] room s2(2,3) by (simp_all add: sha_live_def)
  then have buf: "sha_buffer ?s3 = sha_pending s2 @ ?len"
    using push_pending [OF room] by (simp add: sha_pending_def)
  have len: "length (sha_pending s2 @ ?len) = 64"
    using length_sha_pending [OF s2(2)] s2(3) by simp
  have pad: "?len = be_bytes 8 (sha_bitlen s)" by (rule len_byte_be)
  have "view_of s2 = sha_absorb ([0x80] @ replicate ?k 0) (view_of s)"
    using s1(3) s2(4) by (simp only: sha_absorb_append)
  then have st2: "fips_blocks (sha_state s) (sha_pending s @ [0x80] @ replicate ?k 0) =
      (sha_state s2, sha_pending s2)"
    by (auto simp: view_of_def sha_absorb_def split: prod.splits)
  have "fips_blocks (sha_state s) (sha_pending s @ fips_pad (sha_buffered s) (sha_bitlen s)) =
      fips_blocks (sha_state s2) (sha_pending s2 @ ?len)"
    using st2 fips_blocks_append [of "sha_state s" "sha_pending s @ [0x80] @ replicate ?k 0"
        "be_bytes 8 (sha_bitlen s)"]
    by (simp add: fips_pad_def pad)
  also have "\<dots> = (fips_compress (sha_state s2) (sha_pending s2 @ ?len), [])"
    using fips_blocks_first [OF len, of _ "[]"] by (simp add: fips_blocks_short)
  finally have "sha_digest (view_of s) =
      fips_out (fips_compress (sha_state s2) (sha_pending s2 @ ?len))"
    using length_sha_pending [OF assms] by (simp add: sha_digest_def view_of_def)
  moreover have "sha_state ?s3 = sha_state s2" using push_bytes [OF room] by simp
  moreover have "map out_word = map (be_bytes 4)" by (simp add: fun_eq_iff out_word_be)
  ultimately show ?thesis
    using live s1(1) s2(1) buf
    by (simp add: sha_Final_def Let_def Compress_fips fips_out_def sha_dead_def)
qed

interpretation sha: hasher sha_Update sha_Final sha_live sha_dead view_of sha_absorb sha_digest
proof unfold_locales
  fix h bs assume "sha_dead h"
  then show "\<exists>e. sha_Update bs h = (Inl e, h) \<and> code e = crypto_BadState"
    and "\<exists>e. sha_Final h = Some (Inl e, h) \<and> code e = crypto_BadState"
    by (simp_all add: sha_Update_def sha_Final_def sha_dead_def Fail_def)
qed (simp_all add: sha_absorb_Nil sha_absorb_append sha_Update_view sha_Final_digest)

interpretation sha_stream: hash_stream SpanReader_Read sr_wf sr_pending
    sha_Update sha_Final sha_live sha_dead view_of sha_absorb sha_digest
  by unfold_locales

lemma sha_new_live:
  assumes "length junk = 64"
  shows "sha_live (sha_new junk_state junk)" "view_of (sha_new junk_state junk) = sha_start"
  using assms by (simp_all add: sha_live_def sha_new_def sha_Reset_def view_of_def sha_start_def
      sha_pending_def fips_H0_def)

lemma sha_Hash_fips: "length junk = 64 \<Longrightarrow> sha_Hash junk_state junk p = Some (sha256 p)"
  using sha_new_live [of junk junk_state] sha.chunks_irrelevant [of "sha_new junk_state junk" "[p]"]
  by (auto simp: sha_Hash_def sha_digest_start)

lemma length_fips_blocks: "length st = 8 \<Longrightarrow> length (fst (fips_blocks st p)) = 8"
  using fips_blocks_length by blast

lemma length_sha256 [simp]: "length (sha256 msg) = 32"
proof -
  have "length (fst (fips_blocks fips_H0 p)) = 8" for p
    by (rule length_fips_blocks) (simp add: fips_H0_def)
  moreover have "length (fips_out st) = 4 * length st" for st
    by (induction st) (simp_all add: fips_out_def)
  ultimately show ?thesis by (simp add: sha256_def)
qed

subsection \<open>Properties\<close>

text \<open>
  C29: however a message is cut into calls of \<open>Update\<close>, and whatever the uninitialised members
  held, \<open>Final\<close> returns the FIPS 180-4 hash of the whole message; afterwards \<open>Update\<close> and
  \<open>Final\<close> answer \<open>BadState\<close> and change nothing, until \<open>Reset\<close> makes the hasher as new.
\<close>

theorem sha256_streaming:
  assumes "length junk = 64"
  shows "\<exists>s'. sha_Final (update_all sha_Update chunks (sha_new junk_state junk)) =
      Some (Inr (sha256 (concat chunks)), s') \<and>
    err_code (fst (sha_Update p s')) = Some crypto_BadState \<and> snd (sha_Update p s') = s' \<and>
    map_option (\<lambda>(r, s). (err_code r, s)) (sha_Final s') = Some (Some crypto_BadState, s')"
proof -
  from sha.chunks_irrelevant [OF sha_new_live(1) [OF assms], of chunks junk_state] obtain s' where
    "sha_Final (update_all sha_Update chunks (sha_new junk_state junk)) =
      Some (Inr (sha256 (concat chunks)), s')" "sha_dead s'"
    by (auto simp: sha_new_live(2) [OF assms] sha_digest_start)
  with sha.update_dead [of s' p] sha.final_dead [of s'] show ?thesis by fastforce
qed

theorem sha256_streaming_witness:
  "\<exists>s'. sha_Final (update_all sha_Update [bytes_of ''a'', [], bytes_of ''bc''] (sha_new [] (replicate 64 7))) =
      Some (Inr (sha256 (bytes_of ''abc'')), s')"
  using sha256_streaming [of "replicate 64 7" "[bytes_of ''a'', [], bytes_of ''bc'']"] by auto

text \<open>
  A \<open>Reset\<close> at any moment makes the hasher compute as a new one: what was fed before, finalised
  or not, leaves no trace in the digest.
\<close>

theorem sha256_reset_forgets:
  assumes "length (sha_buffer s) = 64"
  shows "\<exists>s'. sha_Final (update_all sha_Update chunks (sha_Reset s)) = Some (Inr (sha256 (concat chunks)), s')"
proof -
  have "sha_live (sha_Reset s)" "view_of (sha_Reset s) = sha_start"
    using assms by (simp_all add: sha_live_def sha_Reset_def view_of_def sha_start_def
        sha_pending_def fips_H0_def)
  with sha.chunks_irrelevant [of "sha_Reset s" chunks] show ?thesis by (auto simp: sha_digest_start)
qed

theorem sha256_reset_forgets_witness:
  "\<exists>s'. sha_Final (update_all sha_Update [bytes_of ''abc'']
      (sha_Reset (snd (sha_Update [1, 2, 3] (sha_new [] (replicate 64 0)))))) =
    Some (Inr (sha256 (bytes_of ''abc'')), s')"
proof -
  have "length (sha_buffer (snd (sha_Update [1, 2, 3] (sha_new [] (replicate 64 0))))) = 64"
    using sha_Update_view [OF sha_new_live(1), of "replicate 64 0" "[1, 2, 3]" "[]"]
    by (auto simp: sha_live_def)
  from sha256_reset_forgets [OF this, of "[bytes_of ''abc'']"] show ?thesis by simp
qed

text \<open>
  \<open>HashStream\<close> over a memory reader, through any non-empty scratch buffer, returns the hash of
  the reader's bytes and leaves it drained.
\<close>

theorem hash_stream_is_hash:
  assumes "length junk = 64" and "scratch \<noteq> []"
  shows "\<exists>scratch' r s'. HashStream SpanReader_Read sha_Update sha_Final (sr_new data)
      (sha_new junk_state junk) scratch = Some (Inr (sha256 data), scratch', r, s') \<and>
    sr_pending r = [] \<and> sha_Hash junk_state junk data = Some (sha256 data)"
proof -
  from sha_stream.stream_digest [OF sr_new_simps(1) sha_new_live(1) [OF assms(1)] assms(2),
      of data junk_state]
  show ?thesis
    by (auto simp: sha_new_live(2) [OF assms(1)] sha_digest_start sha_Hash_fips [OF assms(1)])
qed

theorem hash_stream_is_hash_witness:
  "\<exists>scratch' r s'. HashStream SpanReader_Read sha_Update sha_Final (sr_new (bytes_of ''abc''))
      (sha_new [] (replicate 64 0)) [0, 0] = Some (Inr (sha256 (bytes_of ''abc'')), scratch', r, s')"
  using hash_stream_is_hash [where junk = "replicate 64 0" and junk_state = "[]"
      and scratch = "[0, 0]" and data = "bytes_of ''abc''"] by auto

end
