(* ===== verification/Hmac.thy ===== *)
theory Hmac
  imports Sha256
begin

section \<open>Hmac: the keyed hash and its verifier\<close>

text \<open>
  \<open>include/etlx/crypto/hmac.hpp\<close> and \<open>src/crypto/hmac.cpp\<close>. The state holds the inner hasher and
  the outer key block. Beside the code stands the function of RFC 2104; the hasher contract gives the
  incremental tag, the tag of a stream and the verifier.
\<close>

definition kBlock :: nat where
  "kBlock = 64"

record HmacSha256 =
  hm_inner :: Sha256
  hm_okey :: bytes

text \<open>
  Keys longer than a block are hashed; shorter ones are padded with zeros. The constructor's members
  are not initialised before \<open>Init\<close> sets them, and \<open>Hash\<close> builds a hasher of its own;
  \<open>junk_state\<close> and \<open>junk\<close> are what such members hold.
\<close>

definition hmac_key_block :: "u32 list \<Rightarrow> bytes \<Rightarrow> bytes \<Rightarrow> bytes option" where
  "hmac_key_block junk_state junk key =
     (let k = replicate kBlock 0 in
      if length key > kBlock
      then (case sha_Hash junk_state junk key of None \<Rightarrow> None | Some kh \<Rightarrow> Some (memcpy k 0 kh))
      else if key \<noteq> [] then Some (memcpy k 0 key)
      else Some k)"

definition hmac_Init :: "u32 list \<Rightarrow> bytes \<Rightarrow> bytes \<Rightarrow> HmacSha256 \<Rightarrow> HmacSha256 option" where
  "hmac_Init junk_state junk key h =
     (case hmac_key_block junk_state junk key of
        None \<Rightarrow> None
      | Some k \<Rightarrow>
          let ikey = map (\<lambda>b. b XOR 0x36) k in
          Some (h\<lparr>hm_okey := map (\<lambda>b. b XOR 0x5c) k,
                  hm_inner := snd (sha_Update ikey (sha_Reset (hm_inner h)))\<rparr>))"

definition hmac_new :: "u32 list \<Rightarrow> bytes \<Rightarrow> bytes \<Rightarrow> bytes \<Rightarrow> HmacSha256 option" where
  "hmac_new junk_state junk junk_okey key =
     hmac_Init junk_state junk key \<lparr>hm_inner = sha_new junk_state junk, hm_okey = junk_okey\<rparr>"

definition hmac_Update :: "bytes \<Rightarrow> HmacSha256 \<Rightarrow> Status \<times> HmacSha256" where
  "hmac_Update data h =
     (case sha_Update data (hm_inner h) of (st, inner) \<Rightarrow> (st, h\<lparr>hm_inner := inner\<rparr>))"

definition hmac_Final ::
    "u32 list \<Rightarrow> bytes \<Rightarrow> HmacSha256 \<Rightarrow> (bytes Result \<times> HmacSha256) option" where
  "hmac_Final junk_state junk h =
     (case sha_Final (hm_inner h) of
        None \<Rightarrow> None
      | Some (Inl e, inner) \<Rightarrow> Some (Inl e, h\<lparr>hm_inner := inner\<rparr>)
      | Some (Inr d, inner) \<Rightarrow>
          let outer = snd (sha_Update (hm_okey h) (sha_new junk_state junk));
              outer = snd (sha_Update d outer) in
          (case sha_Final outer of
             None \<Rightarrow> None
           | Some (r, _) \<Rightarrow> Some (r, h\<lparr>hm_inner := inner\<rparr>)))"

definition hmac_Tag :: "u32 list \<Rightarrow> bytes \<Rightarrow> bytes \<Rightarrow> bytes \<Rightarrow> bytes \<Rightarrow> bytes option" where
  "hmac_Tag junk_state junk junk_okey key data =
     (case hmac_new junk_state junk junk_okey key of
        None \<Rightarrow> None
      | Some h \<Rightarrow>
          (case hmac_Final junk_state junk (snd (hmac_Update data h)) of
             Some (Inr tag, _) \<Rightarrow> Some tag
           | _ \<Rightarrow> None))"

record HmacVerifier =
  hv_key :: bytes

definition hmac_Verify ::
    "u32 list \<Rightarrow> bytes \<Rightarrow> bytes \<Rightarrow> HmacVerifier \<Rightarrow> bytes \<Rightarrow> bytes \<Rightarrow> Status option" where
  "hmac_Verify junk_state junk junk_okey v data sig =
     (case hmac_Tag junk_state junk junk_okey (hv_key v) data of
        None \<Rightarrow> None
      | Some tag \<Rightarrow>
          if \<not> ConstTimeEqual tag sig
          then Some (Fail crypto_Category crypto_VerifyFailed ''HMAC mismatch'')
          else Some Ok)"

subsection \<open>The function of RFC 2104\<close>

definition rfc_key :: "bytes \<Rightarrow> bytes" where
  "rfc_key key = (let k = if length key > 64 then sha256 key else key in
     k @ replicate (64 - length k) 0)"

definition rfc_hmac :: "bytes \<Rightarrow> bytes \<Rightarrow> bytes" where
  "rfc_hmac key msg =
     (let k = rfc_key key in
      sha256 (map (\<lambda>b. b XOR 0x5c) k @ sha256 (map (\<lambda>b. b XOR 0x36) k @ msg)))"

lemma hmac_key_block_rfc:
  assumes "length junk = 64"
  shows "hmac_key_block junk_state junk key = Some (rfc_key key)"
  using assms by (auto simp: hmac_key_block_def rfc_key_def kBlock_def memcpy_def sha_Hash_fips Let_def)

subsection \<open>The contract of a hasher\<close>

definition hm_live :: "HmacSha256 \<Rightarrow> bool" where
  "hm_live h \<longleftrightarrow> sha_live (hm_inner h)"

definition hm_dead :: "HmacSha256 \<Rightarrow> bool" where
  "hm_dead h \<longleftrightarrow> sha_dead (hm_inner h)"

definition hm_view :: "HmacSha256 \<Rightarrow> bytes \<times> sha_view" where
  "hm_view h = (hm_okey h, view_of (hm_inner h))"

definition hm_digest :: "bytes \<times> sha_view \<Rightarrow> bytes" where
  "hm_digest v = sha256 (fst v @ sha_digest (snd v))"

lemma hmac_Final_digest:
  assumes "length junk = 64" "hm_live h"
  shows "\<exists>h'. hmac_Final junk_state junk h = Some (Inr (hm_digest (hm_view h)), h') \<and> hm_dead h'"
proof -
  let ?d = "sha_digest (view_of (hm_inner h))"
  from assms(2) sha.final_live [of "hm_inner h"] obtain i where
    i: "sha_Final (hm_inner h) = Some (Inr ?d, i)" "sha_dead i"
    by (auto simp: hm_live_def)
  from sha.chunks_irrelevant [OF sha_new_live(1) [OF assms(1)], of "[hm_okey h, ?d]" junk_state]
  obtain o' where "sha_Final (snd (sha_Update ?d (snd (sha_Update (hm_okey h) (sha_new junk_state junk))))) =
      Some (Inr (sha256 (hm_okey h @ ?d)), o')"
    by (auto simp: sha_new_live(2) [OF assms(1)] sha_digest_start)
  with i show ?thesis by (simp add: hmac_Final_def hm_digest_def hm_view_def hm_dead_def Let_def)
qed

text \<open>What the indeterminate members hold makes no difference; the locale is interpreted at zeros.\<close>

abbreviation zeros64 :: bytes where
  "zeros64 \<equiv> replicate 64 0"

interpretation hmac: hasher hmac_Update "hmac_Final [] zeros64" hm_live hm_dead hm_view
    "\<lambda>p. map_prod id (sha_absorb p)" hm_digest
proof (unfold_locales, goal_cases)
  case (3 h bs)
  with sha.update_live [of "hm_inner h" bs] show ?case
    by (auto simp: hmac_Update_def hm_live_def hm_view_def)
next
  case (4 h)
  then show ?case by (intro hmac_Final_digest) simp_all
next
  case (5 h bs)
  with sha.update_dead [of "hm_inner h" bs] show ?case by (auto simp: hmac_Update_def hm_dead_def)
next
  case (6 h)
  with sha.final_dead [of "hm_inner h"] show ?case by (auto simp: hmac_Final_def hm_dead_def)
qed (auto simp: hm_live_def hm_view_def sha_absorb_Nil sha_absorb_append)

interpretation hmac_stream: hash_stream SpanReader_Read sr_wf sr_pending
    hmac_Update "hmac_Final [] zeros64" hm_live hm_dead hm_view "\<lambda>p. map_prod id (sha_absorb p)" hm_digest
  by unfold_locales

lemma hmac_Final_junk:
  "length junk = 64 \<Longrightarrow> hm_live h \<Longrightarrow>
   map_option fst (hmac_Final junk_state junk h) = map_option fst (hmac_Final [] zeros64 h)"
  using hmac_Final_digest [of junk h junk_state] hmac.final_live [of h] by auto

lemma hmac_new_rfc:
  assumes "length junk = 64"
  shows "\<exists>h. hmac_new junk_state junk junk_okey key = Some h \<and> hm_live h \<and>
    (\<forall>msg. hm_digest (map_prod id (sha_absorb msg) (hm_view h)) = rfc_hmac key msg)"
proof -
  let ?ikey = "map (\<lambda>b. b XOR 0x36) (rfc_key key)"
  let ?s = "sha_new junk_state junk"
  have reset: "sha_Reset ?s = ?s" by (simp add: sha_new_def sha_Reset_def)
  from sha_Update_view [OF sha_new_live(1) [OF assms], of ?ikey junk_state] obtain i where
    i: "sha_Update ?ikey ?s = (Inr (), i)" "sha_live i" "view_of i = sha_absorb ?ikey sha_start"
    by (auto simp: sha_new_live(2) [OF assms])
  then show ?thesis
    by (simp add: hmac_new_def hmac_Init_def hmac_key_block_rfc [OF assms] reset hm_live_def hm_view_def
        hm_digest_def rfc_hmac_def sha_absorb_append [symmetric] sha_digest_start Let_def)
qed

lemma hmac_Tag_rfc:
  assumes "length junk = 64"
  shows "hmac_Tag junk_state junk junk_okey key data = Some (rfc_hmac key data)"
proof -
  obtain h where h: "hmac_new junk_state junk junk_okey key = Some h" "hm_live h"
    "\<forall>msg. hm_digest (map_prod id (sha_absorb msg) (hm_view h)) = rfc_hmac key msg"
    using hmac_new_rfc [OF assms] by blast
  obtain h1 where h1: "hmac_Update data h = (Inr (), h1)" "hm_live h1"
    "hm_view h1 = map_prod id (sha_absorb data) (hm_view h)"
    using hmac.update_live [OF h(2)] by blast
  from hmac_Final_digest [OF assms h1(2), of junk_state] h h1 show ?thesis
    by (auto simp: hmac_Tag_def)
qed

subsection \<open>Properties\<close>

text \<open>
  C30: fed with a message in any pieces, the keyed hasher returns the tag of RFC 2104 for keys of
  every length, whatever its uninitialised members held; the one-shot \<open>Tag\<close> returns the same, and
  a finalised hasher answers \<open>BadState\<close>.
\<close>

theorem hmac_is_rfc2104:
  assumes "length junk = 64"
  shows "\<exists>h h'. hmac_new junk_state junk junk_okey key = Some h \<and>
    hmac_Final junk_state junk (update_all hmac_Update chunks h) =
      Some (Inr (rfc_hmac key (concat chunks)), h') \<and>
    err_code (fst (hmac_Update p h')) = Some crypto_BadState \<and>
    hmac_Tag junk_state junk junk_okey key (concat chunks) = Some (rfc_hmac key (concat chunks))"
proof -
  obtain h where h: "hmac_new junk_state junk junk_okey key = Some h" "hm_live h"
    "\<forall>msg. hm_digest (map_prod id (sha_absorb msg) (hm_view h)) = rfc_hmac key msg"
    using hmac_new_rfc [OF assms] by blast
  from hmac.update_all_view [OF h(2), of chunks] hmac_Final_digest [OF assms] h(3)
  obtain h' where "hmac_Final junk_state junk (update_all hmac_Update chunks h) =
      Some (Inr (rfc_hmac key (concat chunks)), h')" "hm_dead h'" by metis
  with hmac.update_dead [of h' p] h(1) hmac_Tag_rfc [OF assms] show ?thesis by fastforce
qed

theorem hmac_is_rfc2104_witness:
  "\<exists>h h'. hmac_new [] zeros64 [] [1, 2, 3] = Some h \<and>
     hmac_Final [] zeros64 (update_all hmac_Update [[4], [5, 6]] h) =
       Some (Inr (rfc_hmac [1, 2, 3] [4, 5, 6]), h')"
  using hmac_is_rfc2104 [where junk = zeros64 and junk_state = "[]" and junk_okey = "[]"
      and key = "[1, 2, 3]" and chunks = "[[4], [5, 6]]" and p = "[]"]
  by fastforce

text \<open>
  The verifier accepts exactly the tag of RFC 2104, whatever the length of the signature it is
  given, and reports \<open>VerifyFailed\<close> for every other one.
\<close>

theorem hmac_verifier_exact:
  assumes "length junk = 64"
  shows "map_option err_code (hmac_Verify junk_state junk junk_okey v data sig) =
    Some (if sig = rfc_hmac (hv_key v) data then None else Some crypto_VerifyFailed)"
  by (simp add: hmac_Verify_def hmac_Tag_rfc [OF assms])

theorem hmac_verifier_exact_witness:
  "map_option err_code (hmac_Verify [] zeros64 [] \<lparr>hv_key = bytes_of ''shared''\<rparr> (bytes_of ''payload'') []) =
     Some (Some crypto_VerifyFailed)"
proof -
  have "rfc_hmac k d \<noteq> []" for k d
    using length_sha256 unfolding rfc_hmac_def Let_def
    by (metis length_0_conv zero_neq_numeral)
  then have "[] \<noteq> rfc_hmac k d" for k d by metis
  then show ?thesis by (subst hmac_verifier_exact) simp_all
qed

end
