(* ===== verification/Net.thy ===== *)
theory Net
  imports Io
begin

section \<open>Net: the socket interface\<close>

text \<open>
  \<open>include/etlx/net/net.hpp\<close>. A socket sends a whole span or fails, and receives into the
  caller's buffer; 0 bytes mean that the peer has closed. Either may wait for ever, which is \<open>None\<close>.
  The contract is the locale \<open>socket\<close>: its receiving half, the locale \<open>receiver\<close>, is the reader contract
  of the theory \<open>Io\<close> for calls that return, so that \<open>incoming s\<close> is what the peer
  has still to deliver, and sending does not disturb it. The mock socket of the repository's own
  http test satisfies it.
\<close>

definition net_Category :: Category where
  [category_defs]: "net_Category = \<lparr>cat_name = ''net''\<rparr>"

definition net_ResolveFailed :: Code where "net_ResolveFailed = 1"
definition net_ConnectFailed :: Code where "net_ConnectFailed = 2"
definition net_SendFailed :: Code where "net_SendFailed = 3"
definition net_RecvFailed :: Code where "net_RecvFailed = 4"
definition net_Closed :: Code where "net_Closed = 5"
definition net_TlsError :: Code where "net_TlsError = 6"

locale receiver = total_reader "\<lambda>dst s. the (recv dst s)" sinv incoming
  for recv :: "bytes \<Rightarrow> 's \<Rightarrow> (nat Result \<times> bytes \<times> 's) option"
    and sinv :: "'s \<Rightarrow> bool" and incoming :: "'s \<Rightarrow> bytes" +
  fixes outgoing :: "'s \<Rightarrow> bytes"
  assumes recv_returns: "sinv s \<Longrightarrow> recv dst s \<noteq> None"
    and recv_outgoing: "sinv s \<Longrightarrow> outgoing (snd (snd (the (recv dst s)))) = outgoing s"

locale socket = receiver recv sinv incoming outgoing
  for recv :: "bytes \<Rightarrow> 's \<Rightarrow> (nat Result \<times> bytes \<times> 's) option"
    and sinv :: "'s \<Rightarrow> bool" and incoming :: "'s \<Rightarrow> bytes"
    and send :: "bytes \<Rightarrow> 's \<Rightarrow> (Status \<times> 's) option"
    and outgoing :: "'s \<Rightarrow> bytes" +
  assumes send_total: "sinv s \<Longrightarrow> \<exists>s'. send src s = Some (Ok, s') \<and> sinv s' \<and> incoming s' = incoming s \<and>
      outgoing s' = outgoing s @ src"

text \<open>
  The receive loop of the clients: it fills the buffer from the front until the peer closes or
  the buffer is full. Nothing in its text bounds it, so \<open>None\<close> stands for not returning.
\<close>

partial_function (option) recv_loop ::
    "(bytes \<Rightarrow> 's \<Rightarrow> (nat Result \<times> bytes \<times> 's) option) \<Rightarrow> nat \<Rightarrow> bytes \<Rightarrow> 's \<Rightarrow>
     (nat Result \<times> bytes \<times> 's) option" where
  "recv_loop recv n_read buf s =
     (if n_read < length buf then
        (case recv (drop n_read buf) s of
           None \<Rightarrow> None
         | Some (res, dst, s') \<Rightarrow>
           (case res of
              Inl e \<Rightarrow> Some (Inl e, take n_read buf @ dst, s')
            | Inr n \<Rightarrow>
                if n = 0 then Some (Inr n_read, take n_read buf @ dst, s')
                else recv_loop recv (n_read + n) (take n_read buf @ dst) s'))
      else Some (Inr n_read, buf, s))"

context receiver
begin

text \<open>The loop returns, having moved into the buffer as much of the stream as the buffer holds.\<close>

lemma recv_loop_total:
  assumes "sinv s" "n_read \<le> length buf"
  shows "\<exists>buf' s'. recv_loop recv n_read buf s =
      Some (Inr (n_read + min (length buf - n_read) (length (incoming s))), buf', s') \<and>
    sinv s' \<and> length buf' = length buf \<and> outgoing s' = outgoing s \<and>
    take (n_read + min (length buf - n_read) (length (incoming s))) buf' =
      take n_read buf @ take (length buf - n_read) (incoming s)"
  using assms
proof (induction "length buf - n_read" arbitrary: n_read buf s rule: less_induct)
  case less
  show ?case
  proof (cases "n_read < length buf")
    case False
    with less.prems show ?thesis by (subst recv_loop.simps) simp
  next
    case True
    then have "drop n_read buf \<noteq> []" by simp
    from read_cases [OF less.prems(1) this] recv_returns [OF less.prems(1), of "drop n_read buf"]
    obtain n dst s' where r: "recv (drop n_read buf) s = Some (Inr n, dst, s')" "sinv s'" "length dst = length (drop n_read buf)" "n \<le> length (drop n_read buf)"
      "n \<le> length (incoming s)" "take n dst = take n (incoming s)"
      "incoming s' = drop n (incoming s)" "n = 0 \<longrightarrow> incoming s = []"
      by (metis option.collapse)
    have out: "outgoing s' = outgoing s"
      using recv_outgoing [OF less.prems(1), of "drop n_read buf"] r(1) by simp
    let ?buf = "take n_read buf @ dst"
    show ?thesis
    proof (cases "n = 0")
      case True
      with r out less.prems \<open>n_read < length buf\<close> show ?thesis
        by (subst recv_loop.simps) simp
    next
      case False
      have len: "length ?buf = length buf" using r(3) less.prems by simp
      have n: "n \<le> length buf - n_read" using r(4) by simp
      have "\<exists>buf' s''. recv_loop recv (n_read + n) ?buf s' =
          Some (Inr (n_read + n + min (length ?buf - (n_read + n)) (length (incoming s'))), buf', s'') \<and>
        sinv s'' \<and> length buf' = length ?buf \<and> outgoing s'' = outgoing s' \<and>
        take (n_read + n + min (length ?buf - (n_read + n)) (length (incoming s'))) buf' =
          take (n_read + n) ?buf @ take (length ?buf - (n_read + n)) (incoming s')"
        using False n len True r(2) by (intro less.hyps) auto
      moreover have "n_read + n + min (length ?buf - (n_read + n)) (length (incoming s')) =
          n_read + min (length buf - n_read) (length (incoming s))"
        using r(5,7) n len by auto
      moreover have "take (n_read + n) ?buf @ take (length ?buf - (n_read + n)) (incoming s') =
          take n_read buf @ take (length buf - n_read) (incoming s)"
        using r(6,7) n len less.prems(2) True
        by (simp add: take_add [symmetric] min_def)
      ultimately show ?thesis
        using True False r(1) out len by (subst recv_loop.simps) (auto simp: add.assoc)
    qed
  qed
qed

end

subsection \<open>The chunked socket of the http test\<close>

text \<open>\<open>tests/http/test_http.cpp\<close>: canned bytes handed out at most seven at a time.
  \<open>cm_sent\<close> is a ghost: the test's \<open>Send\<close> accepts everything and forgets it.\<close>

record ChunkedMockSocket =
  cm_data :: bytes
  cm_pos :: nat
  cm_sent :: bytes

definition mock_Recv :: "bytes \<Rightarrow> ChunkedMockSocket \<Rightarrow> nat Result \<times> bytes \<times> ChunkedMockSocket" where
  "mock_Recv dst s =
     (let n = min (min (length dst) (length (cm_data s) - cm_pos s)) 7 in
      (Inr n, memcpy dst 0 (take n (drop (cm_pos s) (cm_data s))), s\<lparr>cm_pos := cm_pos s + n\<rparr>))"

definition mock_Send :: "bytes \<Rightarrow> ChunkedMockSocket \<Rightarrow> Status \<times> ChunkedMockSocket" where
  "mock_Send src s = (Ok, s\<lparr>cm_sent := cm_sent s @ src\<rparr>)"

interpretation mock: socket "\<lambda>dst s. Some (mock_Recv dst s)" "\<lambda>s. cm_pos s \<le> length (cm_data s)"
    "\<lambda>s. drop (cm_pos s) (cm_data s)" "\<lambda>src s. Some (mock_Send src s)" cm_sent
  by unfold_locales
    (auto simp: mock_Recv_def mock_Send_def Let_def memcpy_def min_def add.commute split: if_splits)

end
