(* ===== verification/Http.thy ===== *)
theory Http
  imports Net
begin

section \<open>Http: requests, responses, the client\<close>

text \<open>
  \<open>include/etlx/http/http.hpp\<close> and \<open>src/http/http.cpp\<close>: the request builder over a bounded
  buffer, the response parser over a receive buffer, and the client that joins them over a socket.
\<close>

definition http_Category :: Category where
  [category_defs]: "http_Category = \<lparr>cat_name = ''http''\<rparr>"

definition http_BufferTooSmall :: Code where "http_BufferTooSmall = 1"
definition http_Malformed :: Code where "http_Malformed = 2"
definition http_Incomplete :: Code where "http_Incomplete = 3"
definition http_TooManyHeaders :: Code where "http_TooManyHeaders = 4"

datatype Method = Get | Post | Put | Delete | Head

record Header =
  h_name :: string
  h_value :: string

type_synonym HeaderList = "Header list"

record Request =
  rq_method :: Method
  rq_host :: string
  rq_path :: string
  rq_headers :: HeaderList
  rq_body :: bytes

definition Request_init :: Request where
  "Request_init = \<lparr>rq_method = Get, rq_host = [], rq_path = ''/'', rq_headers = [], rq_body = []\<rparr>"

record Response =
  rs_status :: int
  rs_reason :: string
  rs_headers :: HeaderList
  rs_body :: bytes
  rs_content_length :: "nat option"

definition Response_init :: Response where
  "Response_init = \<lparr>rs_status = 0, rs_reason = [], rs_headers = [], rs_body = [],
     rs_content_length = None\<rparr>"

fun MethodName :: "Method \<Rightarrow> string" where
  "MethodName Get = ''GET''"
| "MethodName Post = ''POST''"
| "MethodName Put = ''PUT''"
| "MethodName Delete = ''DELETE''"
| "MethodName Head = ''HEAD''"

definition CR :: char where "CR = CHR 0x0D"
definition LF :: char where "LF = CHR 0x0A"
definition CRLF :: string where "CRLF = [CR, LF]"

subsection \<open>The appender\<close>

record Appender =
  ap_buf :: bytes
  ap_pos :: nat
  ap_overflow :: bool

definition Put_bytes :: "bytes \<Rightarrow> Appender \<Rightarrow> Appender" where
  "Put_bytes s a =
     (if ap_overflow a then a
      else if length s > length (ap_buf a) - ap_pos a then a\<lparr>ap_overflow := True\<rparr>
      else a\<lparr>ap_buf := memcpy (ap_buf a) (ap_pos a) s, ap_pos := ap_pos a + length s\<rparr>)"

definition Put_str :: "string \<Rightarrow> Appender \<Rightarrow> Appender" where
  "Put_str s a =
     (if ap_overflow a then a
      else if length s > length (ap_buf a) - ap_pos a then a\<lparr>ap_overflow := True\<rparr>
      else a\<lparr>ap_buf := memcpy (ap_buf a) (ap_pos a) (bytes_of s), ap_pos := ap_pos a + length s\<rparr>)"

text \<open>The digits are produced from the least one on into \<open>tmp\<close>, then reversed.\<close>

fun uint_digits :: "nat \<Rightarrow> string" where
  "uint_digits v = (if v = 0 then [] else char_of (48 + v mod 10) # uint_digits (v div 10))"

definition uint_tmp :: "nat \<Rightarrow> string" where
  "uint_tmp v = (if v = 0 then [CHR ''0''] else uint_digits v)"

definition PutUInt :: "nat \<Rightarrow> Appender \<Rightarrow> Appender" where
  "PutUInt v a = Put_str (rev (uint_tmp v)) a"

subsection \<open>Comparing and trimming\<close>

definition lower :: "char \<Rightarrow> char" where
  "lower c =
     (if 65 \<le> (of_char c :: nat) \<and> (of_char c :: nat) \<le> 90
      then char_of (of_char c - 65 + 97 :: nat) else c)"

fun IEqual_loop :: "string \<Rightarrow> string \<Rightarrow> bool" where
  "IEqual_loop (a # as) (b # bs) = (if lower a \<noteq> lower b then False else IEqual_loop as bs)"
| "IEqual_loop _ _ = True"

definition IEqual :: "string \<Rightarrow> string \<Rightarrow> bool" where
  "IEqual a b = (if length a \<noteq> length b then False else IEqual_loop a b)"

definition blank_front :: "char \<Rightarrow> bool" where
  "blank_front c = (c = CHR '' '' \<or> c = CHR 0x09)"

definition blank_back :: "char \<Rightarrow> bool" where
  "blank_back c = (c = CHR '' '' \<or> c = CHR 0x09 \<or> c = CR)"

function Trim_front :: "string \<Rightarrow> nat \<Rightarrow> nat \<Rightarrow> nat" where
  "Trim_front s b e = (if b < e \<and> blank_front (s ! b) then Trim_front s (b + 1) e else b)"
  by pat_completeness auto
termination
  by (relation "measure (\<lambda>(s, b, e). e - b)") auto

fun Trim_back :: "string \<Rightarrow> nat \<Rightarrow> nat \<Rightarrow> nat" where
  "Trim_back s b 0 = 0"
| "Trim_back s b (Suc e) = (if Suc e > b \<and> blank_back (s ! e) then Trim_back s b e else Suc e)"

definition Trim :: "string \<Rightarrow> string" where
  "Trim s =
     (let b = Trim_front s 0 (length s); e = Trim_back s b (length s) in sv_substr s b (e - b))"

declare Trim_front.simps [simp del] uint_digits.simps [simp del]

definition find_header :: "HeaderList \<Rightarrow> string \<Rightarrow> Header option" where
  "find_header hs name = find (\<lambda>h. IEqual (h_name h) name) hs"

definition GetHeader :: "Response \<Rightarrow> string \<Rightarrow> string" where
  "GetHeader r name =
     (case find_header (rs_headers r) name of Some h \<Rightarrow> h_value h | None \<Rightarrow> [])"

subsection \<open>Building a request\<close>

definition put_header :: "Header \<Rightarrow> Appender \<Rightarrow> Appender" where
  "put_header h a = Put_str CRLF (Put_str (h_value h) (Put_str '': '' (Put_str (h_name h) a)))"

definition BuildRequest :: "Request \<Rightarrow> bytes \<Rightarrow> nat Result \<times> bytes" where
  "BuildRequest req out =
     (let a0 = \<lparr>ap_buf = out, ap_pos = 0, ap_overflow = False\<rparr>;
          a1 = Put_str (MethodName (rq_method req)) a0;
          a2 = Put_str '' '' a1;
          a3 = Put_str (rq_path req) a2;
          a4 = Put_str ('' HTTP/1.1'' @ CRLF) a3;
          a5 = Put_str ''Host: '' a4;
          a6 = Put_str (rq_host req) a5;
          a7 = Put_str CRLF a6;
          a8 = Put_str (''Connection: close'' @ CRLF) a7;
          a9 = foldl (\<lambda>a h. put_header h a) a8 (rq_headers req);
          a10 = (if rq_body req \<noteq> []
                 then Put_str CRLF (PutUInt (length (rq_body req)) (Put_str ''Content-Length: '' a9))
                 else a9);
          a11 = Put_str CRLF a10;
          a12 = (if rq_body req \<noteq> [] then Put_bytes (rq_body req) a11 else a11)
      in if ap_overflow a12
         then (Fail http_Category http_BufferTooSmall ''request buffer too small'', ap_buf a12)
         else (Inr (ap_pos a12), ap_buf a12))"

subsection \<open>Parsing a response\<close>

definition is_digit_char :: "char \<Rightarrow> bool" where
  "is_digit_char c = (48 \<le> (of_char c :: nat) \<and> (of_char c :: nat) \<le> 57)"

text \<open>The three digits of the status code, the view being at least that long.\<close>

fun status_loop :: "nat \<Rightarrow> string \<Rightarrow> int \<Rightarrow> int Result" where
  "status_loop 0 s v = Inr v"
| "status_loop (Suc n) [] v = Inr v"
| "status_loop (Suc n) (c # s) v =
     (if \<not> is_digit_char c then Fail http_Category http_Malformed ''non-digit status''
      else status_loop n s (v * 10 + (of_char c - 48)))"

lemma sv_find_from_ge: "sv_find_from s pat pos = Some i \<Longrightarrow> pos \<le> i"
  by (auto simp: sv_find_from_def split: if_splits)

function header_loop :: "string \<Rightarrow> nat \<Rightarrow> nat \<Rightarrow> HeaderList \<Rightarrow> HeaderList Result" where
  "header_loop text boundary pos hs =
     (if pos < boundary then
        (let eol = (case sv_find_from text CRLF pos of
                      None \<Rightarrow> boundary
                    | Some eol \<Rightarrow> if eol > boundary then boundary else eol);
             hline = sv_substr text pos (eol - pos)
         in if hline = [] then Inr hs
            else (case sv_find_char hline (CHR '':'') of
                    None \<Rightarrow> header_loop text boundary (eol + 2) hs
                  | Some colon \<Rightarrow>
                      if length hs \<ge> ETLX_HTTP_MAX_HEADERS
                      then Fail http_Category http_TooManyHeaders ''too many headers''
                      else header_loop text boundary (eol + 2)
                        (hs @ [\<lparr>h_name = Trim (sv_substr hline 0 colon),
                                h_value = Trim (drop (colon + 1) hline)\<rparr>])))
      else Inr hs)"
  by pat_completeness auto
termination
  by (relation "measure (\<lambda>(text, boundary, pos, hs). boundary - pos)")
    (auto dest: sv_find_from_ge split: option.splits)

declare header_loop.simps [simp del]

text \<open>The content length is accumulated in a \<open>size_t\<close>; \<open>None\<close> when a character is not a digit.\<close>

fun length_loop :: "string \<Rightarrow> nat \<Rightarrow> nat option" where
  "length_loop [] len = Some len"
| "length_loop (c # s) len =
     (if \<not> is_digit_char c then None
      else length_loop s (wrap_size (len * 10 + (of_char c - 48))))"

definition set_body :: "bytes \<Rightarrow> Response \<Rightarrow> Response" where
  "set_body body resp =
     (let cl = GetHeader resp ''Content-Length'' in
      if cl = [] then resp\<lparr>rs_body := body\<rparr>
      else (case length_loop cl 0 of
              None \<Rightarrow> resp\<lparr>rs_body := body\<rparr>
            | Some len \<Rightarrow>
                resp\<lparr>rs_content_length := Some len,
                     rs_body := (if len < length body then take len body else body)\<rparr>))"

definition npos :: nat where
  "npos = 2 ^ 64 - 1"

definition ParseResponse :: "bytes \<Rightarrow> Response Result" where
  "ParseResponse raw =
     (let text = chars_of raw in
      case sv_find text (CRLF @ CRLF) of
        None \<Rightarrow> Fail http_Category http_Incomplete ''headers not terminated''
      | Some boundary \<Rightarrow>
          let line_end = (case sv_find text CRLF of Some i \<Rightarrow> i | None \<Rightarrow> npos);
              line = sv_substr text 0 line_end
          in (case sv_find_char line (CHR '' '') of
                  None \<Rightarrow> Fail http_Category http_Malformed ''no status code''
                | Some sp1 \<Rightarrow>
                    let rest = drop (sp1 + 1) line;
                        sp2 = sv_find_char rest (CHR '' '');
                        code = (case sp2 of None \<Rightarrow> rest | Some i \<Rightarrow> sv_substr rest 0 i)
                    in if length code < 3
                       then Fail http_Category http_Malformed ''bad status code''
                       else (case status_loop 3 code 0 of
                           Inl e \<Rightarrow> Inl e
                         | Inr status \<Rightarrow>
                             let reason = (case sp2 of None \<Rightarrow> [] | Some i \<Rightarrow> Trim (drop (i + 1) rest))
                             in (case header_loop text boundary (line_end + 2) [] of
                                   Inl e \<Rightarrow> Inl e
                                 | Inr hs \<Rightarrow>
                                     Inr (set_body (drop (boundary + 4) raw)
                                       (Response_init\<lparr>rs_status := status, rs_reason := reason,
                                                      rs_headers := hs\<rparr>))))))"

subsection \<open>The client\<close>

definition Client_Do ::
    "(bytes \<Rightarrow> 's \<Rightarrow> (Status \<times> 's) option) \<Rightarrow> (bytes \<Rightarrow> 's \<Rightarrow> (nat Result \<times> bytes \<times> 's) option) \<Rightarrow>
     's \<Rightarrow> Request \<Rightarrow> bytes \<Rightarrow> bytes \<Rightarrow> (Response Result \<times> bytes \<times> 's) option" where
  "Client_Do send recv sock req recv_buf reqbuf =
     (case BuildRequest req reqbuf of
        (Inl e, _) \<Rightarrow> Some (Inl e, recv_buf, sock)
      | (Inr n, reqbuf') \<Rightarrow>
          (case send (take n reqbuf') sock of
             None \<Rightarrow> None
           | Some (Inl e, sock1) \<Rightarrow> Some (Inl e, recv_buf, sock1)
           | Some (Inr _, sock1) \<Rightarrow>
               (case recv_loop recv 0 recv_buf sock1 of
                  None \<Rightarrow> None
                | Some (Inl e, buf, sock2) \<Rightarrow> Some (Inl e, buf, sock2)
                | Some (Inr tot, buf, sock2) \<Rightarrow>
                    Some (ParseResponse (take tot buf), buf, sock2))))"

definition Client_Get ::
    "(bytes \<Rightarrow> 's \<Rightarrow> (Status \<times> 's) option) \<Rightarrow> (bytes \<Rightarrow> 's \<Rightarrow> (nat Result \<times> bytes \<times> 's) option) \<Rightarrow>
     's \<Rightarrow> string \<Rightarrow> string \<Rightarrow> bytes \<Rightarrow> bytes \<Rightarrow> (Response Result \<times> bytes \<times> 's) option" where
  "Client_Get send recv sock host path recv_buf reqbuf =
     Client_Do send recv sock (Request_init\<lparr>rq_method := Get, rq_host := host, rq_path := path\<rparr>)
       recv_buf reqbuf"


subsection \<open>The appender writes what it is given or overflows\<close>

definition ap_spec :: "bytes \<Rightarrow> bytes \<Rightarrow> Appender \<Rightarrow> bool" where
  "ap_spec buf xs a \<longleftrightarrow>
     (if length xs \<le> length buf
      then a = \<lparr>ap_buf = memcpy buf 0 xs, ap_pos = length xs, ap_overflow = False\<rparr>
      else ap_overflow a \<and> length (ap_buf a) = length buf)"

lemma ap_spec_init: "ap_spec buf [] \<lparr>ap_buf = buf, ap_pos = 0, ap_overflow = False\<rparr>"
  by (simp add: ap_spec_def)

lemma ap_spec_bytes: "ap_spec buf xs a \<Longrightarrow> ap_spec buf (xs @ s) (Put_bytes s a)"
  using memcpy_append [of 0 xs s buf]
  by (cases "length xs \<le> length buf") (auto simp: ap_spec_def Put_bytes_def)

lemma Put_str_bytes: "Put_str s a = Put_bytes (bytes_of s) a"
  by (simp add: Put_str_def Put_bytes_def)

lemma ap_spec_str: "ap_spec buf xs a \<Longrightarrow> ap_spec buf (xs @ bytes_of s) (Put_str s a)"
  by (simp add: Put_str_bytes ap_spec_bytes)

definition uint_text :: "nat \<Rightarrow> string" where
  "uint_text v = rev (uint_tmp v)"

lemma ap_spec_uint: "ap_spec buf xs a \<Longrightarrow> ap_spec buf (xs @ bytes_of (uint_text v)) (PutUInt v a)"
  by (simp add: PutUInt_def uint_text_def ap_spec_str)

definition header_text :: "Header \<Rightarrow> string" where
  "header_text h = h_name h @ '': '' @ h_value h"

lemma ap_spec_header:
  "ap_spec buf xs a \<Longrightarrow> ap_spec buf (xs @ bytes_of (header_text h @ CRLF)) (put_header h a)"
  using ap_spec_str [OF ap_spec_str [OF ap_spec_str [OF ap_spec_str]], of buf xs a "h_name h" "'': ''" "h_value h" CRLF]
  by (simp add: put_header_def header_text_def)

lemma ap_spec_headers:
  "ap_spec buf xs a \<Longrightarrow>
   ap_spec buf (xs @ bytes_of (concat (map (\<lambda>h. header_text h @ CRLF) hs)))
     (foldl (\<lambda>a h. put_header h a) a hs)"
proof (induction hs arbitrary: xs a)
  case (Cons h hs)
  from Cons.IH [OF ap_spec_header [OF Cons.prems, of h]] show ?case by simp
qed simp

text \<open>The request as text on the wire.\<close>

definition request_bytes :: "Request \<Rightarrow> bytes" where
  "request_bytes req =
     bytes_of (MethodName (rq_method req) @ '' '' @ rq_path req @ '' HTTP/1.1'' @ CRLF @
       ''Host: '' @ rq_host req @ CRLF @ ''Connection: close'' @ CRLF @
       concat (map (\<lambda>h. header_text h @ CRLF) (rq_headers req)) @
       (if rq_body req = [] then []
        else ''Content-Length: '' @ uint_text (length (rq_body req)) @ CRLF) @ CRLF) @
     rq_body req"

lemma BuildRequest_result:
  "BuildRequest req out =
     (if length (request_bytes req) \<le> length out
      then (Inr (length (request_bytes req)), memcpy out 0 (request_bytes req))
      else (Fail http_Category http_BufferTooSmall ''request buffer too small'',
            snd (BuildRequest req out))) \<and>
   length (snd (BuildRequest req out)) = length out"
proof -
  let ?a8 = "Put_str (''Connection: close'' @ CRLF) (Put_str CRLF (Put_str (rq_host req) (Put_str ''Host: ''
    (Put_str ('' HTTP/1.1'' @ CRLF) (Put_str (rq_path req) (Put_str '' '' (Put_str (MethodName (rq_method req))
      \<lparr>ap_buf = out, ap_pos = 0, ap_overflow = False\<rparr>)))))))"
  let ?a9 = "foldl (\<lambda>a h. put_header h a) ?a8 (rq_headers req)"
  let ?a10 = "if rq_body req \<noteq> []
     then Put_str CRLF (PutUInt (length (rq_body req)) (Put_str ''Content-Length: '' ?a9)) else ?a9"
  let ?a11 = "Put_str CRLF ?a10"
  let ?a12 = "if rq_body req \<noteq> [] then Put_bytes (rq_body req) ?a11 else ?a11"
  have "ap_spec out ([] @ bytes_of (MethodName (rq_method req)) @ bytes_of '' '' @ bytes_of (rq_path req) @
      bytes_of ('' HTTP/1.1'' @ CRLF) @ bytes_of ''Host: '' @ bytes_of (rq_host req) @ bytes_of CRLF @
      bytes_of (''Connection: close'' @ CRLF)) ?a8"
    unfolding append_assoc [symmetric] by (intro ap_spec_str ap_spec_init)
  note a9 = ap_spec_headers [OF this, of "rq_headers req"]
  have "ap_spec out (request_bytes req) ?a12"
  proof (cases "rq_body req = []")
    case True
    with ap_spec_str [OF a9, of CRLF] show ?thesis by (simp add: request_bytes_def)
  next
    case False
    with ap_spec_bytes [OF ap_spec_str [OF ap_spec_str [OF ap_spec_uint [OF ap_spec_str [OF a9]]]],
        of "''Content-Length: ''" "length (rq_body req)" CRLF CRLF "rq_body req"]
    show ?thesis by (simp add: request_bytes_def)
  qed
  moreover have "BuildRequest req out =
      (if ap_overflow ?a12 then (Fail http_Category http_BufferTooSmall ''request buffer too small'', ap_buf ?a12)
       else (Inr (ap_pos ?a12), ap_buf ?a12))"
    by (simp only: BuildRequest_def Let_def)
  ultimately show ?thesis by (simp add: ap_spec_def split: if_splits)
qed

subsection \<open>Decimal numbers\<close>

lemma uint_digits_len: "v < 10 ^ n \<Longrightarrow> length (uint_digits v) \<le> n"
proof (induction n arbitrary: v)
  case 0
  then show ?case by (simp add: uint_digits.simps)
next
  case (Suc n)
  then have "v div 10 < 10 ^ n" by (simp add: div_less_iff_less_mult mult.commute)
  with Suc.IH show ?case by (subst uint_digits.simps) simp
qed

lemma digit_of_char [simp]:
  "is_digit_char (char_of (48 + v mod 10 :: nat))"
  "of_char (char_of (48 + v mod 10 :: nat)) = (48 + v mod 10 :: nat)"
proof -
  have "48 + v mod 10 < 256" by (rule le_less_trans [of _ 57]) auto
  then show "of_char (char_of (48 + v mod 10 :: nat)) = (48 + v mod 10 :: nat)" by simp
  moreover have "v mod 10 \<le> 9" by (simp add: less_Suc_eq_le [symmetric])
  ultimately show "is_digit_char (char_of (48 + v mod 10 :: nat))"
    by (simp add: is_digit_char_def)
qed

lemma length_loop_append:
  "length_loop (s @ t) n = (case length_loop s n of None \<Rightarrow> None | Some m \<Rightarrow> length_loop t m)"
  by (induction s n rule: length_loop.induct) auto

lemma length_loop_uint: "length_loop (rev (uint_digits v)) 0 = Some (wrap_size v)"
proof (induction v rule: uint_digits.induct)
  case (1 v)
  show ?case
  proof (cases "v = 0")
    case False
    have "wrap_size (wrap_size (v div 10) * 10 + v mod 10) = wrap_size (v div 10 * 10 + v mod 10)"
      unfolding wrap_size_def by (metis mod_add_left_eq mod_mult_left_eq)
    with 1 False show ?thesis
      by (subst uint_digits.simps) (simp add: length_loop_append)
  qed (simp add: uint_digits.simps)
qed

lemma length_loop_text: "length_loop (uint_text v) 0 = Some (wrap_size v)"
  using length_loop_uint [of v]
  by (auto simp: uint_text_def uint_tmp_def is_digit_char_def)

lemma uint_text_nonempty [simp]: "uint_text v \<noteq> []" "[] \<noteq> uint_text v"
  by (simp_all add: uint_text_def uint_tmp_def uint_digits.simps)


subsection \<open>Trimming\<close>

definition trimmed :: "string \<Rightarrow> bool" where
  "trimmed s \<longleftrightarrow> s = [] \<or> (\<not> blank_front (hd s) \<and> \<not> blank_back (last s))"

lemma Trim_front_skip:
  "list_all blank_front ws \<Longrightarrow> s = pre @ ws @ t \<Longrightarrow>
   Trim_front s (length pre) (length s) = Trim_front s (length pre + length ws) (length s)"
proof (induction ws arbitrary: pre)
  case (Cons c ws)
  then show ?case
    using Cons.IH [of "pre @ [c]"] by (subst Trim_front.simps) (simp add: nth_append)
qed simp

lemma Trim_trimmed:
  assumes "trimmed s" "list_all blank_front ws"
  shows "Trim (ws @ s) = s"
proof -
  have "Trim_front (ws @ s) 0 (length (ws @ s)) = Trim_front (ws @ s) (length ws) (length (ws @ s))"
    using Trim_front_skip [OF assms(2), of "ws @ s" "[]" s] by simp
  also have "\<dots> = length ws"
    using assms(1) by (subst Trim_front.simps) (cases s; simp add: trimmed_def nth_append)
  finally have b: "Trim_front (ws @ s) 0 (length (ws @ s)) = length ws" .
  have "Trim_back (ws @ s) (length ws) (length (ws @ s)) = length (ws @ s)"
  proof (cases s rule: rev_cases)
    case Nil
    then show ?thesis by (cases "length ws") auto
  next
    case (snoc t c)
    then show ?thesis using assms(1) by (simp add: trimmed_def nth_append)
  qed
  with b show ?thesis by (simp add: Trim_def Let_def sv_substr_def)
qed

subsection \<open>Finding the lines\<close>

lemma CRLF_simps: "CRLF = [CR, LF]" "CR \<noteq> LF" "LF \<noteq> CR"
  by (simp_all add: CRLF_def CR_def LF_def)

lemma sv_find_skip:
  assumes "CR \<notin> set l" "pat = CR # p"
  shows "sv_find (l @ r) pat = map_option ((+) (length l)) (sv_find r pat)"
  using assms
proof (induction l)
  case Nil
  then show ?case by (simp add: option.map_ident)
next
  case (Cons c l)
  then show ?case by (cases "sv_find r pat") auto
qed

lemma sv_find_line: "CR \<notin> set l \<Longrightarrow> sv_find (l @ CRLF @ r) CRLF = Some (length l)"
  by (subst sv_find_skip) (auto simp: CRLF_simps)

definition lines_ok :: "string list \<Rightarrow> bool" where
  "lines_ok ls \<longleftrightarrow> list_all (\<lambda>l. l \<noteq> [] \<and> CR \<notin> set l) ls"

definition on_wire :: "string list \<Rightarrow> string" where
  "on_wire ls = concat (map (\<lambda>l. l @ CRLF) ls)"

lemma on_wire_simps [simp]:
  "on_wire [] = []" "on_wire (l # ls) = l @ CRLF @ on_wire ls"
  by (simp_all add: on_wire_def)

lemma find_boundary:
  "lines_ok (l # ls) \<Longrightarrow>
   sv_find (on_wire (l # ls) @ CRLF @ b) (CRLF @ CRLF) = Some (length (on_wire (l # ls)) - 2)"
proof (induction ls arbitrary: l)
  case Nil
  then show ?case
    by (simp add: lines_ok_def sv_find_skip [of l _ "[LF, CR, LF]"] CRLF_simps)
next
  case (Cons l' ls)
  let ?rest = "on_wire (l' # ls) @ CRLF @ b"
  have ok: "CR \<notin> set l" "lines_ok (l' # ls)" "l' \<noteq> []" "hd l' \<noteq> CR"
    using Cons.prems by (auto simp: lines_ok_def) (metis list.set_sel(1))+
  obtain c t where c: "?rest = c # t" "c \<noteq> CR" using ok(3,4) by (cases l') auto
  have "sv_find (l @ CRLF @ ?rest) (CRLF @ CRLF) =
      map_option ((+) (length l)) (sv_find (CRLF @ ?rest) (CRLF @ CRLF))"
    using ok(1) by (simp add: sv_find_skip [of l _ "[LF, CR, LF]"] CRLF_simps)
  also have "sv_find (CRLF @ ?rest) (CRLF @ CRLF) = map_option (\<lambda>n. Suc (Suc n)) (sv_find ?rest (CRLF @ CRLF))"
    unfolding c by (simp add: CRLF_simps c(2) not_sym option.map_comp o_def)
  also have "sv_find ?rest (CRLF @ CRLF) = Some (length (on_wire (l' # ls)) - 2)"
    by (rule Cons.IH [OF ok(2)])
  finally show ?case by (simp add: CRLF_simps)
qed

definition header_ok :: "Header \<Rightarrow> bool" where
  "header_ok h \<longleftrightarrow> trimmed (h_name h) \<and> trimmed (h_value h) \<and>
     CR \<notin> set (h_name h) \<and> CR \<notin> set (h_value h) \<and> CHR '':'' \<notin> set (h_name h)"

lemma header_text_line: "header_ok h \<Longrightarrow> header_text h \<noteq> [] \<and> CR \<notin> set (header_text h)"
  by (auto simp: header_ok_def header_text_def CR_def)

lemma header_loop_lines:
  "list_all header_ok hs \<Longrightarrow> length acc + length hs \<le> ETLX_HTTP_MAX_HEADERS \<Longrightarrow>
   drop pos text = on_wire (map header_text hs) @ CRLF @ b \<Longrightarrow>
   boundary + 2 = pos + length (on_wire (map header_text hs)) \<Longrightarrow> pos \<le> length text \<Longrightarrow>
   header_loop text boundary pos acc = Inr (acc @ hs)"
proof (induction hs arbitrary: acc pos)
  case Nil
  then show ?case by (simp add: header_loop.simps [of "text" boundary pos acc])
next
  case (Cons h hs)
  let ?l = "header_text h"
  have l: "?l \<noteq> []" "CR \<notin> set ?l" using header_text_line [of h] Cons.prems(1) by auto
  have d: "drop pos text = ?l @ CRLF @ on_wire (map header_text hs) @ CRLF @ b"
    using Cons.prems(3) by simp
  have eol: "sv_find_from text CRLF pos = Some (pos + length ?l)"
    using Cons.prems(5) sv_find_line [OF l(2)] by (simp add: sv_find_from_def d)
  have le: "pos + length ?l \<le> boundary" "pos < boundary"
    using Cons.prems(4) l(1) by (cases ?l; simp add: CRLF_simps)+
  have hline: "sv_substr text pos (pos + length ?l - pos) = ?l"
    by (simp add: sv_substr_def d)
  have colon: "sv_find_char ?l (CHR '':'') = Some (length (h_name h))"
    using Cons.prems(1) by (simp add: header_text_def header_ok_def)
  have nm: "Trim (sv_substr ?l 0 (length (h_name h))) = h_name h"
    using Trim_trimmed [of "h_name h" "[]"] Cons.prems(1)
    by (simp add: header_ok_def sv_substr_def header_text_def)
  have vl: "Trim (drop (length (h_name h) + 1) ?l) = h_value h"
    using Trim_trimmed [of "h_value h" "'' ''"] Cons.prems(1)
    by (simp add: header_ok_def header_text_def blank_front_def)
  have hh: "\<lparr>h_name = h_name h, h_value = h_value h\<rparr> = h" by simp
  have "header_loop text boundary pos acc =
      header_loop text boundary (pos + length ?l + 2) (acc @ [h])"
    using eol le hline colon nm vl l(1) Cons.prems(2)
    by (subst header_loop.simps) (simp add: Let_def hh)
  also have "\<dots> = Inr ((acc @ [h]) @ hs)"
  proof (rule Cons.IH)
    have "drop (pos + length ?l + 2) text = drop (length ?l + 2) (drop pos text)"
      by (simp add: add.commute add.left_commute)
    then show "drop (pos + length ?l + 2) text = on_wire (map header_text hs) @ CRLF @ b"
      using d by (simp add: CRLF_simps)
    have "length (drop pos text) \<ge> length ?l + 2" using d by (simp add: CRLF_simps)
    then show "pos + length ?l + 2 \<le> length text" by simp
  qed (use Cons.prems in \<open>auto simp: CRLF_simps\<close>)
  finally show ?case by simp
qed


subsection \<open>Reading what was written\<close>

definition status_text :: "nat \<Rightarrow> string" where
  "status_text n = map (\<lambda>d. char_of (48 + d mod 10)) [n div 100, n div 10, n]"

definition status_line :: "nat \<Rightarrow> string \<Rightarrow> string" where
  "status_line n reason = ''HTTP/1.1 '' @ status_text n @ '' '' @ reason"

definition response_bytes :: "nat \<Rightarrow> string \<Rightarrow> HeaderList \<Rightarrow> bytes \<Rightarrow> bytes" where
  "response_bytes n reason hs body =
     bytes_of (on_wire (status_line n reason # map header_text hs) @ CRLF) @ body"

lemma digit_not: "is_digit_char c \<Longrightarrow> c \<noteq> CR \<and> c \<noteq> CHR '' ''"
  by (auto simp: is_digit_char_def CR_def)

lemma status_text_digits: "c \<in> set (status_text n) \<Longrightarrow> is_digit_char c"
  by (auto simp: status_text_def)

lemma status_text_val:
  assumes "n < 1000"
  shows "status_loop 3 (status_text n) 0 = Inr (int n)" "length (status_text n) = 3"
proof -
  define a b c where "a = n div 100 mod 10" and "b = n div 10 mod 10" and "c = n mod 10"
  have "n div 100 = n div 10 div 10" using div_mult2_eq [of n 10 10] by simp
  moreover have "n div 10 div 10 mod 10 = n div 10 div 10" using assms by simp
  ultimately have n: "n = (a * 10 + b) * 10 + c"
    using div_mult_mod_eq [of n 10] div_mult_mod_eq [of "n div 10" 10]
    by (simp add: a_def b_def c_def)
  have int: "int n = (int a * 10 + int b) * 10 + int c" unfolding n by simp
  have "of_char (char_of (48 + d mod 10 :: nat)) = int (48 + d mod 10)" for d :: nat
    using digit_of_char(2) [of d] of_nat_of_char by metis
  then have "status_loop 3 (status_text n) 0 = Inr ((int a * 10 + int b) * 10 + int c)"
    by (simp add: status_text_def numeral_3_eq_3 a_def b_def c_def)
  then show "status_loop 3 (status_text n) 0 = Inr (int n)" unfolding int .
  show "length (status_text n) = 3" by (simp add: status_text_def)
qed

lemma ParseResponse_render:
  assumes "n < 1000" "trimmed reason" "CR \<notin> set reason" "list_all header_ok hs"
    "length hs \<le> ETLX_HTTP_MAX_HEADERS"
  shows "ParseResponse (response_bytes n reason hs body) =
    Inr (set_body body (Response_init\<lparr>rs_status := int n, rs_reason := reason, rs_headers := hs\<rparr>))"
proof -
  let ?line = "status_line n reason" and ?hl = "map header_text hs"
  let ?text = "on_wire (?line # ?hl) @ CRLF @ chars_of body"
  have raw: "chars_of (response_bytes n reason hs body) = ?text"
    by (simp add: response_bytes_def)
  have cr: "CR \<notin> set ?line" using assms(3) status_text_digits digit_not
    by (auto simp: status_line_def CR_def)
  have ok: "lines_ok (?line # ?hl)"
    using cr assms(4) header_text_line
    by (auto simp: lines_ok_def list_all_iff status_line_def)
  have boundary: "sv_find ?text (CRLF @ CRLF) = Some (length (on_wire (?line # ?hl)) - 2)"
    by (rule find_boundary [OF ok])
  have line_end: "sv_find ?text CRLF = Some (length ?line)"
    using sv_find_line [OF cr] by simp
  have line: "sv_substr ?text 0 (length ?line) = ?line" by (simp add: sv_substr_def)
  have sp1: "sv_find_char ?line (CHR '' '') = Some 8"
    by (simp add: status_line_def)
  have rest: "drop (8 + 1) ?line = status_text n @ CHR '' '' # reason"
    by (simp add: status_line_def)
  have "CHR '' '' \<notin> set (status_text n)" using status_text_digits digit_not by blast
  then have sp2: "sv_find_char (status_text n @ CHR '' '' # reason) (CHR '' '') = Some 3"
    using status_text_val(2) [OF assms(1)] by simp
  have code: "sv_substr (status_text n @ CHR '' '' # reason) 0 3 = status_text n"
    using status_text_val(2) [OF assms(1)] by (simp add: sv_substr_def)
  have reason: "Trim (drop (3 + 1) (status_text n @ CHR '' '' # reason)) = reason"
    using status_text_val(2) [OF assms(1)] Trim_trimmed [OF assms(2), of "[]"] by simp
  have hs: "header_loop ?text (length (on_wire (?line # ?hl)) - 2) (length ?line + 2) [] = Inr ([] @ hs)"
    by (rule header_loop_lines [where b = "chars_of body"])
      (use assms(4,5) in \<open>auto simp: CRLF_simps\<close>)
  have body: "drop (length (on_wire (?line # ?hl)) - 2 + 4) (response_bytes n reason hs body) = body"
  proof -
    have "length (on_wire (?line # ?hl)) - 2 + 4 = length (on_wire (?line # ?hl) @ CRLF)"
      by (simp add: CRLF_simps)
    then show ?thesis unfolding response_bytes_def by simp
  qed
  show ?thesis
    unfolding ParseResponse_def raw Let_def boundary line_end option.case line sp1 rest sp2 code
      reason hs body
    using status_text_val [OF assms(1)] by simp
qed

lemma status_loop_range:
  "0 \<le> v \<Longrightarrow> (case status_loop n s v of
     Inl e \<Rightarrow> code e = http_Malformed | Inr w \<Rightarrow> 0 \<le> w \<and> w < (v + 1) * 10 ^ n)"
proof (induction n s v rule: status_loop.induct)
  case (1 s v)
  then show ?case by simp
next
  case (2 n v)
  have "(1::int) \<le> 10 ^ Suc n" by (rule one_le_power) simp
  then have "(v + 1) * 1 \<le> (v + 1) * 10 ^ Suc n" using 2 by (intro mult_left_mono) auto
  then have "v < (v + 1) * 10 ^ Suc n" by (rule less_le_trans [rotated]) simp
  with 2 show ?case by (simp del: power_Suc)
next
  case (3 n c s v)
  show ?case
  proof (cases "is_digit_char c")
    case False
    then show ?thesis by (simp add: Fail_def)
  next
    case True
    then have "48 \<le> int (of_char c)" "int (of_char c) \<le> 57" unfolding is_digit_char_def by linarith+
    then have d: "0 \<le> of_char c - (48::int)" "of_char c - (48::int) \<le> 9" unfolding of_nat_of_char by auto
    let ?w = "v * 10 + (of_char c - 48)"
    have "0 \<le> ?w" using d 3 by simp
    have "(?w + 1) * 10 ^ n \<le> ((v + 1) * 10) * 10 ^ n" using d by (intro mult_right_mono) auto
    then have "(?w + 1) * 10 ^ n \<le> (v + 1) * 10 ^ Suc n" by simp
    then have "x < (v + 1) * 10 ^ Suc n" if "x < (?w + 1) * 10 ^ n" for x
      using that that by (auto intro: less_le_trans)
    with "3.IH" [OF _ \<open>0 \<le> ?w\<close>] True show ?thesis
      by (auto simp del: power_Suc split: sum.splits)
  qed
qed

lemma header_loop_bound:
  "length hs \<le> ETLX_HTTP_MAX_HEADERS \<Longrightarrow> (case header_loop text boundary pos hs of
     Inl e \<Rightarrow> code e = http_TooManyHeaders | Inr hs' \<Rightarrow> length hs' \<le> ETLX_HTTP_MAX_HEADERS)"
proof (induction "text" boundary pos hs rule: header_loop.induct)
  case (1 "text" boundary pos hs)
  let ?eol = "case sv_find_from text CRLF pos of
      None \<Rightarrow> boundary | Some eol \<Rightarrow> if eol > boundary then boundary else eol"
  let ?l = "sv_substr text pos (?eol - pos)"
  show ?case
  proof (cases "pos < boundary \<and> ?l \<noteq> []")
    case False
    with "1.prems" show ?thesis by (subst header_loop.simps) (auto simp: Let_def)
  next
    case True
    show ?thesis
    proof (cases "sv_find_char ?l (CHR '':'')")
      case None
      with True "1.IH"(1) [OF _ refl refl _ None] "1.prems" show ?thesis
        by (subst header_loop.simps) (simp add: Let_def)
    next
      case (Some i)
      with True "1.IH"(2) [OF _ refl refl _ Some] "1.prems" show ?thesis
        by (subst header_loop.simps) (auto simp: Let_def Fail_def)
    qed
  qed
qed

lemma length_loop_bound: "length_loop s v = Some n \<Longrightarrow> v < 2 ^ 64 \<Longrightarrow> n < 2 ^ 64"
  by (induction s v rule: length_loop.induct) (auto simp: wrap_size_def split: if_splits)

lemma set_body_facts:
  "\<exists>post. body = rs_body (set_body body resp) @ post"
  "rs_status (set_body body resp) = rs_status resp" "rs_headers (set_body body resp) = rs_headers resp"
  "rs_content_length resp = None \<Longrightarrow> (case rs_content_length (set_body body resp) of
     None \<Rightarrow> True | Some n \<Rightarrow> n < 2 ^ 64 \<and> length (rs_body (set_body body resp)) \<le> n)"
proof -
  show "\<exists>post. body = rs_body (set_body body resp) @ post"
    by (auto simp: set_body_def Let_def split: option.splits) (metis append_take_drop_id)
  show "rs_status (set_body body resp) = rs_status resp" "rs_headers (set_body body resp) = rs_headers resp"
    by (auto simp: set_body_def Let_def split: option.splits)
  show "rs_content_length resp = None \<Longrightarrow> (case rs_content_length (set_body body resp) of
     None \<Rightarrow> True | Some n \<Rightarrow> n < 2 ^ 64 \<and> length (rs_body (set_body body resp)) \<le> n)"
    by (auto simp: set_body_def Let_def split: option.splits dest: length_loop_bound)
qed

definition good_response :: "bytes \<Rightarrow> Response \<Rightarrow> bool" where
  "good_response raw r \<longleftrightarrow> (\<exists>n reason hs k.
     r = set_body (drop k raw) (Response_init\<lparr>rs_status := n, rs_reason := reason, rs_headers := hs\<rparr>) \<and>
     0 \<le> n \<and> n \<le> 999 \<and> length hs \<le> ETLX_HTTP_MAX_HEADERS)"

lemma good_responseI:
  "0 \<le> n \<and> n \<le> 999 \<Longrightarrow> length hs \<le> ETLX_HTTP_MAX_HEADERS \<Longrightarrow> good_response raw
     (set_body (drop k raw) (Response_init\<lparr>rs_status := n, rs_reason := reason, rs_headers := hs\<rparr>))"
  unfolding good_response_def by blast

lemma status_results:
  "status_loop 3 s 0 = Inl e \<Longrightarrow> code e = http_Malformed"
  "status_loop 3 s 0 = Inr n \<Longrightarrow> 0 \<le> n \<and> n \<le> 999"
  using status_loop_range [of 0 3 s] by (auto split: sum.splits)

lemma header_results:
  "header_loop t b p [] = Inl e \<Longrightarrow> code e = http_TooManyHeaders"
  "header_loop t b p [] = Inr hs \<Longrightarrow> length hs \<le> ETLX_HTTP_MAX_HEADERS"
  using header_loop_bound [of "[]" t b p] by (auto split: sum.splits)

lemma ParseResponse_cases:
  "case ParseResponse raw of
     Inl e \<Rightarrow> code e \<in> {http_Incomplete, http_Malformed, http_TooManyHeaders}
   | Inr r \<Rightarrow> good_response raw r"
  by (auto simp: ParseResponse_def Let_def Fail_def
      intro!: good_responseI dest: status_results header_results split: option.split sum.split)

subsection \<open>The client\<close>

context receiver
begin

text \<open>An exchange whose request went out and whose answer is there to be received.\<close>

lemma Client_Do_receives:
  assumes "send (request_bytes req) s = Some (Ok, s1)" "sinv s1"
    and "length reqbuf = 1024" "length (request_bytes req) \<le> 1024"
  shows "\<exists>buf' s'. Client_Do send recv s req recv_buf reqbuf =
      Some (ParseResponse (take (length recv_buf) (incoming s1)), buf', s') \<and>
    sinv s' \<and> outgoing s' = outgoing s1"
proof -
  let ?n = "length (request_bytes req)"
  have build: "BuildRequest req reqbuf = (Inr ?n, memcpy reqbuf 0 (request_bytes req))"
    using BuildRequest_result [of req reqbuf] assms(3,4) by simp
  have req: "take ?n (memcpy reqbuf 0 (request_bytes req)) = request_bytes req"
    by (rule take_memcpy_0)
  from recv_loop_total [OF assms(2), of 0 recv_buf] obtain buf' s' where
    "recv_loop recv 0 recv_buf s1 = Some (Inr (min (length recv_buf) (length (incoming s1))), buf', s')"
    "sinv s'" "outgoing s' = outgoing s1"
    "take (min (length recv_buf) (length (incoming s1))) buf' = take (length recv_buf) (incoming s1)"
    by auto
  with build req assms(1) show ?thesis by (simp add: Client_Do_def)
qed

end

context socket
begin

lemma Client_Do_total:
  assumes "sinv s" "length reqbuf = 1024" "length (request_bytes req) \<le> 1024"
  shows "\<exists>buf' s'. Client_Do send recv s req recv_buf reqbuf =
      Some (ParseResponse (take (length recv_buf) (incoming s)), buf', s') \<and>
    outgoing s' = outgoing s @ request_bytes req"
proof -
  obtain s1 where s1: "send (request_bytes req) s = Some (Ok, s1)" "sinv s1" "incoming s1 = incoming s"
    "outgoing s1 = outgoing s @ request_bytes req"
    using send_total [OF assms(1), of "request_bytes req"] by blast
  from Client_Do_receives [where send = send, OF s1(1,2) assms(2,3), of recv_buf] s1(3,4) show ?thesis by auto
qed

end

subsection \<open>Properties\<close>

text \<open>
  C26: \<open>BuildRequest\<close> writes exactly the request line, the host, the extra headers, the content
  length (when there is a body) and the body, when they fit, and fails with \<open>BufferTooSmall\<close>
  otherwise; the buffer keeps its length and what lies behind the request is not touched.
\<close>

theorem build_request_exact:
  "case BuildRequest req out of (r, out') \<Rightarrow>
     length out' = length out \<and>
     (if length (request_bytes req) \<le> length out
      then r = Inr (length (request_bytes req)) \<and>
        out' = request_bytes req @ drop (length (request_bytes req)) out
      else err_code r = Some http_BufferTooSmall)"
  using BuildRequest_result [of req out] by (auto simp: memcpy_def split: prod.splits if_splits)

text \<open>
  The digits of any \<open>size_t\<close> fit the 20-byte scratch array of \<open>PutUInt\<close>, and the parser's
  content-length loop reads the number back.
\<close>

theorem decimal_roundtrip:
  assumes "v < 2 ^ 64"
  shows "length (uint_tmp v) \<le> 20 \<and> length_loop (rev (uint_tmp v)) 0 = Some v"
proof -
  have "v < 10 ^ 20" using assms by simp
  then have "length (uint_tmp v) \<le> 20" using uint_digits_len [of v 20] by (simp add: uint_tmp_def)
  with length_loop_text [of v] assms show ?thesis by (simp add: uint_text_def wrap_size_id)
qed

theorem decimal_roundtrip_witness:
  "length (uint_tmp 18446744073709551615) \<le> 20 \<and>
   length_loop (rev (uint_tmp 18446744073709551615)) 0 = Some 18446744073709551615"
  by (rule decimal_roundtrip) simp

text \<open>
  C14: parsing a response written with a three-digit status, a reason and at most 16 headers gives
  back the status, the reason and the headers in order. The body is cut to the content length, when
  a header of that name is present whatever its case, and is the whole rest otherwise; a content
  length beyond \<open>2 ^ 64\<close> is taken modulo \<open>2 ^ 64\<close>.
\<close>

theorem parse_response_roundtrip:
  assumes "n < 1000" and "trimmed reason" and "CR \<notin> set reason" and "list_all header_ok hs"
    and "length hs \<le> ETLX_HTTP_MAX_HEADERS"
  shows "\<exists>r. ParseResponse (response_bytes n reason hs body) = Inr r \<and>
    rs_status r = int n \<and> rs_reason r = reason \<and> rs_headers r = hs \<and>
    (case find_header hs ''Content-Length'' of
       None \<Rightarrow> rs_content_length r = None \<and> rs_body r = body
     | Some h \<Rightarrow> \<forall>len. h_value h = uint_text len \<longrightarrow>
         rs_content_length r = Some (wrap_size len) \<and> rs_body r = take (wrap_size len) body)"
  unfolding ParseResponse_render [OF assms]
  by (auto simp: set_body_def GetHeader_def Response_init_def Let_def length_loop_text
      split: option.splits)

theorem parse_response_roundtrip_witness:
  "\<exists>r. ParseResponse (response_bytes 200 ''OK'' [\<lparr>h_name = ''content-length'', h_value = uint_text (2 ^ 64 + 1)\<rparr>]
      (bytes_of ''hello'')) = Inr r \<and> rs_status r = 200 \<and> rs_body r = bytes_of ''h''"
proof -
  let ?h = "\<lparr>h_name = ''content-length'', h_value = uint_text (2 ^ 64 + 1)\<rparr>"
  have dec: "uint_text (2 ^ 64 + 1) = ''18446744073709551617''"
    by (simp add: uint_text_def uint_tmp_def uint_digits.simps, code_simp)
  have "IEqual ''content-length'' ''Content-Length''" by code_simp
  then have fh: "find_header [?h] ''Content-Length'' = Some ?h" by (simp add: find_header_def)
  have "header_ok ?h" unfolding dec
    by (simp add: header_ok_def trimmed_def blank_front_def blank_back_def CR_def)
  then have prems: "200 < (1000::nat)" "trimmed ''OK''" "CR \<notin> set ''OK''" "list_all header_ok [?h]"
      "length [?h] \<le> ETLX_HTTP_MAX_HEADERS"
    by (simp_all add: trimmed_def blank_front_def blank_back_def CR_def config_defs)
  from parse_response_roundtrip [OF prems, of "bytes_of ''hello''", unfolded fh option.case]
  obtain r where "ParseResponse (response_bytes 200 ''OK'' [?h] (bytes_of ''hello'')) = Inr r"
    "rs_status r = int 200"
    and len: "\<forall>len. h_value ?h = uint_text len \<longrightarrow>
      rs_content_length r = Some (wrap_size len) \<and> rs_body r = take (wrap_size len) (bytes_of ''hello'')"
    by blast
  moreover have "rs_body r = take (wrap_size (2 ^ 64 + 1)) (bytes_of ''hello'')"
    using len [rule_format, of "2 ^ 64 + 1"] by simp
  ultimately have "ParseResponse (response_bytes 200 ''OK'' [?h] (bytes_of ''hello'')) = Inr r"
    "rs_status r = int 200" "rs_body r = take (wrap_size (2 ^ 64 + 1)) (bytes_of ''hello'')" by blast+
  then show ?thesis by (simp add: wrap_size_def)
qed


text \<open>
  The outcome of parsing any bytes at all: one of the three failures, or a response with at most
  16 headers whose body is a piece of what was received, no longer than the content length it
  reports.
\<close>

theorem parse_any_response:
  "case ParseResponse raw of
     Inl e \<Rightarrow> code e \<in> {http_Incomplete, http_Malformed, http_TooManyHeaders}
   | Inr r \<Rightarrow> length (rs_headers r) \<le> ETLX_HTTP_MAX_HEADERS \<and> 0 \<le> rs_status r \<and> rs_status r \<le> 999 \<and>
       (\<exists>pre post. raw = pre @ rs_body r @ post) \<and>
       (case rs_content_length r of None \<Rightarrow> True
        | Some n \<Rightarrow> n < 2 ^ 64 \<and> length (rs_body r) \<le> n)"
proof (cases "ParseResponse raw")
  case (Inl e)
  with ParseResponse_cases [of raw] show ?thesis by simp
next
  case (Inr r)
  with ParseResponse_cases [of raw] obtain n reason hs k where r:
      "r = set_body (drop k raw) (Response_init\<lparr>rs_status := n, rs_reason := reason, rs_headers := hs\<rparr>)"
      "0 \<le> n" "n \<le> 999" "length hs \<le> ETLX_HTTP_MAX_HEADERS"
    by (auto simp: good_response_def)
  from set_body_facts [where body = "drop k raw" and resp = "Response_init\<lparr>rs_status := n, rs_reason := reason, rs_headers := hs\<rparr>"]
  obtain post where "drop k raw = rs_body r @ post"
    and cl: "case rs_content_length r of None \<Rightarrow> True
        | Some n \<Rightarrow> n < 2 ^ 64 \<and> length (rs_body r) \<le> n"
    and same: "rs_status r = n" "rs_headers r = hs"
    unfolding r(1) by (auto simp: Response_init_def split: option.splits)
  then have "raw = take k raw @ rs_body r @ post" by (metis append_take_drop_id)
  with Inr cl same r(2-4) show ?thesis by auto
qed

text \<open>
  A GET over a socket that delivers its answer in pieces sends exactly the built request, always
  returns, and gives what parsing the whole answer gives, as far as it fits the receive buffer.
\<close>

theorem client_get_over_mock:
  assumes "length reqbuf = 1024"
    and "length (request_bytes (Request_init\<lparr>rq_method := Get, rq_host := host, rq_path := path\<rparr>)) \<le> 1024"
    and "cm_pos s \<le> length (cm_data s)"
  shows "\<exists>buf' s'. Client_Get (\<lambda>src s. Some (mock_Send src s)) (\<lambda>dst s. Some (mock_Recv dst s)) s host path recv_buf reqbuf =
      Some (ParseResponse (take (length recv_buf) (drop (cm_pos s) (cm_data s))), buf', s') \<and>
    cm_sent s' = cm_sent s @
      request_bytes (Request_init\<lparr>rq_method := Get, rq_host := host, rq_path := path\<rparr>)"
  unfolding Client_Get_def using assms by (intro mock.Client_Do_total) simp_all

theorem client_get_over_mock_witness:
  "\<exists>buf' s'. Client_Get (\<lambda>src s. Some (mock_Send src s)) (\<lambda>dst s. Some (mock_Recv dst s))
      \<lparr>cm_data = response_bytes 204 ''No Content'' [] (bytes_of ''hello world''), cm_pos = 0, cm_sent = []\<rparr>
      ''h'' ''/'' (replicate 256 0) (replicate 1024 0) =
    Some (ParseResponse (take 256 (response_bytes 204 ''No Content'' [] (bytes_of ''hello world''))),
      buf', s')"
proof -
  let ?s = "\<lparr>cm_data = response_bytes 204 ''No Content'' [] (bytes_of ''hello world''), cm_pos = 0, cm_sent = []\<rparr>"
  have "length (replicate 1024 (0 :: u8)) = 1024"
    "length (request_bytes (Request_init\<lparr>rq_method := Get, rq_host := ''h'', rq_path := ''/''\<rparr>)) \<le> 1024"
    "cm_pos ?s \<le> length (cm_data ?s)"
    by (simp_all add: request_bytes_def Request_init_def CRLF_simps)
  from client_get_over_mock [OF this, of "replicate 256 0"] show ?thesis
    by (simp only: length_replicate) auto
qed

end
