(* ===== verification/HostTcp.thy ===== *)
theory HostTcp
  imports Http
begin

section \<open>HostTcp: the POSIX socket\<close>

text \<open>
  \<open>ports/host/host_tcp.hpp\<close> and \<open>host_tcp.cpp\<close>. The system calls are the fields of a record
  \<open>Os\<close> that the operations take as an argument; they act on a world \<open>'w\<close>. A call returns a
  number or fails with an \<open>errno\<close>. The two loops that start again after \<open>EINTR\<close> are partial
  functions: \<open>None\<close> stands for not returning. The locale \<open>posix\<close> states what the code relies on,
  and under it the socket keeps the contract of \<open>Net\<close>.
\<close>

datatype Errno = EINTR | Eother string

type_synonym 'a Sys = "Errno + 'a"

record 'w Os =
  os_getaddrinfo :: "string \<Rightarrow> string \<Rightarrow> 'w \<Rightarrow> nat list option \<times> 'w"
  os_socket :: "nat \<Rightarrow> 'w \<Rightarrow> nat Sys \<times> 'w"
  os_connect :: "nat \<Rightarrow> nat \<Rightarrow> 'w \<Rightarrow> unit Sys \<times> 'w"
  os_send :: "nat option \<Rightarrow> bytes \<Rightarrow> 'w \<Rightarrow> nat Sys \<times> 'w"
  os_recv :: "nat option \<Rightarrow> nat \<Rightarrow> 'w \<Rightarrow> bytes Sys \<times> 'w"
  os_close :: "nat \<Rightarrow> 'w \<Rightarrow> 'w"

text \<open>The descriptor \<open>-1\<close> is \<open>None\<close>.\<close>

record 'w Posix =
  px_fd :: "nat option"
  px_world :: 'w

definition strerror :: "Errno \<Rightarrow> string" where
  "strerror e = (case e of EINTR \<Rightarrow> ''Interrupted system call'' | Eother s \<Rightarrow> s)"

definition Posix_Close :: "'w Os \<Rightarrow> 'w Posix \<Rightarrow> 'w Posix" where
  "Posix_Close os s =
     (case px_fd s of
        Some fd \<Rightarrow> s\<lparr>px_fd := None, px_world := os_close os fd (px_world s)\<rparr>
      | None \<Rightarrow> s)"

text \<open>The addresses are tried in turn; a socket that does not connect is closed again.\<close>

fun connect_loop :: "'w Os \<Rightarrow> nat list \<Rightarrow> 'w \<Rightarrow> nat option \<times> 'w" where
  "connect_loop os [] w = (None, w)"
| "connect_loop os (ai # rest) w =
     (case os_socket os ai w of
        (Inl _, w) \<Rightarrow> connect_loop os rest w
      | (Inr fd, w) \<Rightarrow>
          (case os_connect os fd ai w of
             (Inr _, w) \<Rightarrow> (Some fd, w)
           | (Inl _, w) \<Rightarrow> connect_loop os rest (os_close os fd w)))"

definition Posix_Connect :: "'w Os \<Rightarrow> string \<Rightarrow> nat \<Rightarrow> 'w Posix \<Rightarrow> Status \<times> 'w Posix" where
  "Posix_Connect os host port s =
     (let s = Posix_Close os s;
          host_z = fixed_string 256 host;
          port_z = uint_text port in
      (case os_getaddrinfo os host_z port_z (px_world s) of (res, w) \<Rightarrow>
         (case res of
            None \<Rightarrow> (Fail net_Category net_ResolveFailed ''getaddrinfo failed'', s\<lparr>px_world := w\<rparr>)
          | Some ais \<Rightarrow>
              if ais = []
              then (Fail net_Category net_ResolveFailed ''getaddrinfo failed'', s\<lparr>px_world := w\<rparr>)
              else
                (case connect_loop os ais w of
                   (None, w) \<Rightarrow>
                     (Fail net_Category net_ConnectFailed ''connect failed'', s\<lparr>px_world := w\<rparr>)
                 | (Some fd, w) \<Rightarrow> (Ok, s\<lparr>px_world := w, px_fd := Some fd\<rparr>)))))"

partial_function (option) send_loop :: "'w Os \<Rightarrow> bytes \<Rightarrow> nat \<Rightarrow> 'w Posix \<Rightarrow> (Status \<times> 'w Posix) option" where
  "send_loop os src sent s =
     (if sent < length src then
        (case os_send os (px_fd s) (drop sent src) (px_world s) of (r, w) \<Rightarrow>
           (case r of
              Inl e \<Rightarrow>
                if e = EINTR then send_loop os src sent (s\<lparr>px_world := w\<rparr>)
                else Some (Fail net_Category net_SendFailed (strerror e), s\<lparr>px_world := w\<rparr>)
            | Inr n \<Rightarrow> send_loop os src (sent + n) (s\<lparr>px_world := w\<rparr>)))
      else Some (Ok, s))"

definition Posix_Send :: "'w Os \<Rightarrow> bytes \<Rightarrow> 'w Posix \<Rightarrow> (Status \<times> 'w Posix) option" where
  "Posix_Send os src s = send_loop os src 0 s"

partial_function (option) Posix_Recv ::
    "'w Os \<Rightarrow> bytes \<Rightarrow> 'w Posix \<Rightarrow> (nat Result \<times> bytes \<times> 'w Posix) option" where
  "Posix_Recv os dst s =
     (case os_recv os (px_fd s) (length dst) (px_world s) of (r, w) \<Rightarrow>
        (case r of
           Inl e \<Rightarrow>
             if e = EINTR then Posix_Recv os dst (s\<lparr>px_world := w\<rparr>)
             else Some (Fail net_Category net_RecvFailed (strerror e), dst, s\<lparr>px_world := w\<rparr>)
         | Inr data \<Rightarrow> Some (Inr (length data), memcpy dst 0 data, s\<lparr>px_world := w\<rparr>)))"

subsection \<open>The system\<close>

text \<open>
  What is relied on of a connection without faults, for receiving alone and for both directions. \<open>patience\<close> bounds how often a call is still
  interrupted or accepts nothing, so that the loops end; a call gives at most what it is asked for,
  and nothing only when the peer has closed.
\<close>

locale posix_in =
  fixes os :: "'w Os"
    and connected :: "nat option \<Rightarrow> 'w \<Rightarrow> bool"
    and inbound :: "'w \<Rightarrow> bytes"
    and outbound :: "'w \<Rightarrow> bytes"
    and patience :: "'w \<Rightarrow> nat"
  assumes recv_law: "connected fd w \<Longrightarrow> os_recv os fd n w = (got, w') \<Longrightarrow>
      connected fd w' \<and> outbound w' = outbound w \<and>
      (case got of
         Inl e \<Rightarrow> e = EINTR \<and> inbound w' = inbound w \<and> patience w' < patience w
       | Inr data \<Rightarrow> length data \<le> n \<and> inbound w = data @ inbound w' \<and>
           (data = [] \<longrightarrow> n = 0 \<or> inbound w = []))"

locale posix = posix_in +
  assumes send_law: "connected fd w \<Longrightarrow> src \<noteq> [] \<Longrightarrow> os_send os fd src w = (r, w') \<Longrightarrow>
      connected fd w' \<and> inbound w' = inbound w \<and>
      (case r of
         Inl e \<Rightarrow> e = EINTR \<and> outbound w' = outbound w \<and> patience w' < patience w
       | Inr n \<Rightarrow> n \<le> length src \<and> outbound w' = outbound w @ take n src \<and>
           patience w' \<le> patience w \<and> (n = 0 \<longrightarrow> patience w' < patience w))"
begin

lemma send_loop_sends:
  assumes "connected (px_fd s) (px_world s)" "sent \<le> length src"
  shows "\<exists>s'. send_loop os src sent s = Some (Ok, s') \<and> px_fd s' = px_fd s \<and>
    connected (px_fd s') (px_world s') \<and> inbound (px_world s') = inbound (px_world s) \<and>
    outbound (px_world s') = outbound (px_world s) @ drop sent src"
  using assms
proof (induction "length src - sent + patience (px_world s)" arbitrary: s sent rule: less_induct)
  case less
  show ?case
  proof (cases "sent < length src")
    case False
    with less.prems show ?thesis by (simp add: send_loop.simps)
  next
    case True
    then have "drop sent src \<noteq> []" by simp
    obtain r w where r: "os_send os (px_fd s) (drop sent src) (px_world s) = (r, w)" by fastforce
    note law = send_law [OF less.prems(1) \<open>drop sent src \<noteq> []\<close> r]
    let ?s = "s\<lparr>px_world := w\<rparr>"
    show ?thesis
    proof (cases r)
      case (Inl e)
      with law have "e = EINTR" "patience w < patience (px_world s)" "outbound w = outbound (px_world s)"
        "inbound w = inbound (px_world s)" "connected (px_fd s) w" by auto
      with less.hyps [of sent ?s] less.prems True Inl r show ?thesis
        by (simp add: send_loop.simps [of os src sent s])
    next
      case (Inr n)
      with law have n: "n \<le> length src - sent" "patience w \<le> patience (px_world s)"
        "n = 0 \<longrightarrow> patience w < patience (px_world s)" "inbound w = inbound (px_world s)"
        "outbound w = outbound (px_world s) @ take n (drop sent src)" "connected (px_fd s) w" by auto
      have "length src - (sent + n) + patience (px_world ?s) < length src - sent + patience (px_world s)"
        using n(1-3) True by (cases "n = 0") auto
      moreover have "sent + n \<le> length src" using n(1) True by simp
      ultimately obtain s' where
        "send_loop os src (sent + n) ?s = Some (Ok, s')" "px_fd s' = px_fd s"
        "connected (px_fd s') (px_world s')" "inbound (px_world s') = inbound (px_world s)"
        "outbound (px_world s') = outbound w @ drop (sent + n) src"
        using less.hyps [of "sent + n" ?s] n(4,6) by auto
      moreover have "take n (drop sent src) @ drop (sent + n) src = drop sent src"
        by (metis add.commute append_take_drop_id drop_drop)
      ultimately show ?thesis
        using True Inr r n(5) by (simp add: send_loop.simps [of os src sent s])
    qed
  qed
qed

end

context posix_in
begin

lemma Recv_receives:
  assumes "connected (px_fd s) (px_world s)"
  shows "\<exists>data s'. Posix_Recv os dst s = Some (Inr (length data), memcpy dst 0 data, s') \<and>
    px_fd s' = px_fd s \<and> connected (px_fd s') (px_world s') \<and> length data \<le> length dst \<and>
    inbound (px_world s) = data @ inbound (px_world s') \<and>
    outbound (px_world s') = outbound (px_world s) \<and>
    (data = [] \<longrightarrow> dst = [] \<or> inbound (px_world s) = [])"
  using assms
proof (induction "patience (px_world s)" arbitrary: s rule: less_induct)
  case less
  obtain r w where r: "os_recv os (px_fd s) (length dst) (px_world s) = (r, w)" by fastforce
  note law = recv_law [OF less.prems r]
  show ?case
  proof (cases r)
    case (Inl e)
    with law less.hyps [of "s\<lparr>px_world := w\<rparr>"] r show ?thesis
      by (simp add: Posix_Recv.simps [of os dst s])
  next
    case (Inr data)
    with law r show ?thesis by (auto simp: Posix_Recv.simps [of os dst s])
  qed
qed

end

sublocale posix_in \<subseteq> rx: receiver "Posix_Recv os"
    "\<lambda>s. connected (px_fd s) (px_world s)" "\<lambda>s. inbound (px_world s)" "\<lambda>s. outbound (px_world s)"
proof (unfold_locales, goal_cases)
  case (1 r dst n dst' r')
  with Recv_receives [OF 1(1), of dst] obtain data where
    "n = length data" "dst' = memcpy dst 0 data" "connected (px_fd r') (px_world r')"
    "length data \<le> length dst" "inbound (px_world r) = data @ inbound (px_world r')"
    "data = [] \<longrightarrow> dst = [] \<or> inbound (px_world r) = []"
    by auto
  with 1(2) show ?case by (auto simp: memcpy_def)
next
  case (2 r dst)
  with Recv_receives [OF 2, of dst] show ?case by auto
next
  case (3 s dst)
  with Recv_receives [OF 3, of dst] show ?case by auto
next
  case (4 s dst)
  with Recv_receives [OF 4, of dst] show ?case by auto
qed

sublocale posix \<subseteq> tcp: socket "Posix_Recv os"
    "\<lambda>s. connected (px_fd s) (px_world s)" "\<lambda>s. inbound (px_world s)"
    "Posix_Send os" "\<lambda>s. outbound (px_world s)"
proof (unfold_locales, goal_cases)
  case (1 s src)
  with send_loop_sends [of s 0 src] show ?case by (auto simp: Posix_Send_def)
qed

context posix
begin

lemma get_over_tcp:
  assumes "connected (px_fd s) (px_world s)" "length reqbuf = 1024" "length (request_bytes req) \<le> 1024"
  shows "\<exists>buf' s'. Client_Do (Posix_Send os) (Posix_Recv os) s req
      recv_buf reqbuf =
      Some (ParseResponse (take (length recv_buf) (inbound (px_world s))), buf', s') \<and>
    outbound (px_world s') = outbound (px_world s) @ request_bytes req"
  by (rule tcp.Client_Do_total [OF assms])

end

subsection \<open>A system that interrupts\<close>

text \<open>
  A loopback: every call first spends one interruption, if any are left; otherwise at most three
  bytes pass.
\<close>

record Loopback =
  lb_in :: bytes
  lb_out :: bytes
  lb_interrupts :: nat

definition lb_step :: "Loopback \<Rightarrow> Loopback" where
  "lb_step w = w\<lparr>lb_interrupts := lb_interrupts w - 1\<rparr>"

definition loopback :: "Loopback Os" where
  "loopback =
     \<lparr>os_getaddrinfo = (\<lambda>h p w. (Some [0, 1], w)),
      os_socket = (\<lambda>ai w. (Inr (ai + 3), w)),
      os_connect = (\<lambda>fd ai w. (if ai = 0 then Inl (Eother ''refused'') else Inr (), w)),
      os_send = (\<lambda>fd src w.
        if lb_interrupts w > 0 then (Inl EINTR, lb_step w)
        else (Inr (min 3 (length src)), w\<lparr>lb_out := lb_out w @ take 3 src\<rparr>)),
      os_recv = (\<lambda>fd n w.
        if lb_interrupts w > 0 then (Inl EINTR, lb_step w)
        else (Inr (take (min 3 n) (lb_in w)), w\<lparr>lb_in := drop (min 3 n) (lb_in w)\<rparr>)),
      os_close = (\<lambda>fd w. w)\<rparr>"

interpretation loop: posix loopback "\<lambda>_ _. True" lb_in lb_out lb_interrupts
  by unfold_locales
    (auto simp: loopback_def lb_step_def min_def Cons_eq_append_conv split: if_splits)

subsection \<open>Connecting\<close>

lemma connect_loop_first:
  "case connect_loop os ais w of
     (Some fd, w') \<Rightarrow> \<exists>pre ai post. ais = pre @ ai # post \<and>
       (\<exists>w1 w2. os_socket os ai w1 = (Inr fd, w2) \<and> (\<exists>u. os_connect os fd ai w2 = (Inr u, w')))
   | (None, _) \<Rightarrow> True"
proof (induction os ais w rule: connect_loop.induct)
  case (2 os ai rest w)
  then show ?case
    by (auto split: prod.splits sum.splits option.splits)
      (metis append_Cons append_Nil)+
qed simp

subsection \<open>Properties\<close>

text \<open>
  C34: over a connected socket of a system that keeps its rules, however often it interrupts the
  calls and in whatever pieces it takes and gives the bytes, an http exchange returns, sends exactly
  the request and parses the whole answer.
\<close>

theorem http_over_posix:
  assumes "posix os connected inbound outbound patience"
    and "connected (px_fd s) (px_world s)"
    and "length reqbuf = 1024" and "length (request_bytes req) \<le> 1024"
  shows "\<exists>buf' s'. Client_Do (Posix_Send os) (Posix_Recv os) s req
      recv_buf reqbuf =
      Some (ParseResponse (take (length recv_buf) (inbound (px_world s))), buf', s') \<and>
    outbound (px_world s') = outbound (px_world s) @ request_bytes req"
  by (rule posix.get_over_tcp [OF assms])

theorem http_over_posix_witness:
  "\<exists>buf' s'. Client_Do (Posix_Send loopback) (Posix_Recv loopback)
      \<lparr>px_fd = Some 4, px_world = \<lparr>lb_in = response_bytes 204 ''No Content'' [] [], lb_out = [], lb_interrupts = 5\<rparr>\<rparr>
      (Request_init\<lparr>rq_host := ''h''\<rparr>) (replicate 256 0) (replicate 1024 0) =
    Some (ParseResponse (take 256 (response_bytes 204 ''No Content'' [] [])), buf', s') \<and>
    lb_out (px_world s') = request_bytes (Request_init\<lparr>rq_host := ''h''\<rparr>)"
proof -
  have "length (replicate 1024 (0 :: u8)) = 1024"
    "length (request_bytes (Request_init\<lparr>rq_host := ''h''\<rparr>)) \<le> 1024"
    by (simp_all add: request_bytes_def Request_init_def CRLF_simps)
  from http_over_posix [OF loop.posix_axioms _ this, of "\<lparr>px_fd = Some 4,
      px_world = \<lparr>lb_in = response_bytes 204 ''No Content'' [] [], lb_out = [], lb_interrupts = 5\<rparr>\<rparr>"
      "replicate 256 0"]
  show ?thesis by (simp only: length_replicate) simp
qed

text \<open>
  \<open>Connect\<close> first closes what was open and leaves a descriptor exactly when it succeeds; it
  fails only with \<open>ResolveFailed\<close> or \<open>ConnectFailed\<close>; and the descriptor it keeps is one that was
  opened for one of the resolved addresses and whose connection succeeded.
\<close>

theorem posix_connect_outcome:
  "case Posix_Connect os host port s of
     (st, s') \<Rightarrow>
       err_code st \<in> {None, Some net_ResolveFailed, Some net_ConnectFailed} \<and>
       (case px_fd s' of
          None \<Rightarrow> \<not> is_ok st
        | Some fd \<Rightarrow> is_ok st \<and> (\<exists>ais ai w w1 w2 u.
            fst (os_getaddrinfo os (take 256 host) (uint_text port) w) = Some ais \<and> ai \<in> set ais \<and>
            os_socket os ai w1 = (Inr fd, w2) \<and> os_connect os fd ai w2 = (Inr u, px_world s')))"
proof -
  have fd: "px_fd (Posix_Close os s) = None" by (simp add: Posix_Close_def split: option.split)
  obtain res w where g: "os_getaddrinfo os (take 256 host) (uint_text port)
      (px_world (Posix_Close os s)) = (res, w)" by fastforce
  show ?thesis
  proof (cases "\<exists>ais. res = Some ais \<and> ais \<noteq> []")
    case False
    with g fd show ?thesis
      by (auto simp: Posix_Connect_def Let_def fixed_string_def Fail_def split: option.split)
  next
    case True
    then obtain ais where ais: "res = Some ais" "ais \<noteq> []" by blast
    obtain ofd w' where c: "connect_loop os ais w = (ofd, w')" by fastforce
    show ?thesis
    proof (cases ofd)
      case None
      with g ais c fd show ?thesis by (simp add: Posix_Connect_def Let_def fixed_string_def Fail_def)
    next
      case (Some d)
      with connect_loop_first [where os = os and ais = ais and w = w] c obtain ai w1 w2 u where
        "ai \<in> set ais" "os_socket os ai w1 = (Inr d, w2)" "os_connect os d ai w2 = (Inr u, w')"
        by auto blast
      moreover have "fst (os_getaddrinfo os (take 256 host) (uint_text port)
          (px_world (Posix_Close os s))) = Some ais" using g ais by simp
      moreover have "Posix_Connect os host port s =
          (Ok, (Posix_Close os s)\<lparr>px_world := w', px_fd := Some d\<rparr>)"
        using g ais c Some by (simp add: Posix_Connect_def Let_def fixed_string_def)
      ultimately show ?thesis by auto
    qed
  qed
qed

text \<open>
  A host name longer than the buffer of 256 characters is cut without an error: the connection is made
  to the host the first 256 characters name.
\<close>

theorem long_host_is_cut: "Posix_Connect os host port s = Posix_Connect os (take 256 host) port s"
  by (simp add: Posix_Connect_def fixed_string_def)

end
