(* ===== verification/Tls.thy ===== *)
theory Tls
  imports HostTcp
begin

section \<open>Tls: the TLS socket\<close>

text \<open>
  \<open>include/etlx/net/tls.hpp\<close> and \<open>src/net/tls.cpp\<close>. The library mbedTLS and the transport are the
  fields of a record \<open>TlsEnv\<close> that act on a world \<open>'w\<close>; the configuration calls are values of
  \<open>MbedCall\<close>, and the ones a socket has made are kept in order in the ghost field \<open>tl_calls\<close>, so
  that their order can be stated. The error numbers are the library's; only their signs matter.
\<close>

datatype AuthMode = VERIFY_NONE | VERIFY_REQUIRED

datatype 'k MbedCall =
    DrbgSeed | ConfigDefaults | ConfRng | ConfAuthmode AuthMode
  | ParseCa string | ConfCaChain | ParseOwnCert string | ParseKey string
  | ConfOwnCert "'k option" | SslSetup | SetHostname string | SetBio | Handshake | CloseNotify

text \<open>The two callbacks the socket registers.\<close>

record 'w Bio =
  bio_send :: "bytes \<Rightarrow> 'w \<Rightarrow> int \<times> 'w"
  bio_recv :: "bytes \<Rightarrow> 'w \<Rightarrow> int \<times> bytes \<times> 'w"

record ('k, 'w) TlsEnv =
  tr_Connect :: "string \<Rightarrow> nat \<Rightarrow> 'w \<Rightarrow> Status \<times> 'w"
  tr_Send :: "bytes \<Rightarrow> 'w \<Rightarrow> Status \<times> 'w"
  tr_Recv :: "bytes \<Rightarrow> 'w \<Rightarrow> nat Result \<times> bytes \<times> 'w"
  tr_Close :: "'w \<Rightarrow> 'w"
  mb_call :: "'k MbedCall \<Rightarrow> 'w Bio \<Rightarrow> 'w \<Rightarrow> int \<times> 'w"
  mb_write :: "'w Bio \<Rightarrow> bytes \<Rightarrow> 'w \<Rightarrow> int \<times> 'w"
  mb_read :: "'w Bio \<Rightarrow> bytes \<Rightarrow> 'w \<Rightarrow> int \<times> bytes \<times> 'w"
  ERR_WANT_READ :: int
  ERR_WANT_WRITE :: int
  ERR_PEER_CLOSE_NOTIFY :: int
  ERR_INTERNAL :: int

record TlsConfig =
  ca_cert_pem :: string
  client_cert_pem :: string
  client_key_pem :: string
  server_name :: string
  skip_verify :: bool

record ('k, 'w) TlsSocket =
  tl_world :: 'w
  tl_external_key :: "'k option"
  tl_server_name :: string
  tl_configured :: bool
  tl_handshaked :: bool
  tl_calls :: "'k MbedCall list"

definition TlsSocket_new :: "'w \<Rightarrow> ('k, 'w) TlsSocket" where
  "TlsSocket_new w = \<lparr>tl_world = w, tl_external_key = None, tl_server_name = [],
     tl_configured = False, tl_handshaked = False, tl_calls = []\<rparr>"

definition UseExternalKey :: "'k \<Rightarrow> ('k, 'w) TlsSocket \<Rightarrow> ('k, 'w) TlsSocket" where
  "UseExternalKey pk s = s\<lparr>tl_external_key := Some pk\<rparr>"

text \<open>\<open>static_cast<int>\<close> of a size.\<close>

definition int_of_size :: "nat \<Rightarrow> int" where
  "int_of_size n = sint (word_of_nat n :: 32 word)"

definition BioSend :: "('k, 'w) TlsEnv \<Rightarrow> bytes \<Rightarrow> 'w \<Rightarrow> int \<times> 'w" where
  "BioSend env buf w =
     (case tr_Send env buf w of
        (Inl e, w') \<Rightarrow> (ERR_INTERNAL env, w')
      | (Inr _, w') \<Rightarrow> (int_of_size (length buf), w'))"

definition BioRecv :: "('k, 'w) TlsEnv \<Rightarrow> bytes \<Rightarrow> 'w \<Rightarrow> int \<times> bytes \<times> 'w" where
  "BioRecv env buf w =
     (case tr_Recv env buf w of
        (Inl e, buf', w') \<Rightarrow> (ERR_INTERNAL env, buf', w')
      | (Inr n, buf', w') \<Rightarrow> (int_of_size n, buf', w'))"

definition tls_bio :: "('k, 'w) TlsEnv \<Rightarrow> 'w Bio" where
  "tls_bio env = \<lparr>bio_send = BioSend env, bio_recv = BioRecv env\<rparr>"

text \<open>A call of the library, noted in the ghost field.\<close>

definition mbed ::
    "('k, 'w) TlsEnv \<Rightarrow> 'k MbedCall \<Rightarrow> ('k, 'w) TlsSocket \<Rightarrow> int \<times> ('k, 'w) TlsSocket" where
  "mbed env c s =
     (case mb_call env c (tls_bio env) (tl_world s) of (ret, w) \<Rightarrow>
        (ret, s\<lparr>tl_world := w, tl_calls := tl_calls s @ [c]\<rparr>))"

text \<open>A call whose result the code tests against 0, and then goes on.\<close>

definition mbed_ok ::
    "('k, 'w) TlsEnv \<Rightarrow> 'k MbedCall \<Rightarrow> string \<Rightarrow> ('k, 'w) TlsSocket \<Rightarrow>
     (('k, 'w) TlsSocket \<Rightarrow> Status \<times> ('k, 'w) TlsSocket) \<Rightarrow> Status \<times> ('k, 'w) TlsSocket" where
  "mbed_ok env c msg s k =
     (case mbed env c s of (ret, s') \<Rightarrow>
        if ret \<noteq> 0 then (Fail net_Category net_TlsError msg, s') else k s')"

subsection \<open>Configuring\<close>

definition configure_verify ::
    "('k, 'w) TlsEnv \<Rightarrow> TlsConfig \<Rightarrow> ('k, 'w) TlsSocket \<Rightarrow>
     (('k, 'w) TlsSocket \<Rightarrow> Status \<times> ('k, 'w) TlsSocket) \<Rightarrow> Status \<times> ('k, 'w) TlsSocket" where
  "configure_verify env cfg s k =
     (if skip_verify cfg then k (snd (mbed env (ConfAuthmode VERIFY_NONE) s))
      else
        mbed_ok env (ParseCa (ca_cert_pem cfg)) ''parse CA cert failed'' s (\<lambda>s.
          let s = snd (mbed env ConfCaChain s);
              s = snd (mbed env (ConfAuthmode VERIFY_REQUIRED) s) in
          k s))"

definition configure_client ::
    "('k, 'w) TlsEnv \<Rightarrow> TlsConfig \<Rightarrow> ('k, 'w) TlsSocket \<Rightarrow>
     (('k, 'w) TlsSocket \<Rightarrow> Status \<times> ('k, 'w) TlsSocket) \<Rightarrow> Status \<times> ('k, 'w) TlsSocket" where
  "configure_client env cfg s k =
     (let have_key = (client_key_pem cfg \<noteq> [] \<or> tl_external_key s \<noteq> None) in
      if client_cert_pem cfg \<noteq> [] \<and> have_key
      then
        mbed_ok env (ParseOwnCert (client_cert_pem cfg)) ''parse client cert failed'' s (\<lambda>s.
          let own_cert = (\<lambda>key s. mbed_ok env (ConfOwnCert key) ''set client cert failed'' s k) in
          if tl_external_key s \<noteq> None then own_cert (tl_external_key s) s
          else
            mbed_ok env (ParseKey (client_key_pem cfg)) ''parse client key failed'' s (own_cert None))
      else k s)"

definition Configure ::
    "('k, 'w) TlsEnv \<Rightarrow> TlsConfig \<Rightarrow> ('k, 'w) TlsSocket \<Rightarrow> Status \<times> ('k, 'w) TlsSocket" where
  "Configure env cfg s =
     mbed_ok env DrbgSeed ''drbg seed failed'' s (\<lambda>s.
     mbed_ok env ConfigDefaults ''ssl config defaults failed'' s (\<lambda>s.
     let s = snd (mbed env ConfRng s) in
     configure_verify env cfg s (\<lambda>s.
     configure_client env cfg s (\<lambda>s.
     mbed_ok env SslSetup ''ssl setup failed'' s (\<lambda>s.
     (Ok, s\<lparr>tl_server_name := server_name cfg, tl_configured := True\<rparr>))))))"

subsection \<open>Connecting\<close>

text \<open>The handshake is tried again for as long as the library wants it: \<open>None\<close> is not returning.\<close>

partial_function (option) handshake_loop ::
    "('k, 'w) TlsEnv \<Rightarrow> ('k, 'w) TlsSocket \<Rightarrow> (Status \<times> ('k, 'w) TlsSocket) option" where
  "handshake_loop env s =
     (case mbed env Handshake s of (ret, s') \<Rightarrow>
        if ret \<noteq> 0 then
          (if ret \<noteq> ERR_WANT_READ env \<and> ret \<noteq> ERR_WANT_WRITE env
           then Some (Fail net_Category net_TlsError ''TLS handshake failed'', s')
           else handshake_loop env s')
        else Some (Ok, s'\<lparr>tl_handshaked := True\<rparr>))"

definition Tls_Connect ::
    "('k, 'w) TlsEnv \<Rightarrow> string \<Rightarrow> nat \<Rightarrow> ('k, 'w) TlsSocket \<Rightarrow> (Status \<times> ('k, 'w) TlsSocket) option" where
  "Tls_Connect env host port s =
     (if \<not> tl_configured s then Some (Fail net_Category net_TlsError ''Configure not called'', s)
      else
        (case tr_Connect env host port (tl_world s) of
           (Inl e, w) \<Rightarrow> Some (Inl e, s\<lparr>tl_world := w\<rparr>)
         | (Inr _, w) \<Rightarrow>
             let s = s\<lparr>tl_world := w\<rparr>;
                 name = (if tl_server_name s = [] then host else tl_server_name s);
                 n = (if length name < 255 then length name else 255);
                 namez = take n name in
             (case mbed env (SetHostname namez) s of (ret, s) \<Rightarrow>
                if ret \<noteq> 0 then Some (Fail net_Category net_TlsError ''set hostname failed'', s)
                else handshake_loop env (snd (mbed env SetBio s)))))"

subsection \<open>Sending, receiving, closing\<close>

partial_function (option) tls_send_loop ::
    "('k, 'w) TlsEnv \<Rightarrow> bytes \<Rightarrow> nat \<Rightarrow> ('k, 'w) TlsSocket \<Rightarrow> (Status \<times> ('k, 'w) TlsSocket) option" where
  "tls_send_loop env src sent s =
     (if sent < length src then
        (case mb_write env (tls_bio env) (drop sent src) (tl_world s) of (ret, w) \<Rightarrow>
           let s = s\<lparr>tl_world := w\<rparr> in
           if ret > 0 then tls_send_loop env src (sent + nat ret) s
           else if ret = ERR_WANT_READ env \<or> ret = ERR_WANT_WRITE env then tls_send_loop env src sent s
           else Some (Fail net_Category net_SendFailed ''ssl write failed'', s))
      else Some (Ok, s))"

definition Tls_Send ::
    "('k, 'w) TlsEnv \<Rightarrow> bytes \<Rightarrow> ('k, 'w) TlsSocket \<Rightarrow> (Status \<times> ('k, 'w) TlsSocket) option" where
  "Tls_Send env src s = tls_send_loop env src 0 s"

partial_function (option) Tls_Recv ::
    "('k, 'w) TlsEnv \<Rightarrow> bytes \<Rightarrow> ('k, 'w) TlsSocket \<Rightarrow> (nat Result \<times> bytes \<times> ('k, 'w) TlsSocket) option" where
  "Tls_Recv env dst s =
     (case mb_read env (tls_bio env) dst (tl_world s) of (ret, dst', w) \<Rightarrow>
        let s = s\<lparr>tl_world := w\<rparr> in
        if ret \<ge> 0 then Some (Inr (nat ret), dst', s)
        else if ret = ERR_PEER_CLOSE_NOTIFY env then Some (Inr 0, dst', s)
        else if ret = ERR_WANT_READ env \<or> ret = ERR_WANT_WRITE env then Tls_Recv env dst' s
        else Some (Fail net_Category net_RecvFailed ''ssl read failed'', dst', s))"

definition Tls_Close :: "('k, 'w) TlsEnv \<Rightarrow> ('k, 'w) TlsSocket \<Rightarrow> ('k, 'w) TlsSocket" where
  "Tls_Close env s =
     (let s = (if tl_handshaked s then (snd (mbed env CloseNotify s))\<lparr>tl_handshaked := False\<rparr> else s) in
      s\<lparr>tl_world := tr_Close env (tl_world s)\<rparr>)"

subsection \<open>The calls in order\<close>

lemma mbed_fields [simp]:
  "tl_calls (snd (mbed env c s)) = tl_calls s @ [c]"
  "tl_external_key (snd (mbed env c s)) = tl_external_key s"
  "tl_server_name (snd (mbed env c s)) = tl_server_name s"
  "tl_configured (snd (mbed env c s)) = tl_configured s"
  "tl_handshaked (snd (mbed env c s)) = tl_handshaked s"
  by (simp_all add: mbed_def split: prod.split)

lemma mbed_configured: "mbed env c s = (ret, s') \<Longrightarrow> tl_configured s' = tl_configured s"
  using mbed_fields(4) [of env c s] by (simp del: mbed_fields)

lemma mbed_ok_Ok:
  assumes "mbed_ok env c msg s k = (Inr u, s')"
  shows "k (snd (mbed env c s)) = (Inr u, s')"
  using assms by (auto simp: mbed_ok_def Fail_def split: prod.splits if_splits)

text \<open>The calls of a configuration that succeeds.\<close>

definition verify_calls :: "TlsConfig \<Rightarrow> 'k MbedCall list" where
  "verify_calls cfg =
     (if skip_verify cfg then [ConfAuthmode VERIFY_NONE]
      else [ParseCa (ca_cert_pem cfg), ConfCaChain, ConfAuthmode VERIFY_REQUIRED])"

definition client_calls :: "TlsConfig \<Rightarrow> 'k option \<Rightarrow> 'k MbedCall list" where
  "client_calls cfg key =
     (if client_cert_pem cfg = [] then []
      else case key of
        Some k \<Rightarrow> [ParseOwnCert (client_cert_pem cfg), ConfOwnCert (Some k)]
      | None \<Rightarrow>
          if client_key_pem cfg = [] then []
          else [ParseOwnCert (client_cert_pem cfg), ParseKey (client_key_pem cfg), ConfOwnCert None])"

definition config_calls :: "TlsConfig \<Rightarrow> 'k option \<Rightarrow> 'k MbedCall list" where
  "config_calls cfg key =
     [DrbgSeed, ConfigDefaults, ConfRng] @ verify_calls cfg @ client_calls cfg key @ [SslSetup]"

definition sni :: "TlsConfig \<Rightarrow> string \<Rightarrow> string" where
  "sni cfg host = take 255 (if server_name cfg = [] then host else server_name cfg)"

lemma configure_verify_Ok:
  assumes "configure_verify env cfg s k = (Inr u, s')"
  shows "\<exists>s1. k s1 = (Inr u, s') \<and> tl_calls s1 = tl_calls s @ verify_calls cfg \<and>
    tl_external_key s1 = tl_external_key s"
proof (cases "skip_verify cfg")
  case True
  with assms show ?thesis
    by (intro exI [of _ "snd (mbed env (ConfAuthmode VERIFY_NONE) s)"])
      (simp add: configure_verify_def verify_calls_def)
next
  case False
  with assms mbed_ok_Ok [of env "ParseCa (ca_cert_pem cfg)" _ s] show ?thesis
    by (fastforce simp: configure_verify_def verify_calls_def Let_def)
qed

lemma configure_client_Ok:
  assumes "configure_client env cfg s k = (Inr u, s')"
  shows "\<exists>s1. k s1 = (Inr u, s') \<and> tl_calls s1 = tl_calls s @ client_calls cfg (tl_external_key s) \<and>
    tl_external_key s1 = tl_external_key s"
proof (cases "client_cert_pem cfg \<noteq> [] \<and> (client_key_pem cfg \<noteq> [] \<or> tl_external_key s \<noteq> None)")
  case False
  with assms show ?thesis by (auto simp: configure_client_def client_calls_def split: option.split)
next
  case True
  note k1 = mbed_ok_Ok [of env "ParseOwnCert (client_cert_pem cfg)"]
  show ?thesis
  proof (cases "tl_external_key s")
    case None
    with True assms show ?thesis
      by (auto simp: configure_client_def client_calls_def Let_def dest!: mbed_ok_Ok)
  next
    case (Some key)
    with True assms show ?thesis
      by (auto simp: configure_client_def client_calls_def Let_def dest!: mbed_ok_Ok)
  qed
qed

lemma Configure_calls:
  assumes "Configure env cfg s = (Inr u, s')"
  shows "tl_calls s' = tl_calls s @ config_calls cfg (tl_external_key s) \<and> tl_configured s' \<and>
    tl_server_name s' = server_name cfg"
proof -
  from assms [unfolded Configure_def, THEN mbed_ok_Ok, THEN mbed_ok_Ok]
  obtain s1 where 1: "configure_client env cfg s1 (\<lambda>s. mbed_ok env SslSetup ''ssl setup failed'' s (\<lambda>s.
      (Ok, s\<lparr>tl_server_name := server_name cfg, tl_configured := True\<rparr>))) = (Inr u, s')"
    "tl_calls s1 = tl_calls s @ [DrbgSeed, ConfigDefaults, ConfRng] @ verify_calls cfg"
    "tl_external_key s1 = tl_external_key s"
    by (auto simp: Let_def dest!: configure_verify_Ok)
  from configure_client_Ok [OF 1(1)] 1(2,3) show ?thesis
    by (auto simp: config_calls_def dest!: mbed_ok_Ok)
qed

lemma handshake_loop_calls:
  assumes "handshake_loop env s = Some rs"
  shows "(\<exists>n. tl_calls (snd rs) = tl_calls s @ replicate (Suc n) Handshake) \<and>
    (is_ok (fst rs) \<longrightarrow> tl_handshaked (snd rs))"
proof (rule handshake_loop.raw_induct [OF _ assms])
  fix hs :: "('a, 'b) TlsEnv \<Rightarrow> ('a, 'b) TlsSocket \<Rightarrow> (Status \<times> ('a, 'b) TlsSocket) option"
  fix env s rs
  assume ih: "\<And>env s rs. hs env s = Some rs \<Longrightarrow>
      (\<exists>n. tl_calls (snd rs) = tl_calls s @ replicate (Suc n) Handshake) \<and>
      (is_ok (fst rs) \<longrightarrow> tl_handshaked (snd rs))"
    and body: "(case mbed env Handshake s of (ret, s') \<Rightarrow>
        if ret \<noteq> 0 then
          (if ret \<noteq> ERR_WANT_READ env \<and> ret \<noteq> ERR_WANT_WRITE env
           then Some (Fail net_Category net_TlsError ''TLS handshake failed'', s')
           else hs env s')
        else Some (Ok, s'\<lparr>tl_handshaked := True\<rparr>)) = Some rs"
  obtain ret s1 where m: "mbed env Handshake s = (ret, s1)" by fastforce
  then have s1: "tl_calls s1 = tl_calls s @ [Handshake]" using mbed_fields(1) [of env Handshake s] by simp
  show "(\<exists>n. tl_calls (snd rs) = tl_calls s @ replicate (Suc n) Handshake) \<and>
      (is_ok (fst rs) \<longrightarrow> tl_handshaked (snd rs))"
  proof (cases "ret \<noteq> 0 \<and> (ret = ERR_WANT_READ env \<or> ret = ERR_WANT_WRITE env)")
    case True
    with body m have "hs env s1 = Some rs" by (auto split: if_splits)
    from ih [OF this] s1 show ?thesis by (metis append.assoc append_Cons append_Nil replicate_Suc)
  next
    case False
    with body m have "(fst rs = Ok \<and> snd rs = s1\<lparr>tl_handshaked := True\<rparr>) \<or>
        (\<not> is_ok (fst rs) \<and> snd rs = s1)"
      by (auto simp: Fail_def split: if_splits)
    with s1 show ?thesis by (auto intro!: exI [of _ 0])
  qed
qed

lemma Connect_calls:
  assumes "Tls_Connect env host port s = Some (Inr u, s')"
  shows "tl_configured s \<and> tl_handshaked s' \<and> (\<exists>n. tl_calls s' = tl_calls s @
    [SetHostname (take 255 (if tl_server_name s = [] then host else tl_server_name s)), SetBio] @
    replicate (Suc n) Handshake)"
proof -
  let ?name = "if tl_server_name s = [] then host else tl_server_name s"
  have cut: "take (if length ?name < 255 then length ?name else 255) ?name = take 255 ?name" by simp
  obtain w where w: "tr_Connect env host port (tl_world s) = (Inr (), w)" "tl_configured s"
    using assms by (auto simp: Tls_Connect_def Fail_def split: if_splits prod.splits sum.splits)
  obtain ret s1 where m: "mbed env (SetHostname (take 255 ?name)) (s\<lparr>tl_world := w\<rparr>) = (ret, s1)"
    by fastforce
  have "ret = 0" and hs: "handshake_loop env (snd (mbed env SetBio s1)) = Some (Inr u, s')"
    using assms w m unfolding Tls_Connect_def Let_def cut
    by (auto simp: Fail_def split: if_splits)
  have "tl_calls s1 = tl_calls s @ [SetHostname (take 255 ?name)]"
    using m mbed_fields(1) [of env "SetHostname (take 255 ?name)" "s\<lparr>tl_world := w\<rparr>"] by simp
  with handshake_loop_calls [OF hs] w(2) show ?thesis by auto
qed

text \<open>A failing configuration leaves the flag as it was.\<close>

definition tls_failure :: "bool \<Rightarrow> Status \<times> ('k, 'w) TlsSocket \<Rightarrow> bool" where
  "tls_failure c r = (case r of
     (Inl e, s) \<Rightarrow> code e = net_TlsError \<and> tl_configured s = c
   | (Inr _, _) \<Rightarrow> True)"

lemma mbed_ok_failure:
  assumes "tl_configured s = c" "\<And>s1. tl_configured s1 = c \<Longrightarrow> tls_failure c (k s1)"
  shows "tls_failure c (mbed_ok env call msg s k)"
proof -
  obtain ret s1 where m: "mbed env call s = (ret, s1)" by fastforce
  with assms(1) have c: "tl_configured s1 = c" by (simp add: mbed_configured)
  show ?thesis
  proof (cases "ret = 0")
    case True
    with m assms(2) [OF c] show ?thesis by (simp add: mbed_ok_def)
  next
    case False
    with m c show ?thesis by (simp add: mbed_ok_def tls_failure_def Fail_def)
  qed
qed

lemma configure_verify_failure:
  assumes "tl_configured s = c" "\<And>s1. tl_configured s1 = c \<Longrightarrow> tls_failure c (k s1)"
  shows "tls_failure c (configure_verify env cfg s k)"
  using assms by (auto simp: configure_verify_def Let_def intro!: mbed_ok_failure)

lemma configure_client_failure:
  assumes "tl_configured s = c" "\<And>s1. tl_configured s1 = c \<Longrightarrow> tls_failure c (k s1)"
  shows "tls_failure c (configure_client env cfg s k)"
  using assms by (auto simp: configure_client_def Let_def intro!: mbed_ok_failure)

lemma Configure_error:
  assumes "Configure env cfg s = (Inl e, s')"
  shows "code e = net_TlsError \<and> tl_configured s' = tl_configured s"
proof -
  have "tls_failure (tl_configured s) (Configure env cfg s)"
    unfolding Configure_def Let_def
    by (intro mbed_ok_failure configure_verify_failure configure_client_failure)
      (simp_all add: tls_failure_def)
  with assms show ?thesis by (simp add: tls_failure_def)
qed

subsection \<open>The socket over a session\<close>

lemma int_of_size: "n < 2 ^ 31 \<Longrightarrow> int_of_size n = int n"
  by (simp add: int_of_size_def signed_of_nat signed_take_bit_int_eq_self)

text \<open>
  What is relied on of an established session: plain text is accepted and delivered in order and
  in pieces, the library asks to be called again only finitely often, and it reports the end of the
  stream by 0 or by the close notification.
\<close>

locale tls_session =
  fixes env :: "('k, 'w) TlsEnv"
    and established :: "'w \<Rightarrow> bool"
    and plain_in :: "'w \<Rightarrow> bytes"
    and plain_out :: "'w \<Rightarrow> bytes"
    and retries :: "'w \<Rightarrow> nat"
  assumes error_codes: "ERR_WANT_READ env < 0" "ERR_WANT_WRITE env < 0"
      "ERR_PEER_CLOSE_NOTIFY env < 0" "ERR_PEER_CLOSE_NOTIFY env \<noteq> ERR_WANT_READ env"
      "ERR_PEER_CLOSE_NOTIFY env \<noteq> ERR_WANT_WRITE env"
    and write_law: "established w \<Longrightarrow> src \<noteq> [] \<Longrightarrow> mb_write env (tls_bio env) src w = (ret, w') \<Longrightarrow>
      established w' \<and> plain_in w' = plain_in w \<and>
      (if ret > 0
       then nat ret \<le> length src \<and> plain_out w' = plain_out w @ take (nat ret) src \<and>
         retries w' \<le> retries w
       else (ret = ERR_WANT_READ env \<or> ret = ERR_WANT_WRITE env) \<and> plain_out w' = plain_out w \<and>
         retries w' < retries w)"
    and read_law: "established w \<Longrightarrow> mb_read env (tls_bio env) dst w = (ret, dst', w') \<Longrightarrow>
      established w' \<and> plain_out w' = plain_out w \<and> length dst' = length dst \<and>
      (if ret \<ge> 0
       then nat ret \<le> length dst \<and> nat ret \<le> length (plain_in w) \<and>
         take (nat ret) dst' = take (nat ret) (plain_in w) \<and> plain_in w' = drop (nat ret) (plain_in w) \<and>
         (ret = 0 \<longrightarrow> dst = [] \<or> plain_in w = [])
       else if ret = ERR_PEER_CLOSE_NOTIFY env then plain_in w = [] \<and> plain_in w' = []
       else (ret = ERR_WANT_READ env \<or> ret = ERR_WANT_WRITE env) \<and> plain_in w' = plain_in w \<and>
         retries w' < retries w)"
begin

lemma tls_send_loop_sends:
  assumes "established (tl_world s)" "sent \<le> length src"
  shows "\<exists>s'. tls_send_loop env src sent s = Some (Ok, s') \<and> established (tl_world s') \<and>
    plain_in (tl_world s') = plain_in (tl_world s) \<and>
    plain_out (tl_world s') = plain_out (tl_world s) @ drop sent src"
  using assms
proof (induction "length src - sent + retries (tl_world s)" arbitrary: s sent rule: less_induct)
  case less
  show ?case
  proof (cases "sent < length src")
    case False
    with less.prems show ?thesis by (simp add: tls_send_loop.simps)
  next
    case True
    then have "drop sent src \<noteq> []" by simp
    obtain ret w where r: "mb_write env (tls_bio env) (drop sent src) (tl_world s) = (ret, w)" by fastforce
    note law = write_law [OF less.prems(1) \<open>drop sent src \<noteq> []\<close> r]
    let ?s = "s\<lparr>tl_world := w\<rparr>"
    show ?thesis
    proof (cases "ret > 0")
      case False
      with law have w: "established w" "plain_in w = plain_in (tl_world s)"
        "plain_out w = plain_out (tl_world s)" "retries w < retries (tl_world s)"
        "ret = ERR_WANT_READ env \<or> ret = ERR_WANT_WRITE env" by auto
      have "length src - sent + retries (tl_world ?s) < length src - sent + retries (tl_world s)"
        using w(4) by simp
      from less.hyps [OF this] w less.prems(2) have
        "\<exists>s'. tls_send_loop env src sent ?s = Some (Ok, s') \<and> established (tl_world s') \<and>
          plain_in (tl_world s') = plain_in (tl_world s) \<and>
          plain_out (tl_world s') = plain_out (tl_world s) @ drop sent src" by simp
      with False True r w(5) show ?thesis
        by (auto simp: tls_send_loop.simps [of env src sent s] Let_def)
    next
      case pos: True
      with law have n: "nat ret \<le> length src - sent" "retries w \<le> retries (tl_world s)"
        "plain_in w = plain_in (tl_world s)"
        "plain_out w = plain_out (tl_world s) @ take (nat ret) (drop sent src)" "established w" by auto
      have "length src - (sent + nat ret) + retries (tl_world ?s) < length src - sent + retries (tl_world s)"
        using n(1,2) True pos by simp
      moreover have "sent + nat ret \<le> length src" using n(1) True by simp
      ultimately obtain s' where "tls_send_loop env src (sent + nat ret) ?s = Some (Ok, s')"
        "established (tl_world s')" "plain_in (tl_world s') = plain_in (tl_world s)"
        "plain_out (tl_world s') = plain_out w @ drop (sent + nat ret) src"
        using less.hyps [of "sent + nat ret" ?s] n(3,5) by auto
      moreover have "take (nat ret) (drop sent src) @ drop (sent + nat ret) src = drop sent src"
        by (metis add.commute append_take_drop_id drop_drop)
      ultimately show ?thesis
        using True pos r n(4) by (simp add: tls_send_loop.simps [of env src sent s] Let_def)
    qed
  qed
qed

lemma Tls_Recv_receives:
  assumes "established (tl_world s)"
  shows "\<exists>n dst' s'. Tls_Recv env dst s = Some (Inr n, dst', s') \<and> established (tl_world s') \<and>
    plain_out (tl_world s') = plain_out (tl_world s) \<and> length dst' = length dst \<and>
    n \<le> length dst \<and> n \<le> length (plain_in (tl_world s)) \<and>
    take n dst' = take n (plain_in (tl_world s)) \<and>
    plain_in (tl_world s') = drop n (plain_in (tl_world s)) \<and>
    (n = 0 \<longrightarrow> dst = [] \<or> plain_in (tl_world s) = [])"
  using assms
proof (induction "retries (tl_world s)" arbitrary: s dst rule: less_induct)
  case less
  obtain ret dst1 w where r: "mb_read env (tls_bio env) dst (tl_world s) = (ret, dst1, w)"
    by (cases "mb_read env (tls_bio env) dst (tl_world s)")
  note law = read_law [OF less.prems r]
  let ?s = "s\<lparr>tl_world := w\<rparr>"
  consider (data) "ret \<ge> 0" | (closed) "ret < 0" "ret = ERR_PEER_CLOSE_NOTIFY env"
    | (again) "ret < 0" "ret \<noteq> ERR_PEER_CLOSE_NOTIFY env" by linarith
  then show ?case
  proof cases
    case data
    with law r show ?thesis by (auto simp: Tls_Recv.simps [of env dst s] Let_def)
  next
    case closed
    with law r show ?thesis by (auto simp: Tls_Recv.simps [of env dst s] Let_def)
  next
    case again
    with law have w: "ret = ERR_WANT_READ env \<or> ret = ERR_WANT_WRITE env" "plain_in w = plain_in (tl_world s)"
      "retries w < retries (tl_world s)" "established w" "plain_out w = plain_out (tl_world s)"
      "length dst1 = length dst" by auto
    have "Tls_Recv env dst s = Tls_Recv env dst1 ?s"
      using again w(1) r by (auto simp: Tls_Recv.simps [of env dst s] Let_def)
    moreover have "dst1 = [] \<longleftrightarrow> dst = []" using w(6) by auto
    ultimately show ?thesis
      using less.hyps [of ?s dst1] w(2-6) by simp
  qed
qed

end

sublocale tls_session \<subseteq> tls: socket "Tls_Recv env"
    "\<lambda>s. established (tl_world s)" "\<lambda>s. plain_in (tl_world s)"
    "Tls_Send env" "\<lambda>s. plain_out (tl_world s)"
proof (unfold_locales, goal_cases)
  case (1 r dst n dst' r')
  with Tls_Recv_receives [OF 1(1), of dst] show ?case by auto
next
  case (2 r dst)
  with Tls_Recv_receives [OF 2, of dst] show ?case by auto
next
  case (3 s dst)
  with Tls_Recv_receives [OF 3, of dst] show ?case by auto
next
  case (4 s dst)
  with Tls_Recv_receives [OF 4, of dst] show ?case by auto
next
  case (5 s src)
  with tls_send_loop_sends [of s 0 src] show ?case by (auto simp: Tls_Send_def)
qed

context tls_session
begin

lemma http_over_tls:
  assumes "established (tl_world s)" "length reqbuf = 1024" "length (request_bytes req) \<le> 1024"
  shows "\<exists>buf' s'. Client_Do (Tls_Send env) (Tls_Recv env) s req
      recv_buf reqbuf =
      Some (ParseResponse (take (length recv_buf) (plain_in (tl_world s))), buf', s') \<and>
    plain_out (tl_world s') = plain_out (tl_world s) @ request_bytes req"
  by (rule tls.Client_Do_total [OF assms])

end

text \<open>
  A session without a cipher, over the mock transport of the http test: records of at most five
  bytes go through the socket's own callbacks.
\<close>

definition clear_env :: "(nat, ChunkedMockSocket) TlsEnv" where
  "clear_env =
     \<lparr>tr_Connect = (\<lambda>host port w. (Ok, w)), tr_Send = mock_Send, tr_Recv = mock_Recv,
      tr_Close = (\<lambda>w. w),
      mb_call = (\<lambda>c bio w. (0, w)),
      mb_write = (\<lambda>bio src w. bio_send bio (take 5 src) w),
      mb_read = (\<lambda>bio dst w. bio_recv bio dst w),
      ERR_WANT_READ = - 26880, ERR_WANT_WRITE = - 26752, ERR_PEER_CLOSE_NOTIFY = - 30848,
      ERR_INTERNAL = - 27648\<rparr>"

interpretation clear: tls_session clear_env "\<lambda>w. cm_pos w \<le> length (cm_data w)"
    "\<lambda>w. drop (cm_pos w) (cm_data w)" cm_sent "\<lambda>_. 0"
proof (unfold_locales, goal_cases)
  case (6 w src ret w')
  then have "ret = int (length (take 5 src))" "w' = w\<lparr>cm_sent := cm_sent w @ take 5 src\<rparr>"
    by (auto simp: clear_env_def tls_bio_def BioSend_def mock_Send_def int_of_size min_def)
  with 6 show ?case by (auto simp: min_def)
next
  case (7 w dst ret dst' w')
  let ?n = "min (min (length dst) (length (cm_data w) - cm_pos w)) 7"
  have "ret = int ?n" "dst' = memcpy dst 0 (take ?n (drop (cm_pos w) (cm_data w)))"
    "w' = w\<lparr>cm_pos := cm_pos w + ?n\<rparr>"
    using 7 int_of_size [of ?n] by (auto simp: clear_env_def tls_bio_def BioRecv_def mock_Recv_def Let_def)
  with 7 show ?case by (auto simp: memcpy_def min_def add.commute split: if_splits)
qed (simp_all add: clear_env_def)

subsection \<open>Properties\<close>

text \<open>
  C32: when \<open>Configure\<close> and then \<open>Connect\<close> succeed, the library was called in exactly this order:
  the seeding, the defaults, the verification of the peer (the CA parsed, its chain set and
  verification required, unless the configuration skips it), the client's certificate and key if both
  were given, the setup, the name to verify (the configured one, else the host, cut to 255
  characters), the callbacks, and only then handshakes; the socket is then handshaked.
\<close>

theorem tls_call_order:
  assumes "Configure env cfg s = (Inr u, s1)" and "Tls_Connect env host port s1 = Some (Inr v, s2)"
    and "tl_calls s = []"
  shows "\<exists>n. tl_calls s2 = config_calls cfg (tl_external_key s) @ [SetHostname (sni cfg host), SetBio] @
      replicate (Suc n) Handshake \<and> tl_handshaked s2"
  using Configure_calls [OF assms(1)] Connect_calls [OF assms(2)] assms(3)
  by (auto simp: sni_def)

theorem tls_call_order_witness:
  "\<exists>s1 s2 n. Configure clear_env \<lparr>ca_cert_pem = ''CA'', client_cert_pem = [], client_key_pem = [],
       server_name = [], skip_verify = False\<rparr>
       (TlsSocket_new \<lparr>cm_data = [], cm_pos = 0, cm_sent = []\<rparr>) = (Ok, s1) \<and>
     Tls_Connect clear_env ''example.org'' 443 s1 = Some (Ok, s2) \<and>
     tl_calls s2 = [DrbgSeed, ConfigDefaults, ConfRng, ParseCa ''CA'', ConfCaChain,
       ConfAuthmode VERIFY_REQUIRED, SslSetup, SetHostname ''example.org'', SetBio] @
       replicate (Suc n) Handshake"
proof -
  let ?cfg = "\<lparr>ca_cert_pem = ''CA'', client_cert_pem = [], client_key_pem = [],
    server_name = [], skip_verify = False\<rparr>"
  let ?s = "TlsSocket_new \<lparr>cm_data = [], cm_pos = 0, cm_sent = []\<rparr> :: (nat, ChunkedMockSocket) TlsSocket"
  obtain s1 where s1: "Configure clear_env ?cfg ?s = (Inr (), s1)"
    by (simp add: Configure_def mbed_ok_def mbed_def clear_env_def configure_verify_def
        configure_client_def TlsSocket_new_def)
  have "tl_configured s1" using Configure_calls [OF s1] by simp
  then obtain s2 where s2: "Tls_Connect clear_env ''example.org'' 443 s1 = Some (Inr (), s2)"
    by (simp add: Tls_Connect_def mbed_def clear_env_def handshake_loop.simps Let_def)
  have "tl_calls ?s = []" by (simp add: TlsSocket_new_def)
  from tls_call_order [OF s1 s2 this] obtain n where
    "tl_calls s2 = [DrbgSeed, ConfigDefaults, ConfRng, ParseCa ''CA'', ConfCaChain,
       ConfAuthmode VERIFY_REQUIRED, SslSetup, SetHostname ''example.org'', SetBio] @
       replicate (Suc n) Handshake"
    by (auto simp: config_calls_def verify_calls_def client_calls_def sni_def)
  with s1 s2 show ?thesis by auto
qed

text \<open>
  A socket whose configuration failed, or was never made, does not connect: every failure of
  \<open>Configure\<close> is \<open>TlsError\<close>, and \<open>Connect\<close> then answers \<open>TlsError\<close> without a call to the
  library or to the transport.
\<close>

theorem failed_configure_blocks_connect:
  assumes "Configure env cfg s = (Inl e, s')" and "\<not> tl_configured s"
  shows "code e = net_TlsError \<and>
    (\<exists>e'. Tls_Connect env host port s' = Some (Inl e', s') \<and> code e' = net_TlsError)"
  using Configure_error [OF assms(1)] assms(2) by (simp add: Tls_Connect_def Fail_def)

theorem failed_configure_blocks_connect_witness:
  "\<exists>e s' e'. Configure (clear_env\<lparr>mb_call := \<lambda>c bio w. (if c = ParseCa ''bad'' then -1 else 0, w)\<rparr>)
       \<lparr>ca_cert_pem = ''bad'', client_cert_pem = [], client_key_pem = [], server_name = [],
        skip_verify = False\<rparr> (TlsSocket_new \<lparr>cm_data = [], cm_pos = 0, cm_sent = []\<rparr>) = (Inl e, s') \<and>
     Tls_Connect (clear_env\<lparr>mb_call := \<lambda>c bio w. (if c = ParseCa ''bad'' then -1 else 0, w)\<rparr>)
       ''h'' 443 s' = Some (Inl e', s')"
proof -
  let ?env = "clear_env\<lparr>mb_call := \<lambda>c bio w. (if c = ParseCa ''bad'' then -1 else 0, w)\<rparr>"
  let ?cfg = "\<lparr>ca_cert_pem = ''bad'', client_cert_pem = [], client_key_pem = [], server_name = [],
        skip_verify = False\<rparr>"
  let ?s = "TlsSocket_new \<lparr>cm_data = [], cm_pos = 0, cm_sent = []\<rparr> :: (nat, ChunkedMockSocket) TlsSocket"
  obtain e s' where c: "Configure ?env ?cfg ?s = (Inl e, s')"
    by (simp add: Configure_def mbed_ok_def mbed_def clear_env_def configure_verify_def Fail_def)
  have "\<not> tl_configured ?s" by (simp add: TlsSocket_new_def)
  from failed_configure_blocks_connect [OF c this] c show ?thesis by blast
qed

text \<open>
  C33: over an established session that keeps the library's rules, however often it asks to be called
  again and in whatever pieces it takes and gives the data, an http exchange returns, sends exactly
  the request in plain text and parses the whole answer.
\<close>

theorem https_exchange:
  assumes "tls_session env established plain_in plain_out retries"
    and "established (tl_world s)"
    and "length reqbuf = 1024" and "length (request_bytes req) \<le> 1024"
  shows "\<exists>buf' s'. Client_Do (Tls_Send env) (Tls_Recv env) s req
      recv_buf reqbuf =
      Some (ParseResponse (take (length recv_buf) (plain_in (tl_world s))), buf', s') \<and>
    plain_out (tl_world s') = plain_out (tl_world s) @ request_bytes req"
  by (rule tls_session.http_over_tls [OF assms])

theorem https_exchange_witness:
  "\<exists>buf' s'. Client_Do (Tls_Send clear_env) (Tls_Recv clear_env)
      (TlsSocket_new \<lparr>cm_data = response_bytes 204 ''No Content'' [] [], cm_pos = 0, cm_sent = []\<rparr>)
      (Request_init\<lparr>rq_host := ''h''\<rparr>) (replicate 256 0) (replicate 1024 0) =
    Some (ParseResponse (take 256 (response_bytes 204 ''No Content'' [] [])), buf', s') \<and>
    cm_sent (tl_world s') = request_bytes (Request_init\<lparr>rq_host := ''h''\<rparr>)"
proof -
  let ?w = "\<lparr>cm_data = response_bytes 204 ''No Content'' [] [], cm_pos = 0, cm_sent = []\<rparr>"
  let ?s = "TlsSocket_new ?w :: (nat, ChunkedMockSocket) TlsSocket"
  have "cm_pos (tl_world ?s) \<le> length (cm_data (tl_world ?s))"
    "length (replicate 1024 (0 :: u8)) = 1024"
    "length (request_bytes (Request_init\<lparr>rq_host := ''h''\<rparr>)) \<le> 1024"
    by (simp_all add: TlsSocket_new_def request_bytes_def Request_init_def CRLF_simps)
  from https_exchange [OF clear.tls_session_axioms this, of "replicate 256 0"] show ?thesis
    unfolding TlsSocket_new_def by (simp only: length_replicate) simp
qed

lemma mbed_external_key: "mbed env c s = (ret, s') \<Longrightarrow> tl_external_key s' = tl_external_key s"
  using mbed_fields(2) [of env c s] by (simp del: mbed_fields)

text \<open>
  A client certificate without a key is dropped without an error: the configuration does what it does
  without the certificate.
\<close>

theorem certificate_without_key_ignored:
  assumes "client_key_pem cfg = []" and "tl_external_key s = None"
  shows "Configure env cfg s = Configure env (cfg\<lparr>client_cert_pem := []\<rparr>) s"
proof -
  have "configure_client env cfg s k = k s" "configure_client env (cfg\<lparr>client_cert_pem := []\<rparr>) s k = k s"
    if "tl_external_key s = None" for s k
    using assms(1) that by (simp_all add: configure_client_def)
  with assms(2) show ?thesis
    by (auto simp: Configure_def configure_verify_def mbed_ok_def Let_def mbed_external_key split: prod.split)
qed

end
