(* ===== verification/Cli.thy ===== *)
theory Cli
  imports Io
begin

section \<open>Cli: declared commands, the argument iterator, help\<close>

text \<open>
  \<open>include/etlx/conf/cli.hpp\<close> and \<open>src/conf/cli.cpp\<close>. A program declares its commands as data; the
  iterator walks the arguments of one command against its declaration, and the help printers
  render the declaration to any writer. \<open>argv\<close> is the list of its strings, so \<open>argc\<close> is its length.
\<close>

definition conf_Category :: Category where
  [category_defs]: "conf_Category = \<lparr>cat_name = ''conf''\<rparr>"

definition conf_UnknownCommand :: Code where "conf_UnknownCommand = 1"
definition conf_UnknownOption :: Code where "conf_UnknownOption = 2"
definition conf_MissingValue :: Code where "conf_MissingValue = 3"
definition conf_UnexpectedValue :: Code where "conf_UnexpectedValue = 4"
definition conf_TooManyArgs :: Code where "conf_TooManyArgs = 5"

record CliOption =
  co_long_option :: string
  co_description :: string
  co_parameter :: string

record CliArgument =
  ca_name :: string
  ca_mandatory :: bool

record CliCommand =
  cc_name :: string
  cc_description :: string
  cc_argument :: "CliArgument option"
  cc_options :: "CliOption list"

record CliApp =
  app_name :: string
  app_short_description :: string
  app_long_description :: string
  app_commands :: "CliCommand list"

record OptionValue =
  ov_option :: string
  ov_value :: string
  ov_is_argument :: bool

definition OptionValue_init :: OptionValue where
  "OptionValue_init = \<lparr>ov_option = [], ov_value = [], ov_is_argument = False\<rparr>"

record CmdlineOptionsIterator =
  it_argv :: "string list"
  it_command :: CliCommand
  it_index :: nat
  it_args_only :: bool

definition iterator_new :: "string list \<Rightarrow> CliCommand \<Rightarrow> CmdlineOptionsIterator" where
  "iterator_new argv cmd =
     \<lparr>it_argv = argv, it_command = cmd, it_index = 0, it_args_only = False\<rparr>"

definition iterator_done :: "CmdlineOptionsIterator \<Rightarrow> bool" where
  "iterator_done it = (it_index it \<ge> length (it_argv it))"

definition StartsWithDashDash :: "string \<Rightarrow> bool" where
  "StartsWithDashDash s = (length s \<ge> 2 \<and> s ! 0 = CHR ''-'' \<and> s ! 1 = CHR ''-'')"

definition FindOption :: "CmdlineOptionsIterator \<Rightarrow> string \<Rightarrow> CliOption option" where
  "FindOption it name = find (\<lambda>opt. co_long_option opt = name) (cc_options (it_command it))"

subsection \<open>The iterator\<close>

text \<open>What \<open>Next\<close> does with the token it has taken; the iterator is already past it.\<close>

definition Next_token ::
    "string \<Rightarrow> CmdlineOptionsIterator \<Rightarrow> OptionValue option Result \<times> CmdlineOptionsIterator" where
  "Next_token tok it =
     (if it_args_only it \<or> \<not> StartsWithDashDash tok
      then (Inr (Some (OptionValue_init\<lparr>ov_value := tok, ov_is_argument := True\<rparr>)), it)
      else
        let eq = sv_find_char tok (CHR ''='');
            name = (case eq of None \<Rightarrow> tok | Some i \<Rightarrow> sv_substr tok 0 i);
            val = (case eq of None \<Rightarrow> [] | Some i \<Rightarrow> drop (i + 1) tok);
            inline_value = (eq \<noteq> None)
        in (case FindOption it name of
              None \<Rightarrow> (Fail conf_Category conf_UnknownOption name, it)
            | Some opt \<Rightarrow>
                let ov = OptionValue_init\<lparr>ov_option := co_long_option opt\<rparr> in
                if co_parameter opt = []
                then (if inline_value then (Fail conf_Category conf_UnexpectedValue name, it)
                      else (Inr (Some ov), it))
                else if inline_value then (Inr (Some (ov\<lparr>ov_value := val\<rparr>)), it)
                else if it_index it \<ge> length (it_argv it)
                then (Fail conf_Category conf_MissingValue name, it)
                else (Inr (Some (ov\<lparr>ov_value := it_argv it ! it_index it\<rparr>)),
                      it\<lparr>it_index := it_index it + 1\<rparr>)))"

definition Next ::
    "CmdlineOptionsIterator \<Rightarrow> OptionValue option Result \<times> CmdlineOptionsIterator" where
  "Next it =
     (if it_index it \<ge> length (it_argv it) then (Inr None, it)
      else
        let tok = it_argv it ! it_index it; it1 = it\<lparr>it_index := it_index it + 1\<rparr> in
        if \<not> it_args_only it1 \<and> tok = ''--'' then
          let it2 = it1\<lparr>it_args_only := True\<rparr> in
          if it_index it2 \<ge> length (it_argv it2) then (Inr None, it2)
          else Next_token (it_argv it2 ! it_index it2) (it2\<lparr>it_index := it_index it2 + 1\<rparr>)
        else Next_token tok it1)"

definition FindCommand :: "CliApp \<Rightarrow> string \<Rightarrow> CliCommand option" where
  "FindCommand app name = find (\<lambda>cmd. cc_name cmd = name) (app_commands app)"

subsection \<open>Help\<close>

text \<open>\<open>if (auto s = A; !s) return s; B\<close>.\<close>

definition seq_w :: "('w \<Rightarrow> Status \<times> 'w) \<Rightarrow> ('w \<Rightarrow> Status \<times> 'w) \<Rightarrow> 'w \<Rightarrow> Status \<times> 'w" where
  "seq_w f g w = (case f w of (Inl e, w') \<Rightarrow> (Inl e, w') | (Inr _, w') \<Rightarrow> g w')"

definition done_w :: "'w \<Rightarrow> Status \<times> 'w" where
  "done_w w = (Ok, w)"

definition steps_w :: "('w \<Rightarrow> Status \<times> 'w) list \<Rightarrow> 'w \<Rightarrow> Status \<times> 'w" where
  "steps_w fs = foldr seq_w fs done_w"

definition cli_Put :: "(bytes \<Rightarrow> 'w \<Rightarrow> Status \<times> 'w) \<Rightarrow> string \<Rightarrow> 'w \<Rightarrow> Status \<times> 'w" where
  "cli_Put wr s = wr (bytes_of s)"

definition PutPadded ::
    "(bytes \<Rightarrow> 'w \<Rightarrow> Status \<times> 'w) \<Rightarrow> string \<Rightarrow> nat \<Rightarrow> 'w \<Rightarrow> Status \<times> 'w" where
  "PutPadded wr s width =
     seq_w (cli_Put wr s) (steps_w (map (\<lambda>_. cli_Put wr '' '') [length s..<width]))"

definition NL :: string where
  "NL = [CHR 0x0A]"

definition PrintCliHelp :: "(bytes \<Rightarrow> 'w \<Rightarrow> Status \<times> 'w) \<Rightarrow> CliApp \<Rightarrow> 'w \<Rightarrow> Status \<times> 'w" where
  "PrintCliHelp wr app =
     seq_w (cli_Put wr (app_name app))
     (seq_w (if app_short_description app \<noteq> []
             then seq_w (cli_Put wr '' - '') (cli_Put wr (app_short_description app)) else done_w)
     (seq_w (cli_Put wr (NL @ NL))
     (seq_w (if app_long_description app \<noteq> []
             then seq_w (cli_Put wr (app_long_description app)) (cli_Put wr (NL @ NL)) else done_w)
     (seq_w (cli_Put wr (''Usage:'' @ NL @ ''  ''))
     (seq_w (cli_Put wr (app_name app))
     (seq_w (cli_Put wr ('' <command> [options] [arguments]'' @ NL @ NL @ ''Commands:'' @ NL))
     (steps_w (map (\<lambda>cmd. seq_w (cli_Put wr ''  '')
                          (seq_w (PutPadded wr (cc_name cmd) 16)
                          (seq_w (cli_Put wr (cc_description cmd)) (cli_Put wr NL))))
        (app_commands app)))))))))"

definition PrintCliCommandHelp ::
    "(bytes \<Rightarrow> 'w \<Rightarrow> Status \<times> 'w) \<Rightarrow> CliApp \<Rightarrow> string \<Rightarrow> 'w \<Rightarrow> Status \<times> 'w" where
  "PrintCliCommandHelp wr app command w =
     (case FindCommand app command of
        None \<Rightarrow> (Fail conf_Category conf_UnknownCommand command, w)
      | Some cmd \<Rightarrow>
          seq_w (cli_Put wr (''Usage:'' @ NL @ ''  ''))
          (seq_w (cli_Put wr (app_name app))
          (seq_w (cli_Put wr '' '')
          (seq_w (cli_Put wr (cc_name cmd))
          (seq_w (if cc_options cmd \<noteq> [] then cli_Put wr '' [options]'' else done_w)
          (seq_w (case cc_argument cmd of
                    None \<Rightarrow> done_w
                  | Some a \<Rightarrow>
                      seq_w (cli_Put wr (if ca_mandatory a then '' <'' else '' [''))
                      (seq_w (cli_Put wr (ca_name a))
                             (cli_Put wr (if ca_mandatory a then ''>'' else '']''))))
          (seq_w (cli_Put wr (NL @ NL))
          (seq_w (if cc_description cmd \<noteq> []
                  then seq_w (cli_Put wr (cc_description cmd)) (cli_Put wr NL) else done_w)
          (if cc_options cmd \<noteq> []
           then seq_w (cli_Put wr (NL @ ''Options:'' @ NL))
             (steps_w (map (\<lambda>opt. seq_w (cli_Put wr ''  '')
                (seq_w (cli_Put wr (co_long_option opt))
                (seq_w (if co_parameter opt \<noteq> []
                        then seq_w (cli_Put wr '' '') (cli_Put wr (co_parameter opt)) else done_w)
                (seq_w (cli_Put wr (NL @ ''      ''))
                (seq_w (cli_Put wr (co_description opt)) (cli_Put wr NL))))))
              (cc_options cmd)))
           else done_w)))))))) w)"


subsection \<open>Progress\<close>

lemma Next_token_frame:
  "Next_token tok it = (r, it') \<Longrightarrow> it_argv it' = it_argv it \<and> it_command it' = it_command it \<and>
   it_index it \<le> it_index it' \<and> it_args_only it' = it_args_only it"
  by (auto simp: Next_token_def Let_def split: option.splits if_splits)

lemma Next_progress:
  assumes "Next it = (r, it')" "it_index it < length (it_argv it)"
  shows "it_index it < it_index it'" "it_argv it' = it_argv it" "it_command it' = it_command it"
  using assms by (auto simp: Next_def Let_def dest!: Next_token_frame split: if_splits)

lemma Next_done: "length (it_argv it) \<le> it_index it \<Longrightarrow> Next it = (Inr None, it)"
  by (simp add: Next_def)

lemma Next_some_decreases:
  assumes "Next it = (Inr (Some ov), it')"
  shows "length (it_argv it') - it_index it' < length (it_argv it) - it_index it"
proof -
  have "it_index it < length (it_argv it)"
    using assms Next_done [of it] by (cases "it_index it < length (it_argv it)") auto
  with Next_progress [OF assms] show ?thesis by simp
qed

text \<open>The caller's loop: \<open>Next\<close> until it is exhausted or fails.\<close>

function Next_all :: "CmdlineOptionsIterator \<Rightarrow> OptionValue list Result" where
  "Next_all it =
     (case Next it of
        (Inl e, it') \<Rightarrow> Inl e
      | (Inr None, it') \<Rightarrow> Inr []
      | (Inr (Some ov), it') \<Rightarrow>
          (case Next_all it' of Inl e \<Rightarrow> Inl e | Inr ovs \<Rightarrow> Inr (ov # ovs)))"
  by pat_completeness auto
termination
  by (relation "measure (\<lambda>it. length (it_argv it) - it_index it)")
    (auto dest: Next_some_decreases dest!: sym [of _ "Next _"])

declare Next_all.simps [simp del]

subsection \<open>What the iterator yields is declared\<close>

definition value_declared :: "CliCommand \<Rightarrow> OptionValue \<Rightarrow> bool" where
  "value_declared cmd ov \<longleftrightarrow>
     (if ov_is_argument ov then ov_option ov = []
      else list_ex (\<lambda>opt. co_long_option opt = ov_option ov \<and>
             (co_parameter opt = [] \<longrightarrow> ov_value ov = [])) (cc_options cmd))"

lemma FindOption_Some:
  "FindOption it n = Some opt \<Longrightarrow> opt \<in> set (cc_options (it_command it)) \<and> co_long_option opt = n"
  by (auto simp: FindOption_def find_Some_iff)

lemma Next_token_declared:
  "Next_token tok it = (Inr (Some ov), it') \<Longrightarrow> value_declared (it_command it) ov"
  by (auto simp: Next_token_def value_declared_def OptionValue_init_def list_ex_iff Let_def
      dest!: FindOption_Some split: option.splits if_splits)

lemma Next_token_errors:
  "Next_token tok it = (Inl e, it') \<Longrightarrow>
   code e \<in> {conf_UnknownOption, conf_UnexpectedValue, conf_MissingValue}"
  by (auto simp: Next_token_def Fail_def Let_def split: option.splits if_splits)

lemma Next_declared:
  "Next it = (Inr (Some ov), it') \<Longrightarrow> value_declared (it_command it) ov"
  by (auto simp: Next_def Let_def dest!: Next_token_declared split: if_splits)

lemma Next_errors:
  "Next it = (Inl e, it') \<Longrightarrow> code e \<in> {conf_UnknownOption, conf_UnexpectedValue, conf_MissingValue}"
  by (auto simp: Next_def Let_def dest!: Next_token_errors split: if_splits)

lemma Next_some_command: "Next it = (Inr (Some ov), it') \<Longrightarrow> it_command it' = it_command it"
  using Next_progress(3) [of it] Next_done [of it]
  by (cases "it_index it < length (it_argv it)") auto

lemma Next_all_declared:
  "case Next_all it of
     Inl e \<Rightarrow> code e \<in> {conf_UnknownOption, conf_UnexpectedValue, conf_MissingValue}
   | Inr ovs \<Rightarrow> list_all (value_declared (it_command it)) ovs"
proof (induction it rule: Next_all.induct)
  case (1 it)
  obtain r it' where n: "Next it = (r, it')" by fastforce
  show ?case
  proof (cases r)
    case (Inl e)
    with n Next_errors [of it e it'] show ?thesis by (subst Next_all.simps) simp
  next
    case (Inr q)
    show ?thesis
    proof (cases q)
      case None
      with n Inr show ?thesis by (subst Next_all.simps) simp
    next
      case (Some ov)
      with n Inr "1.IH" [OF n [symmetric] Inr Some] Next_declared [of it ov it'] Next_some_command [of it ov it']
      show ?thesis by (subst Next_all.simps) (auto split: sum.splits)
    qed
  qed
qed

subsection \<open>Arguments as they are meant\<close>

datatype cli_word =
    Flag string
  | Opt string string
  | OptEq string string
  | Arg string

fun words_argv :: "cli_word \<Rightarrow> string list" where
  "words_argv (Flag n) = [n]"
| "words_argv (Opt n v) = [n, v]"
| "words_argv (OptEq n v) = [n @ ''='' @ v]"
| "words_argv (Arg a) = [a]"

fun word_value :: "cli_word \<Rightarrow> OptionValue" where
  "word_value (Flag n) = \<lparr>ov_option = n, ov_value = [], ov_is_argument = False\<rparr>"
| "word_value (Opt n v) = \<lparr>ov_option = n, ov_value = v, ov_is_argument = False\<rparr>"
| "word_value (OptEq n v) = \<lparr>ov_option = n, ov_value = v, ov_is_argument = False\<rparr>"
| "word_value (Arg a) = \<lparr>ov_option = [], ov_value = a, ov_is_argument = True\<rparr>"

definition declared :: "CliCommand \<Rightarrow> string \<Rightarrow> bool \<Rightarrow> bool" where
  "declared cmd n flag \<longleftrightarrow> StartsWithDashDash n \<and> n \<noteq> ''--'' \<and> CHR ''='' \<notin> set n \<and>
     (case find (\<lambda>opt. co_long_option opt = n) (cc_options cmd) of
        None \<Rightarrow> False | Some opt \<Rightarrow> (co_parameter opt = []) = flag)"

fun word_ok :: "CliCommand \<Rightarrow> cli_word \<Rightarrow> bool" where
  "word_ok cmd (Flag n) = declared cmd n True"
| "word_ok cmd (Opt n v) = declared cmd n False"
| "word_ok cmd (OptEq n v) = declared cmd n False"
| "word_ok cmd (Arg a) = (\<not> StartsWithDashDash a)"

lemma declared_find:
  "declared cmd n flag \<Longrightarrow> \<exists>opt. find (\<lambda>opt. co_long_option opt = n) (cc_options cmd) = Some opt \<and>
     co_long_option opt = n \<and> (co_parameter opt = []) = flag"
  by (auto simp: declared_def find_Some_iff split: option.splits)

lemma Next_word:
  assumes "word_ok (it_command it) w" "\<not> it_args_only it"
    "drop (it_index it) (it_argv it) = words_argv w @ rest"
  shows "Next it = (Inr (Some (word_value w)), it\<lparr>it_index := it_index it + length (words_argv w)\<rparr>)"
proof -
  have at: "it_index it < length (it_argv it)" "it_argv it ! it_index it = hd (words_argv w)"
    using assms(3) by (cases w; metis append_Cons drop_eq_Nil hd_drop_conv_nth linorder_not_less list.sel(1) list.simps(3) words_argv.simps)+
  show ?thesis
  proof (cases w)
    case (Arg a)
    moreover have "StartsWithDashDash ''--''" by (simp add: StartsWithDashDash_def)
    ultimately show ?thesis
      using at assms by (auto simp: Next_def Next_token_def OptionValue_init_def Let_def)
  next
    case (Flag n)
    with assms(1) declared_find [of "it_command it" n True] obtain opt where
      "find (\<lambda>opt. co_long_option opt = n) (cc_options (it_command it)) = Some opt"
      "co_long_option opt = n" "co_parameter opt = []" by auto
    moreover have "sv_find_char n (CHR ''='') = None" "StartsWithDashDash n" "n \<noteq> ''--''"
      using assms(1) Flag by (auto simp: declared_def sv_find_char_None)
    ultimately show ?thesis
      using at Flag assms(2)
      by (simp add: Next_def Next_token_def OptionValue_init_def FindOption_def Let_def)
  next
    case (Opt n v)
    with assms(1) declared_find [of "it_command it" n False] obtain opt where
      "find (\<lambda>opt. co_long_option opt = n) (cc_options (it_command it)) = Some opt"
      "co_long_option opt = n" "co_parameter opt \<noteq> []" by auto
    moreover have "sv_find_char n (CHR ''='') = None" "StartsWithDashDash n" "n \<noteq> ''--''"
      using assms(1) Opt by (auto simp: declared_def sv_find_char_None)
    moreover have "it_index it + 1 < length (it_argv it)" "it_argv it ! (it_index it + 1) = v"
    proof -
      have d: "drop (it_index it) (it_argv it) = n # v # rest" using assms(3) Opt by simp
      from arg_cong [OF d, of length] show "it_index it + 1 < length (it_argv it)" by simp
      from arg_cong [OF d, of "\<lambda>xs. xs ! 1"] at(1) show "it_argv it ! (it_index it + 1) = v" by simp
    qed
    ultimately show ?thesis
      using at Opt assms(2)
      by (simp add: Next_def Next_token_def OptionValue_init_def FindOption_def Let_def)
  next
    case (OptEq n v)
    with assms(1) declared_find [of "it_command it" n False] obtain opt where
      "find (\<lambda>opt. co_long_option opt = n) (cc_options (it_command it)) = Some opt"
      "co_long_option opt = n" "co_parameter opt \<noteq> []" by auto
    moreover have "sv_find_char (n @ CHR ''='' # v) (CHR ''='') = Some (length n)"
      using assms(1) OptEq by (auto simp: declared_def)
    moreover have "StartsWithDashDash (n @ CHR ''='' # v)"
      using assms(1) OptEq by (auto simp: declared_def StartsWithDashDash_def nth_append)
    moreover have "CHR ''='' \<in> set (n @ CHR ''='' # v)" "CHR ''='' \<notin> set ''--''" by simp_all
    then have "n @ CHR ''='' # v \<noteq> ''--''" by metis
    ultimately show ?thesis
      using at OptEq assms(2)
      by (simp add: Next_def Next_token_def OptionValue_init_def FindOption_def Let_def sv_substr_def)
  qed
qed


lemma Next_all_positional:
  "it_args_only it \<Longrightarrow> Next_all it = Inr (map (word_value \<circ> Arg) (drop (it_index it) (it_argv it)))"
proof (induction it rule: Next_all.induct)
  case (1 it)
  show ?case
  proof (cases "it_index it < length (it_argv it)")
    case False
    with Next_done [of it] show ?thesis by (subst Next_all.simps) simp
  next
    case True
    let ?a = "it_argv it ! it_index it" and ?it = "it\<lparr>it_index := it_index it + 1\<rparr>"
    have n: "Next it = (Inr (Some (word_value (Arg ?a))), ?it)"
      using True "1.prems" by (simp add: Next_def Next_token_def OptionValue_init_def Let_def)
    have "drop (it_index it) (it_argv it) = ?a # drop (it_index it + 1) (it_argv it)"
      using True by (simp add: Cons_nth_drop_Suc)
    with n "1.IH" [OF n [symmetric] refl refl] "1.prems" show ?thesis
      by (subst Next_all.simps) simp
  qed
qed

lemma Next_all_dashes:
  assumes "\<not> it_args_only it" "drop (it_index it) (it_argv it) = ''--'' # ps"
  shows "Next_all it = Inr (map (word_value \<circ> Arg) ps)"
proof -
  let ?it = "it\<lparr>it_index := it_index it + 1, it_args_only := True\<rparr>"
  have at: "it_index it < length (it_argv it)" "it_argv it ! it_index it = ''--''"
    using assms(2) by (metis drop_eq_Nil linorder_not_less list.discI)
      (metis assms(2) drop_eq_Nil hd_drop_conv_nth linorder_not_less list.discI list.sel(1))
  then have "Next it = Next ?it"
    using assms(1) by (simp add: Next_def Next_token_def Let_def)
  then have "Next_all it = Next_all ?it" by (subst (1 2) Next_all.simps) simp
  moreover have "drop (it_index it + 1) (it_argv it) = ps"
    using assms(2) by (metis drop_Suc Suc_eq_plus1 drop_drop list.sel(3) plus_1_eq_Suc tl_drop)
  ultimately show ?thesis using Next_all_positional [of ?it] by simp
qed

lemma Next_all_words:
  assumes "list_all (word_ok (it_command it)) ws" "\<not> it_args_only it"
    "drop (it_index it) (it_argv it) = concat (map words_argv ws) @ rest"
    "rest = [] \<and> ps = [] \<or> rest = ''--'' # ps"
  shows "Next_all it = Inr (map word_value ws @ map (word_value \<circ> Arg) ps)"
  using assms
proof (induction ws arbitrary: it)
  case Nil
  then show ?case
    using Next_done [of it] Next_all_dashes [of it ps] by (auto simp: Next_all.simps [of it])
next
  case (Cons w ws)
  let ?it = "it\<lparr>it_index := it_index it + length (words_argv w)\<rparr>"
  have n: "Next it = (Inr (Some (word_value w)), ?it)"
    using Cons.prems by (intro Next_word) auto
  have "drop (it_index ?it) (it_argv ?it) = drop (length (words_argv w)) (drop (it_index it) (it_argv it))"
    by (simp add: add.commute)
  also have "\<dots> = concat (map words_argv ws) @ rest" using Cons.prems(3) by simp
  finally have "drop (it_index ?it) (it_argv ?it) = concat (map words_argv ws) @ rest" .
  with Cons.IH [of ?it] Cons.prems have "Next_all ?it = Inr (map word_value ws @ map (word_value \<circ> Arg) ps)"
    by simp
  with n show ?case by (subst Next_all.simps) simp
qed

subsection \<open>Help is one stream of text\<close>

fun padded :: "string \<Rightarrow> nat \<Rightarrow> string" where
  "padded s width = s @ replicate (width - length s) (CHR '' '')"

definition help_text :: "CliApp \<Rightarrow> string" where
  "help_text app =
     app_name app @
     (if app_short_description app \<noteq> [] then '' - '' @ app_short_description app else []) @
     (NL @ NL) @
     (if app_long_description app \<noteq> [] then app_long_description app @ (NL @ NL) else []) @
     (''Usage:'' @ NL @ ''  '') @ app_name app @
     ('' <command> [options] [arguments]'' @ NL @ NL @ ''Commands:'' @ NL) @
     concat (map (\<lambda>cmd. ''  '' @ padded (cc_name cmd) 16 @ cc_description cmd @ NL) (app_commands app))"

definition command_help_text :: "CliApp \<Rightarrow> CliCommand \<Rightarrow> string" where
  "command_help_text app cmd =
     (''Usage:'' @ NL @ ''  '') @ app_name app @ '' '' @ cc_name cmd @
     (if cc_options cmd \<noteq> [] then '' [options]'' else []) @
     (case cc_argument cmd of None \<Rightarrow> []
      | Some a \<Rightarrow> (if ca_mandatory a then '' <'' else '' ['') @ ca_name a @
          (if ca_mandatory a then ''>'' else '']'')) @
     (NL @ NL) @
     (if cc_description cmd \<noteq> [] then cc_description cmd @ NL else []) @
     (if cc_options cmd \<noteq> []
      then (NL @ ''Options:'' @ NL) @
        concat (map (\<lambda>opt. ''  '' @ co_long_option opt @
          (if co_parameter opt \<noteq> [] then '' '' @ co_parameter opt else []) @
          (NL @ ''      '') @ co_description opt @ NL) (cc_options cmd))
      else [])"

context writer
begin

definition emits :: "('w \<Rightarrow> Status \<times> 'w) \<Rightarrow> string \<Rightarrow> bool" where
  "emits f s \<longleftrightarrow> (\<forall>w. winv w \<longrightarrow>
     (if fits (view w) (bytes_of s)
      then \<exists>w'. f w = (Ok, w') \<and> winv w' \<and> view w' = absorb (bytes_of s) (view w)
      else \<exists>e w'. f w = (Inl e, w') \<and> refusal (code e)))"

lemma emits_Put: "emits (cli_Put wr s) s"
  using write_fits write_full by (auto simp: emits_def cli_Put_def)

lemma emits_done: "emits done_w []"
  using fits_Nil absorb_Nil by (auto simp: emits_def done_w_def)

lemma emits_seq:
  assumes "emits f s" "emits g t"
  shows "emits (seq_w f g) (s @ t)"
  unfolding emits_def
proof (intro allI impI)
  fix w assume w: "winv w"
  show "if fits (view w) (bytes_of (s @ t))
      then \<exists>w'. seq_w f g w = (Ok, w') \<and> winv w' \<and> view w' = absorb (bytes_of (s @ t)) (view w)
      else \<exists>e w'. seq_w f g w = (Inl e, w') \<and> refusal (code e)"
  proof (cases "fits (view w) (bytes_of s)")
    case False
    with assms(1) [unfolded emits_def, rule_format, OF w]
    obtain e w' where "f w = (Inl e, w')" "refusal (code e)" by auto
    with False w show ?thesis by (simp add: seq_w_def fits_append)
  next
    case True
    with assms(1) [unfolded emits_def, rule_format, OF w] obtain w1 where w1: "f w = (Ok, w1)" "winv w1"
      "view w1 = absorb (bytes_of s) (view w)" by auto
    have "seq_w f g w = g w1" using w1(1) by (simp add: seq_w_def)
    with assms(2) [unfolded emits_def, rule_format, OF w1(2)] w1(3) True w show ?thesis
      by (auto simp add: fits_append absorb_append split: if_splits)
  qed
qed

lemma emits_steps:
  "(\<And>x. x \<in> set xs \<Longrightarrow> emits (f x) (t x)) \<Longrightarrow> emits (steps_w (map f xs)) (concat (map t xs))"
proof (induction xs)
  case Nil
  then show ?case by (simp add: steps_w_def emits_done)
next
  case (Cons x xs)
  then have "emits (seq_w (f x) (steps_w (map f xs))) (t x @ concat (map t xs))"
    by (intro emits_seq) auto
  then show ?case by (simp add: steps_w_def)
qed

lemma emits_if: "(b \<Longrightarrow> emits f s) \<Longrightarrow> (\<not> b \<Longrightarrow> emits g t) \<Longrightarrow> emits (if b then f else g) (if b then s else t)"
  by simp

lemma emits_padded: "emits (PutPadded wr s width) (padded s width)"
proof -
  have "concat (map (\<lambda>_. '' '') [length s..<width]) = replicate (width - length s) (CHR '' '')"
    by (simp add: map_replicate_const)
  with emits_seq [OF emits_Put emits_steps [of "[length s..<width]" "\<lambda>_. cli_Put wr '' ''" "\<lambda>_. '' ''"], of s]
  show ?thesis by (simp add: PutPadded_def emits_Put)
qed

lemmas emits_rules = emits_seq emits_steps emits_if emits_padded emits_Put emits_done

lemma emits_help: "emits (PrintCliHelp wr app) (help_text app)"
  unfolding PrintCliHelp_def help_text_def by (intro emits_rules)

lemma emits_command_help:
  assumes "FindCommand app command = Some cmd"
  shows "emits (PrintCliCommandHelp wr app command) (command_help_text app cmd)"
proof -
  have "emits (case cc_argument cmd of None \<Rightarrow> done_w
      | Some a \<Rightarrow> seq_w (cli_Put wr (if ca_mandatory a then '' <'' else '' [''))
          (seq_w (cli_Put wr (ca_name a)) (cli_Put wr (if ca_mandatory a then ''>'' else '']''))))
      (case cc_argument cmd of None \<Rightarrow> []
      | Some a \<Rightarrow> (if ca_mandatory a then '' <'' else '' ['') @ ca_name a @
          (if ca_mandatory a then ''>'' else '']''))"
  proof (cases "cc_argument cmd")
    case None
    then show ?thesis by (simp add: emits_done)
  next
    case (Some a)
    then show ?thesis by (simp only: option.case) (intro emits_rules)
  qed
  then show ?thesis
    unfolding PrintCliCommandHelp_def command_help_text_def assms option.case
    by (intro emits_rules)
qed

end


subsection \<open>Properties\<close>

text \<open>
  C22: arguments written from flags, valued options in either form and positional arguments, with
  everything behind a \<open>--\<close> positional, are read back as exactly those values in that order.
\<close>

theorem cli_arguments_roundtrip:
  assumes "list_all (word_ok cmd) ws"
  shows "Next_all (iterator_new (concat (map words_argv ws) @ ''--'' # ps) cmd) =
      Inr (map word_value ws @ map (word_value \<circ> Arg) ps) \<and>
    Next_all (iterator_new (concat (map words_argv ws)) cmd) = Inr (map word_value ws)"
  using Next_all_words [of "iterator_new (concat (map words_argv ws) @ ''--'' # ps) cmd" ws "''--'' # ps" ps]
    Next_all_words [of "iterator_new (concat (map words_argv ws)) cmd" ws "[]" "[]"] assms
  by (simp add: iterator_new_def)

theorem cli_arguments_roundtrip_witness:
  "Next_all (iterator_new [''--loud'', ''--name=bob'', ''dev'', ''--'', ''--name'']
     \<lparr>cc_name = ''do-it'', cc_description = [], cc_argument = None,
      cc_options = [\<lparr>co_long_option = ''--loud'', co_description = [], co_parameter = []\<rparr>,
                    \<lparr>co_long_option = ''--name'', co_description = [], co_parameter = ''VALUE''\<rparr>]\<rparr>) =
   Inr [word_value (Flag ''--loud''), word_value (OptEq ''--name'' ''bob''), word_value (Arg ''dev''),
        word_value (Arg ''--name'')]"
proof -
  let ?cmd = "\<lparr>cc_name = ''do-it'', cc_description = [], cc_argument = None,
      cc_options = [\<lparr>co_long_option = ''--loud'', co_description = [], co_parameter = []\<rparr>,
                    \<lparr>co_long_option = ''--name'', co_description = [], co_parameter = ''VALUE''\<rparr>]\<rparr>"
  have "list_all (word_ok ?cmd) [Flag ''--loud'', OptEq ''--name'' ''bob'', Arg ''dev'']"
    by (simp add: declared_def StartsWithDashDash_def)
  from cli_arguments_roundtrip [OF this, of "[''--name'']"] show ?thesis by simp
qed

text \<open>
  C28: on any arguments at all the loop over \<open>Next\<close> ends, and it either fails with one of the
  three argument errors or yields values the command declares: an option by its declared name, with
  no value when it is a flag, or a positional argument.
\<close>

theorem cli_values_declared:
  "case Next_all (iterator_new argv cmd) of
     Inl e \<Rightarrow> code e \<in> {conf_UnknownOption, conf_UnexpectedValue, conf_MissingValue}
   | Inr ovs \<Rightarrow> list_all (value_declared cmd) ovs"
proof -
  have cmd: "it_command (iterator_new argv cmd) = cmd" by (simp add: iterator_new_def)
  show ?thesis by (rule Next_all_declared [of "iterator_new argv cmd", unfolded cmd])
qed

lemma emitted_to_span:
  assumes "span_writer.emits f t"
  shows "case f (sw_new buf) of (st, w) \<Rightarrow>
    (if length t \<le> length buf then st = Ok \<and> sw_content w = bytes_of t
     else err_code st = Some io_ShortWrite)"
  using assms [unfolded span_writer.emits_def, rule_format, OF sw_new_simps(1), of buf]
  by (auto simp: sw_fits_def sw_view_def sw_absorb_def sw_content_def sw_new_def split: if_splits)

text \<open>
  The program's help, on a span writer, is exactly the help text when it fits the span, and
  \<open>ShortWrite\<close> otherwise.
\<close>

theorem cli_help_exact:
  "case PrintCliHelp SpanWriter_Write app (sw_new buf) of (st, w) \<Rightarrow>
     (if length (help_text app) \<le> length buf
      then st = Ok \<and> sw_content w = bytes_of (help_text app)
      else err_code st = Some io_ShortWrite)"
  by (rule emitted_to_span [OF span_writer.emits_help])

text \<open>
  The help of one command likewise; a command the program does not declare is \<open>UnknownCommand\<close>
  and nothing is written.
\<close>

theorem cli_command_help_exact:
  "case PrintCliCommandHelp SpanWriter_Write app command (sw_new buf) of (st, w) \<Rightarrow>
     (case FindCommand app command of
        None \<Rightarrow> err_code st = Some conf_UnknownCommand \<and> w = sw_new buf
      | Some cmd \<Rightarrow>
          if length (command_help_text app cmd) \<le> length buf
          then st = Ok \<and> sw_content w = bytes_of (command_help_text app cmd)
          else err_code st = Some io_ShortWrite)"
proof (cases "FindCommand app command")
  case None
  then show ?thesis by (simp add: PrintCliCommandHelp_def)
next
  case (Some cmd)
  from emitted_to_span [OF span_writer.emits_command_help [OF Some]] Some show ?thesis by simp
qed

end
