(* ===== verification/Log.thy ===== *)
theory Log
  imports Core
begin

section \<open>Log: leveled logging through a sink\<close>

text \<open>
  \<open>include/etlx/log/log.hpp\<close>, \<open>src/log/log.cpp\<close> and the sink of \<open>ports/host/host_io.cpp\<close>.
  The two globals are a record. What \<open>vsnprintf\<close> formats is an argument: \<open>None\<close> for an encoding
  error, otherwise the whole text, of which the line buffer keeps a prefix. A sink is an
  interface; \<open>write\<close> acts on the world for the sink that is installed.
\<close>

datatype Level = LNone | LError | LWarn | LInfo | LDebug

fun level_int :: "Level \<Rightarrow> int" where
  "level_int LNone = 0"
| "level_int LError = 1"
| "level_int LWarn = 2"
| "level_int LInfo = 3"
| "level_int LDebug = 4"

text \<open>The levels are ordered as their numbers are, from nothing to everything.\<close>

lemma level_int_inj: "level_int a = level_int b \<Longrightarrow> a = b"
  by (cases a; cases b) simp_all

instantiation Level :: linorder
begin

definition less_eq_Level :: "Level \<Rightarrow> Level \<Rightarrow> bool" where
  "less_eq_Level a b = (level_int a \<le> level_int b)"

definition less_Level :: "Level \<Rightarrow> Level \<Rightarrow> bool" where
  "less_Level a b = (level_int a < level_int b)"

instance
  by standard (auto simp: less_eq_Level_def less_Level_def dest: level_int_inj)

end

record 'k LogState =
  g_sink :: "'k option"
  g_level :: Level

definition log_initial :: "'k LogState" where
  "log_initial = \<lparr>g_sink = None, g_level = LDebug\<rparr>"

definition SetSink :: "'k option \<Rightarrow> 'k LogState \<Rightarrow> 'k LogState" where
  "SetSink sink g = g\<lparr>g_sink := sink\<rparr>"

definition SetLevel :: "Level \<Rightarrow> 'k LogState \<Rightarrow> 'k LogState" where
  "SetLevel level g = g\<lparr>g_level := level\<rparr>"

definition GetLevel :: "'k LogState \<Rightarrow> Level" where
  "GetLevel g = g_level g"

text \<open>\<open>vsnprintf(buf, n, ...)\<close> stores at most \<open>n - 1\<close> characters and a terminating zero.\<close>

definition snprintf_buf :: "nat \<Rightarrow> string \<Rightarrow> string" where
  "snprintf_buf n s = take (n - 1) s @ [CHR 0x00]"

definition Logf ::
    "('k \<Rightarrow> Level \<Rightarrow> string \<Rightarrow> 'w \<Rightarrow> 'w) \<Rightarrow> 'k LogState \<Rightarrow> Level \<Rightarrow> string option \<Rightarrow> 'w \<Rightarrow> 'w" where
  "Logf write g level formatted w =
     (case g_sink g of
        None \<Rightarrow> w
      | Some sink \<Rightarrow>
          if level_int level > level_int (g_level g) then w
          else
            (case formatted of
               None \<Rightarrow> w
             | Some s \<Rightarrow>
                 let buf = snprintf_buf ETLX_LOG_LINE_CAPACITY s;
                     n = length s;
                     len = (if n < ETLX_LOG_LINE_CAPACITY then n else ETLX_LOG_LINE_CAPACITY - 1) in
                 write sink level (take len buf) w))"

text \<open>The macros: a level above the compile-time one expands to nothing.\<close>

definition LOG_AT ::
    "('k \<Rightarrow> Level \<Rightarrow> string \<Rightarrow> 'w \<Rightarrow> 'w) \<Rightarrow> 'k LogState \<Rightarrow> int \<Rightarrow> Level \<Rightarrow> string option \<Rightarrow> 'w \<Rightarrow> 'w" where
  "LOG_AT write g level_value level formatted w =
     (if level_value \<le> ETLX_LOG_LEVEL then Logf write g level formatted w else w)"

definition LOG_ERROR :: "('k \<Rightarrow> Level \<Rightarrow> string \<Rightarrow> 'w \<Rightarrow> 'w) \<Rightarrow> 'k LogState \<Rightarrow> string option \<Rightarrow> 'w \<Rightarrow> 'w" where
  "LOG_ERROR write g = LOG_AT write g 1 LError"
definition LOG_WARN :: "('k \<Rightarrow> Level \<Rightarrow> string \<Rightarrow> 'w \<Rightarrow> 'w) \<Rightarrow> 'k LogState \<Rightarrow> string option \<Rightarrow> 'w \<Rightarrow> 'w" where
  "LOG_WARN write g = LOG_AT write g 2 LWarn"
definition LOG_INFO :: "('k \<Rightarrow> Level \<Rightarrow> string \<Rightarrow> 'w \<Rightarrow> 'w) \<Rightarrow> 'k LogState \<Rightarrow> string option \<Rightarrow> 'w \<Rightarrow> 'w" where
  "LOG_INFO write g = LOG_AT write g 3 LInfo"
definition LOG_DEBUG :: "('k \<Rightarrow> Level \<Rightarrow> string \<Rightarrow> 'w \<Rightarrow> 'w) \<Rightarrow> 'k LogState \<Rightarrow> string option \<Rightarrow> 'w \<Rightarrow> 'w" where
  "LOG_DEBUG write g = LOG_AT write g 4 LDebug"

lemmas log_macro_defs = LOG_ERROR_def LOG_WARN_def LOG_INFO_def LOG_DEBUG_def LOG_AT_def

lemma Logf_line:
  "Logf write g level (Some s) w =
     (case g_sink g of
        None \<Rightarrow> w
      | Some sink \<Rightarrow> if level_int level \<le> level_int (g_level g) then write sink level (take 127 s) w else w)"
proof -
  have "take (if length s < 128 then length s else 127) (take 127 s @ [CHR 0x00]) = take 127 s"
    by (auto simp: min_def)
  then show ?thesis
    by (auto simp: Logf_def snprintf_buf_def config_defs Let_def split: option.split)
qed

text \<open>A level passes when it is no higher than the one that is set.\<close>

lemma Logf_passes:
  "g_sink g = Some sink \<Longrightarrow> level \<le> g_level g \<Longrightarrow> Logf write g level (Some s) w = write sink level (take 127 s) w"
  by (simp add: Logf_line less_eq_Level_def)

lemma Logf_drops: "g_level g < level \<Longrightarrow> Logf write g level s w = w"
  by (cases s; cases "g_sink g") (simp_all add: Logf_def less_Level_def)

subsection \<open>The sink on the host\<close>

text \<open>\<open>%.*s\<close> prints up to \<open>size\<close> characters and stops at a zero.\<close>

definition level_tag :: "Level \<Rightarrow> string" where
  "level_tag level =
     (case level of
        LError \<Rightarrow> ''ERROR''
      | LWarn \<Rightarrow> ''WARN''
      | LInfo \<Rightarrow> ''INFO''
      | LDebug \<Rightarrow> ''DEBUG''
      | LNone \<Rightarrow> ''NONE'')"

definition StderrLogSink_Write :: "unit \<Rightarrow> Level \<Rightarrow> string \<Rightarrow> string \<Rightarrow> string" where
  "StderrLogSink_Write sink level line err =
     err @ ''['' @ level_tag level @ ''] '' @ takeWhile (\<lambda>c. c \<noteq> CHR 0x00) line @ [CHR 0x0A]"

subsection \<open>Sequences of calls\<close>

datatype 'k log_op = OpSetSink "'k option" | OpSetLevel Level | OpLog Level "string option"

fun log_run ::
    "('k \<Rightarrow> Level \<Rightarrow> string \<Rightarrow> 'w \<Rightarrow> 'w) \<Rightarrow> 'k log_op list \<Rightarrow> 'k LogState \<Rightarrow> 'w \<Rightarrow> 'w" where
  "log_run write [] g w = w"
| "log_run write (OpSetSink k # ops) g w = log_run write ops (SetSink k g) w"
| "log_run write (OpSetLevel l # ops) g w = log_run write ops (SetLevel l g) w"
| "log_run write (OpLog l s # ops) g w = log_run write ops g (LOG_AT write g (level_int l) l s w)"

text \<open>
  What a program that logs may rely on: with one sink installed and one threshold set, the sink gets
  exactly the messages at or below the threshold, each cut to 127 characters, in order.
\<close>

definition log_lines :: "Level \<Rightarrow> (Level \<times> string) list \<Rightarrow> (Level \<times> string) list" where
  "log_lines threshold msgs =
     map (map_prod id (take 127)) (filter (\<lambda>m. level_int (fst m) \<le> level_int threshold) msgs)"

lemma level_int_bound [simp]: "level_int l \<le> ETLX_LOG_LEVEL"
  by (cases l) (simp_all add: config_defs)

lemma log_run_lines:
  assumes "g_sink g = Some k"
  shows "log_run write (map (\<lambda>(l, s). OpLog l (Some s)) msgs) g w =
    fold (\<lambda>(l, s). write k l s) (log_lines (g_level g) msgs) w"
  using assms
  by (induction msgs arbitrary: w) (auto simp: log_lines_def LOG_AT_def Logf_line)

lemma log_run_silent:
  assumes "g_sink g = None"
  shows "log_run write (map (\<lambda>(l, s). OpLog l s) msgs) g w = w"
  using assms by (induction msgs arbitrary: w) (auto simp: LOG_AT_def Logf_def)

subsection \<open>Properties\<close>

text \<open>
  After the sink of the host is installed and a threshold is set, the text on the error stream is
  exactly, for each message at or below the threshold, its tag, its first 127 characters and a
  newline, in the order of the calls; with no sink nothing is written.
\<close>

theorem stderr_log_text:
  assumes "list_all (\<lambda>(l, s). CHR 0x00 \<notin> set s) msgs"
  shows "log_run StderrLogSink_Write
      (OpSetSink (Some ()) # OpSetLevel t # map (\<lambda>(l, s). OpLog l (Some s)) msgs) log_initial err =
    err @ concat (map (\<lambda>(l, s). ''['' @ level_tag l @ ''] '' @ s @ [CHR 0x0A]) (log_lines t msgs)) \<and>
    log_run StderrLogSink_Write
      (OpSetLevel t # map (\<lambda>(l, s). OpLog l (Some s)) msgs) log_initial err = err"
proof (rule conjI)
  have "fold (\<lambda>(l, s). StderrLogSink_Write () l s) (log_lines t msgs) w =
      w @ concat (map (\<lambda>(l, s). ''['' @ level_tag l @ ''] '' @ s @ [CHR 0x0A]) (log_lines t msgs))" for w
    using assms
  proof (induction msgs arbitrary: w)
    case Nil
    then show ?case by (simp add: log_lines_def)
  next
    case (Cons m msgs)
    have "takeWhile (\<lambda>c. c \<noteq> CHR 0x00) (take 127 (snd m)) = take 127 (snd m)"
      using Cons.prems by (auto simp: takeWhile_eq_all_conv dest: in_set_takeD)
    with Cons show ?case
      by (auto simp: log_lines_def StderrLogSink_Write_def split: prod.splits)
  qed
  then show "log_run StderrLogSink_Write
      (OpSetSink (Some ()) # OpSetLevel t # map (\<lambda>(l, s). OpLog l (Some s)) msgs) log_initial err =
    err @ concat (map (\<lambda>(l, s). ''['' @ level_tag l @ ''] '' @ s @ [CHR 0x0A]) (log_lines t msgs))"
    by (simp add: log_run_lines SetSink_def SetLevel_def)
  have "log_run StderrLogSink_Write (map (\<lambda>(l, s). OpLog l (Some s)) msgs) g w = w"
    if "g_sink g = None" for g w
    using log_run_silent [OF that, of _ "map (map_prod id Some) msgs"]
    by (simp add: comp_def case_prod_unfold)
  then show "log_run StderrLogSink_Write
      (OpSetLevel t # map (\<lambda>(l, s). OpLog l (Some s)) msgs) log_initial err = err"
    by (simp add: SetLevel_def log_initial_def)
qed

theorem stderr_log_text_witness:
  "log_run StderrLogSink_Write
     [OpSetSink (Some ()), OpSetLevel LInfo, OpLog LDebug (Some ''noise''), OpLog LError (Some ''bad key'')]
     log_initial '''' = ''[ERROR] bad key'' @ [CHR 0x0A]"
  using stderr_log_text [of "[(LDebug, ''noise''), (LError, ''bad key'')]" LInfo "''''"]
  by (simp add: log_lines_def level_tag_def)

end
