(* ===== verification/UpdateFsm.thy ===== *)
theory UpdateFsm
  imports Prelude "HOL-Library.Sublist"
begin

section \<open>UpdateFsm: the update workflow\<close>

text \<open>
  \<open>include/etlx/sm/update_fsm.hpp\<close> and \<open>src/sm/update_fsm.cpp\<close>. The states' handlers are
  translated one by one; an answer \<open>No_State_Change\<close> is \<open>None\<close>. The base class \<open>etl::fsm\<close>,
  which hands a message to the current state and moves to the state it answers, is a library: its
  \<open>receive\<close> is the parameter of the locale \<open>fsm_base\<close>. The diagram of the header is the step
  relation \<open>workflow\<close>, which the class implements.
\<close>

datatype StateId = IdleId | DownloadId | VerifyId | InstallId | AwaitCommitId | DoneId | FailedId

text \<open>The identifiers in the order of the enumeration; other numbers are no state.\<close>

definition state_ids :: "StateId list" where
  "state_ids = [IdleId, DownloadId, VerifyId, InstallId, AwaitCommitId, DoneId, FailedId]"

definition StateName :: "nat \<Rightarrow> string" where
  "StateName n =
     (if n < length state_ids then
        (case state_ids ! n of
           IdleId \<Rightarrow> ''Idle''
         | DownloadId \<Rightarrow> ''Download''
         | VerifyId \<Rightarrow> ''Verify''
         | InstallId \<Rightarrow> ''Install''
         | AwaitCommitId \<Rightarrow> ''AwaitCommit''
         | DoneId \<Rightarrow> ''Done''
         | FailedId \<Rightarrow> ''Failed'')
      else ''Unknown'')"

datatype Message = Start | Next | Commit | Rollback | Abort

subsection \<open>The states\<close>

fun Idle_on_event :: "Message \<Rightarrow> StateId option" where
  "Idle_on_event Start = Some DownloadId"
| "Idle_on_event _ = None"

fun Download_on_event :: "Message \<Rightarrow> StateId option" where
  "Download_on_event Next = Some VerifyId"
| "Download_on_event Abort = Some FailedId"
| "Download_on_event _ = None"

fun Verify_on_event :: "Message \<Rightarrow> StateId option" where
  "Verify_on_event Next = Some InstallId"
| "Verify_on_event Abort = Some FailedId"
| "Verify_on_event _ = None"

fun Install_on_event :: "Message \<Rightarrow> StateId option" where
  "Install_on_event Next = Some AwaitCommitId"
| "Install_on_event Abort = Some FailedId"
| "Install_on_event _ = None"

fun AwaitCommit_on_event :: "Message \<Rightarrow> StateId option" where
  "AwaitCommit_on_event Commit = Some DoneId"
| "AwaitCommit_on_event Rollback = Some FailedId"
| "AwaitCommit_on_event Abort = Some FailedId"
| "AwaitCommit_on_event _ = None"

definition Done_on_event :: "Message \<Rightarrow> StateId option" where
  "Done_on_event m = None"

definition Failed_on_event :: "Message \<Rightarrow> StateId option" where
  "Failed_on_event m = None"

text \<open>The list the constructor registers: one state object per identifier.\<close>

fun state_list :: "StateId \<Rightarrow> Message \<Rightarrow> StateId option" where
  "state_list IdleId = Idle_on_event"
| "state_list DownloadId = Download_on_event"
| "state_list VerifyId = Verify_on_event"
| "state_list InstallId = Install_on_event"
| "state_list AwaitCommitId = AwaitCommit_on_event"
| "state_list DoneId = Done_on_event"
| "state_list FailedId = Failed_on_event"

text \<open>\<open>start\<close> of the base class enters the first state of the list.\<close>

record UpdateFsm =
  fsm_state :: StateId

definition UpdateFsm_new :: UpdateFsm where
  "UpdateFsm_new = \<lparr>fsm_state = IdleId\<rparr>"

subsection \<open>The machine\<close>

text \<open>\<open>recv\<close> is \<open>etl::fsm::receive\<close>: it takes the registered states, a message and the state.\<close>

type_synonym receive = "(StateId \<Rightarrow> Message \<Rightarrow> StateId option) \<Rightarrow> Message \<Rightarrow> StateId \<Rightarrow> StateId"

definition fsm_receive :: "receive \<Rightarrow> Message \<Rightarrow> UpdateFsm \<Rightarrow> StateId \<times> UpdateFsm" where
  "fsm_receive recv m f =
     (let f' = f\<lparr>fsm_state := recv state_list m (fsm_state f)\<rparr> in (fsm_state f', f'))"

definition fsm_Start :: "receive \<Rightarrow> UpdateFsm \<Rightarrow> StateId \<times> UpdateFsm" where
  "fsm_Start recv = fsm_receive recv Start"
definition fsm_Step :: "receive \<Rightarrow> UpdateFsm \<Rightarrow> StateId \<times> UpdateFsm" where
  "fsm_Step recv = fsm_receive recv Next"
definition fsm_Commit :: "receive \<Rightarrow> UpdateFsm \<Rightarrow> StateId \<times> UpdateFsm" where
  "fsm_Commit recv = fsm_receive recv Commit"
definition fsm_Rollback :: "receive \<Rightarrow> UpdateFsm \<Rightarrow> StateId \<times> UpdateFsm" where
  "fsm_Rollback recv = fsm_receive recv Rollback"
definition fsm_Abort :: "receive \<Rightarrow> UpdateFsm \<Rightarrow> StateId \<times> UpdateFsm" where
  "fsm_Abort recv = fsm_receive recv Abort"

lemmas fsm_defs = fsm_receive_def fsm_Start_def fsm_Step_def fsm_Commit_def fsm_Rollback_def
  fsm_Abort_def

fun id_of :: "StateId \<Rightarrow> nat" where
  "id_of IdleId = 0"
| "id_of DownloadId = 1"
| "id_of VerifyId = 2"
| "id_of InstallId = 3"
| "id_of AwaitCommitId = 4"
| "id_of DoneId = 5"
| "id_of FailedId = 6"

definition fsm_state_name :: "UpdateFsm \<Rightarrow> string" where
  "fsm_state_name f = StateName (id_of (fsm_state f))"

text \<open>The driver of a sequence of messages, which the wrappers are sent one after the other by.\<close>

fun fsm_send :: "receive \<Rightarrow> Message \<Rightarrow> UpdateFsm \<Rightarrow> StateId \<times> UpdateFsm" where
  "fsm_send recv Start = fsm_Start recv"
| "fsm_send recv Next = fsm_Step recv"
| "fsm_send recv Commit = fsm_Commit recv"
| "fsm_send recv Rollback = fsm_Rollback recv"
| "fsm_send recv Abort = fsm_Abort recv"

fun fsm_run :: "receive \<Rightarrow> Message list \<Rightarrow> UpdateFsm \<Rightarrow> UpdateFsm" where
  "fsm_run recv [] f = f"
| "fsm_run recv (m # ms) f = fsm_run recv ms (snd (fsm_send recv m f))"

lemma fsm_send_receive: "fsm_send recv m = fsm_receive recv m"
  by (cases m) (simp_all add: fsm_defs)

subsection \<open>The diagram of the header\<close>

inductive workflow :: "StateId \<Rightarrow> Message \<Rightarrow> StateId \<Rightarrow> bool" where
  start: "workflow IdleId Start DownloadId"
| download: "workflow DownloadId Next VerifyId"
| verify: "workflow VerifyId Next InstallId"
| install: "workflow InstallId Next AwaitCommitId"
| commit: "workflow AwaitCommitId Commit DoneId"
| rollback: "workflow AwaitCommitId Rollback FailedId"
| abort: "s \<in> {DownloadId, VerifyId, InstallId, AwaitCommitId} \<Longrightarrow> workflow s Abort FailedId"

inductive_simps workflow_simps [simp]:
  "workflow IdleId m t" "workflow DownloadId m t" "workflow VerifyId m t" "workflow InstallId m t"
  "workflow AwaitCommitId m t" "workflow DoneId m t" "workflow FailedId m t"

inductive_cases workflow_to_DoneE: "workflow s m DoneId"

code_pred workflow .

inductive reachable :: "Message list \<Rightarrow> StateId \<Rightarrow> bool" where
  initial: "reachable [] IdleId"
| moved: "reachable ms s \<Longrightarrow> workflow s m t \<Longrightarrow> reachable (ms @ [m]) t"
| ignored: "reachable ms s \<Longrightarrow> (\<nexists>t. workflow s m t) \<Longrightarrow> reachable (ms @ [m]) s"

text \<open>The events the workflow still needs to be done; \<open>None\<close> when it cannot be.\<close>

fun path_to_done :: "StateId \<Rightarrow> Message list option" where
  "path_to_done IdleId = Some [Start, Next, Next, Next, Commit]"
| "path_to_done DownloadId = Some [Next, Next, Next, Commit]"
| "path_to_done VerifyId = Some [Next, Next, Commit]"
| "path_to_done InstallId = Some [Next, Commit]"
| "path_to_done AwaitCommitId = Some [Commit]"
| "path_to_done DoneId = Some []"
| "path_to_done FailedId = None"

lemma state_list_workflow: "state_list s m = Some t \<longleftrightarrow> workflow s m t"
  by (cases s; cases m) (auto simp: Done_on_event_def Failed_on_event_def)

lemma state_list_None: "state_list s m = None \<longleftrightarrow> (\<nexists>t. workflow s m t)"
  using state_list_workflow [of s m] by (cases "state_list s m") auto

lemma workflow_deterministic: "workflow s m t \<Longrightarrow> workflow s m u \<Longrightarrow> t = u"
  using state_list_workflow by (metis option.inject)

subsection \<open>The base class\<close>

text \<open>
  What the class relies on, and the library documents: a message is handed to the handler of the
  current state, and the machine moves to the state the handler answers, or stays.
\<close>

locale fsm_base =
  fixes recv :: receive
  assumes recv_moves: "handlers s m = Some t \<Longrightarrow> recv handlers m s = t"
    and recv_stays: "handlers s m = None \<Longrightarrow> recv handlers m s = s"
begin

lemma receive_workflow:
  "workflow s m t \<Longrightarrow> recv state_list m s = t"
  "(\<nexists>t. workflow s m t) \<Longrightarrow> recv state_list m s = s"
  by (rule recv_moves, simp only: state_list_workflow) (rule recv_stays, simp add: state_list_None)

lemma run_state:
  "fsm_state (fsm_run recv ms f) = foldl (\<lambda>s m. recv state_list m s) (fsm_state f) ms"
  by (induction ms arbitrary: f) (simp_all add: fsm_send_receive fsm_receive_def Let_def)

lemma run_reachable: "reachable ms (fsm_state (fsm_run recv ms UpdateFsm_new))"
proof (induction ms rule: rev_induct)
  case Nil
  show ?case by (simp add: UpdateFsm_new_def initial)
next
  case (snoc m ms)
  let ?s = "fsm_state (fsm_run recv ms UpdateFsm_new)"
  have "fsm_state (fsm_run recv (ms @ [m]) UpdateFsm_new) = recv state_list m ?s"
    by (simp add: run_state)
  then show ?case
    using snoc receive_workflow [of ?s m] by (cases "\<exists>t. workflow ?s m t") (auto intro: reachable.intros)
qed

lemma reachable_run: "reachable ms s \<Longrightarrow> fsm_state (fsm_run recv ms UpdateFsm_new) = s"
  by (induction rule: reachable.induct) (simp_all add: run_state UpdateFsm_new_def receive_workflow)

lemma run_to_done:
  assumes "fsm_state (fsm_run recv ms f) = DoneId"
  shows "\<exists>p. path_to_done (fsm_state f) = Some p \<and> subseq p ms"
  using assms
proof (induction ms arbitrary: f)
  case Nil
  then show ?case by simp
next
  case (Cons m ms)
  let ?s = "fsm_state f"
  have "fsm_state (fsm_run recv ms (f\<lparr>fsm_state := recv state_list m ?s\<rparr>)) = DoneId"
    using Cons.prems by (simp add: fsm_send_receive fsm_receive_def Let_def)
  from Cons.IH [OF this] obtain p where p: "path_to_done (recv state_list m ?s) = Some p" "subseq p ms"
    by auto
  show ?case
  proof (cases "\<exists>t. workflow ?s m t")
    case True
    then obtain t where t: "workflow ?s m t" by blast
    with p have "path_to_done t = Some p" by (simp add: receive_workflow)
    with t p(2) show ?thesis by cases auto
  qed (use p receive_workflow(2) [of ?s m] in auto)
qed

lemma terminal_stable:
  assumes "fsm_state f \<in> {DoneId, FailedId}"
  shows "fsm_run recv ms f = f"
  using assms
proof (induction ms)
  case (Cons m ms)
  then have "recv state_list m (fsm_state f) = fsm_state f"
    by (intro receive_workflow(2)) auto
  with Cons show ?case by (simp add: fsm_send_receive fsm_receive_def Let_def)
qed simp

lemma finishes:
  assumes "path_to_done (fsm_state f) = Some p"
  shows "fsm_state (fsm_run recv p f) = DoneId"
  using assms
  by (cases "fsm_state f")
    (auto simp: run_state receive_workflow)

end

text \<open>The library's dispatch, as documented.\<close>

definition dispatch :: receive where
  "dispatch handlers m s = (case handlers s m of None \<Rightarrow> s | Some t \<Rightarrow> t)"

interpretation etl_fsm: fsm_base dispatch
  by unfold_locales (simp_all add: dispatch_def)

subsection \<open>Properties\<close>

text \<open>
  C31: the machine is in a state after a sequence of messages exactly when the diagram of the header,
  with every message it does not show ignored, leads there.
\<close>

theorem fsm_refines_workflow:
  assumes "fsm_base recv"
  shows "fsm_state (fsm_run recv ms UpdateFsm_new) = s \<longleftrightarrow> reachable ms s"
  using fsm_base.run_reachable [OF assms] fsm_base.reachable_run [OF assms] by metis

theorem fsm_refines_workflow_witness:
  "reachable [Commit, Start, Start, Next, Abort, Next] FailedId"
  by (rule fsm_refines_workflow [OF etl_fsm.fsm_base_axioms, THEN iffD1])
    (simp add: fsm_defs dispatch_def UpdateFsm_new_def Failed_on_event_def Let_def)

text \<open>
  The update is done only after it was started, downloaded, verified and installed and then
  committed, in this order, whatever other messages came between; and once done or failed it stays so.
\<close>

theorem done_only_in_order:
  assumes "fsm_base recv" and "fsm_state (fsm_run recv ms UpdateFsm_new) = DoneId"
  shows "subseq [Start, Next, Next, Next, Commit] ms \<and>
    fsm_run recv (ms @ ms') UpdateFsm_new = fsm_run recv ms UpdateFsm_new"
proof -
  have "fsm_run recv (ms @ ms') f = fsm_run recv ms' (fsm_run recv ms f)" for f
    by (induction ms arbitrary: f) simp_all
  with fsm_base.run_to_done [OF assms] fsm_base.terminal_stable [OF assms(1), of _ ms'] assms(2)
  show ?thesis by (simp add: UpdateFsm_new_def)
qed

theorem done_only_in_order_witness:
  "subseq [Start, Next, Next, Next, Commit] [Start, Next, Start, Next, Rollback, Next, Commit]"
  by (rule done_only_in_order [OF etl_fsm.fsm_base_axioms, THEN conjunct1])
    (simp add: fsm_defs dispatch_def UpdateFsm_new_def Let_def)

text \<open>
  From every state a run has reached, the update can still be brought to an end: to done from all
  but the failed state, by exactly the events that are missing.
\<close>

theorem workflow_can_finish:
  assumes "fsm_base recv"
  shows "\<exists>ms'. fsm_state (fsm_run recv (ms @ ms') UpdateFsm_new) =
    (if fsm_state (fsm_run recv ms UpdateFsm_new) = FailedId then FailedId else DoneId)"
proof -
  let ?f = "fsm_run recv ms UpdateFsm_new"
  have app: "fsm_run recv (ms @ ms') f = fsm_run recv ms' (fsm_run recv ms f)" for f ms'
    by (induction ms arbitrary: f) simp_all
  show ?thesis
  proof (cases "path_to_done (fsm_state ?f)")
    case None
    then have "fsm_state ?f = FailedId" by (cases "fsm_state ?f") simp_all
    then show ?thesis by (intro exI [of _ "[]"]) simp
  next
    case (Some p)
    then have "fsm_state ?f \<noteq> FailedId" by auto
    with fsm_base.finishes [OF assms Some] show ?thesis by (auto simp: app intro!: exI [of _ p])
  qed
qed

theorem workflow_can_finish_witness:
  "\<exists>ms'. fsm_state (fsm_run dispatch ([Start, Next] @ ms') UpdateFsm_new) = DoneId"
  using workflow_can_finish [OF etl_fsm.fsm_base_axioms, of "[Start, Next]"]
  by (simp add: fsm_defs dispatch_def UpdateFsm_new_def Let_def)

end
