(* ===== verification/Democli.thy ===== *)
theory Democli
  imports Cli Log UpdateFsm HostPorts
begin

section \<open>Democli: the demo program\<close>

text \<open>
  \<open>apps/democli\<close>: the command table, the actions, \<open>ParseArguments\<close> and \<open>Main\<close>. The pool of
  actions is static storage that outlives a call, so it is passed in and returned. The actions drop
  the results of their writes; the update machine of the install action is local to it and is
  answered beside the result, so that its state can be stated.
\<close>

definition ExitOk :: int where "ExitOk = 0"
definition ExitError :: int where "ExitError = 1"
definition ExitNoUpdate :: int where "ExitNoUpdate = 2"
definition ExitRebootNeeded :: int where "ExitRebootNeeded = 4"

lemmas exit_defs = ExitOk_def ExitError_def ExitNoUpdate_def ExitRebootNeeded_def

definition democli_Category :: Category where
  [category_defs]: "democli_Category = \<lparr>cat_name = ''democli''\<rparr>"

subsection \<open>The command table\<close>

definition stop_before_option :: "string \<Rightarrow> CliOption" where
  "stop_before_option d =
     \<lparr>co_long_option = ''--stop-before'', co_description = d, co_parameter = ''STATE''\<rparr>"

definition BuildApp :: CliApp where
  "BuildApp =
     \<lparr>app_name = ''democli'',
      app_short_description = ''demo OTA-style CLI built on the etlx template'',
      app_long_description =
        ''Mirrors the Mender update CLI command model: a declarative command'' @ NL @
        ''table plus polymorphic actions, with no heap or exceptions.'',
      app_commands =
        [\<lparr>cc_name = ''show-artifact'',
          cc_description = ''Print the currently installed artifact name'',
          cc_argument = None, cc_options = []\<rparr>,
         \<lparr>cc_name = ''check-update'',
          cc_description = ''Query for a newer artifact and report the result'',
          cc_argument = None, cc_options = []\<rparr>,
         \<lparr>cc_name = ''install'',
          cc_description = ''Download, verify and install an artifact'',
          cc_argument = Some \<lparr>ca_name = ''artifact'', ca_mandatory = True\<rparr>,
          cc_options = [stop_before_option ''Halt the workflow before STATE'']\<rparr>,
         \<lparr>cc_name = ''commit'',
          cc_description = ''Commit a pending update (exit 2 if none)'',
          cc_argument = None, cc_options = [stop_before_option ''Halt before the given state'']\<rparr>,
         \<lparr>cc_name = ''rollback'',
          cc_description = ''Roll back a pending update (exit 2 if none)'',
          cc_argument = None, cc_options = [stop_before_option ''Halt before the given state'']\<rparr>]\<rparr>"

subsection \<open>The actions\<close>

datatype Action = ShowArtifact | CheckUpdate | Install | CommitUpdate | RollbackUpdate | Help

record ActionPool =
  pl_artifact :: string
  pl_stop_before :: string
  pl_command :: string

definition pool_initial :: ActionPool where
  "pool_initial = \<lparr>pl_artifact = [], pl_stop_before = [], pl_command = []\<rparr>"

definition SetArtifact :: "string \<Rightarrow> ActionPool \<Rightarrow> ActionPool" where
  "SetArtifact a p = p\<lparr>pl_artifact := fixed_string 128 a\<rparr>"

definition SetStopBefore :: "string \<Rightarrow> ActionPool \<Rightarrow> ActionPool" where
  "SetStopBefore s p = p\<lparr>pl_stop_before := fixed_string 32 s\<rparr>"

definition SetCommand :: "string \<Rightarrow> ActionPool \<Rightarrow> ActionPool" where
  "SetCommand c p = p\<lparr>pl_command := fixed_string 32 c\<rparr>"

definition ExitWith :: "int \<Rightarrow> string \<Rightarrow> Error" where
  "ExitWith c msg = error_Make democli_Category c msg"

text \<open>\<open>Put(ctx, s);\<close> with its result dropped.\<close>

definition act_Put :: "(bytes \<Rightarrow> 'w \<Rightarrow> Status \<times> 'w) \<Rightarrow> string \<Rightarrow> 'w \<Rightarrow> 'w" where
  "act_Put wr s w = snd (wr (bytes_of s) w)"

definition ShowArtifact_Execute :: "(bytes \<Rightarrow> 'w \<Rightarrow> Status \<times> 'w) \<Rightarrow> 'w \<Rightarrow> Error \<times> 'w" where
  "ShowArtifact_Execute wr w = (NoError, act_Put wr (''artifact: device-image-1.0.0'' @ NL) w)"

definition CheckUpdate_Execute ::
    "(bytes \<Rightarrow> 'w \<Rightarrow> Status \<times> 'w) \<Rightarrow> unit LogState \<Rightarrow> 'w \<times> string \<Rightarrow> Error \<times> 'w \<times> string" where
  "CheckUpdate_Execute wr g we =
     (case we of (w, err) \<Rightarrow>
        let err = LOG_INFO StderrLogSink_Write g (Some ''checking for updates'') err;
            w = act_Put wr (''current:   device-image-1.0.0'' @ NL) w;
            w = act_Put wr (''available: device-image-1.1.0'' @ NL) w;
            w = act_Put wr (''update available'' @ NL) w in
        (NoError, w, err))"

text \<open>The loop over the phases; \<open>Some e\<close> is an early return.\<close>

fun install_phases ::
    "(bytes \<Rightarrow> 'w \<Rightarrow> Status \<times> 'w) \<Rightarrow> receive \<Rightarrow> string \<Rightarrow> string list \<Rightarrow> UpdateFsm \<Rightarrow> 'w \<Rightarrow>
     Error option \<times> UpdateFsm \<times> 'w" where
  "install_phases wr recv stop [] fsm w = (None, fsm, w)"
| "install_phases wr recv stop (phase # rest) fsm w =
     (if stop \<noteq> [] \<and> stop = phase
      then
        let w = act_Put wr ''stopping before '' w;
            w = act_Put wr phase w;
            w = act_Put wr NL w in
        (Some NoError, fsm, w)
      else
        let w = act_Put wr ''  '' w;
            w = act_Put wr phase w;
            w = act_Put wr ('' ok'' @ NL) w in
        install_phases wr recv stop rest (snd (fsm_Step recv fsm)) w)"

definition Install_Execute ::
    "(bytes \<Rightarrow> 'w \<Rightarrow> Status \<times> 'w) \<Rightarrow> receive \<Rightarrow> ActionPool \<Rightarrow> 'w \<Rightarrow> Error \<times> UpdateFsm option \<times> 'w" where
  "Install_Execute wr recv p w =
     (if pl_artifact p = [] then (ExitWith ExitError ''install requires an artifact argument'', None, w)
      else
        let w = act_Put wr ''installing '' w;
            w = act_Put wr (pl_artifact p) w;
            w = act_Put wr NL w;
            fsm = snd (fsm_Start recv UpdateFsm_new) in
        (case install_phases wr recv (pl_stop_before p) [''download'', ''verify'', ''install''] fsm w of
           (Some e, fsm, w) \<Rightarrow> (e, Some fsm, w)
         | (None, fsm, w) \<Rightarrow>
             let w = act_Put wr (''install complete; reboot required'' @ NL) w in
             (ExitWith ExitRebootNeeded ''reboot required'', Some fsm, w)))"

definition Commit_Execute :: "(bytes \<Rightarrow> 'w \<Rightarrow> Status \<times> 'w) \<Rightarrow> 'w \<Rightarrow> Error \<times> 'w" where
  "Commit_Execute wr w =
     (ExitWith ExitNoUpdate ''no update to commit'', act_Put wr (''no update in progress'' @ NL) w)"

definition Rollback_Execute :: "(bytes \<Rightarrow> 'w \<Rightarrow> Status \<times> 'w) \<Rightarrow> 'w \<Rightarrow> Error \<times> 'w" where
  "Rollback_Execute wr w =
     (ExitWith ExitNoUpdate ''no update to roll back'', act_Put wr (''no update in progress'' @ NL) w)"

definition Help_Execute ::
    "(bytes \<Rightarrow> 'w \<Rightarrow> Status \<times> 'w) \<Rightarrow> ActionPool \<Rightarrow> 'w \<Rightarrow> Error \<times> 'w" where
  "Help_Execute wr p w =
     (if pl_command p = []
      then (case PrintCliHelp wr BuildApp w of
              (Inr _, w) \<Rightarrow> (NoError, w)
            | (Inl _, w) \<Rightarrow> (ExitWith ExitError ''help failed'', w))
      else (case PrintCliCommandHelp wr BuildApp (pl_command p) w of
              (Inr _, w) \<Rightarrow> (NoError, w)
            | (Inl e, w) \<Rightarrow> (e, w)))"

text \<open>The virtual call.\<close>

definition Execute ::
    "(bytes \<Rightarrow> 'w \<Rightarrow> Status \<times> 'w) \<Rightarrow> receive \<Rightarrow> unit LogState \<Rightarrow> ActionPool \<Rightarrow> Action \<Rightarrow> 'w \<times> string \<Rightarrow>
     Error \<times> 'w \<times> string" where
  "Execute wr recv g p a we =
     (case a of
        ShowArtifact \<Rightarrow> (case ShowArtifact_Execute wr (fst we) of (e, w) \<Rightarrow> (e, w, snd we))
      | CheckUpdate \<Rightarrow> CheckUpdate_Execute wr g we
      | Install \<Rightarrow> (case Install_Execute wr recv p (fst we) of (e, _, w) \<Rightarrow> (e, w, snd we))
      | CommitUpdate \<Rightarrow> (case Commit_Execute wr (fst we) of (e, w) \<Rightarrow> (e, w, snd we))
      | RollbackUpdate \<Rightarrow> (case Rollback_Execute wr (fst we) of (e, w) \<Rightarrow> (e, w, snd we))
      | Help \<Rightarrow> (case Help_Execute wr p (fst we) of (e, w) \<Rightarrow> (e, w, snd we)))"

subsection \<open>The arguments\<close>

definition IsHelpFlag :: "string \<Rightarrow> bool" where
  "IsHelpFlag s = (s = ''--help'' \<or> s = ''-h'')"

text \<open>What the walk over a command's arguments found: the last stop state and the one argument.\<close>

function parse_loop ::
    "CmdlineOptionsIterator \<Rightarrow> string \<Rightarrow> string option \<Rightarrow> (string \<times> string option) Result" where
  "parse_loop it stop_before argument =
     (case Cli.Next it of
        (Inl e, it') \<Rightarrow> Inl e
      | (Inr None, it') \<Rightarrow> Inr (stop_before, argument)
      | (Inr (Some ov), it') \<Rightarrow>
          if ov_is_argument ov then
            (if argument \<noteq> None
             then Fail conf_Category conf_TooManyArgs ''unexpected extra argument''
             else parse_loop it' stop_before (Some (ov_value ov)))
          else if ov_option ov = ''--stop-before'' then parse_loop it' (ov_value ov) argument
          else parse_loop it' stop_before argument)"
  by pat_completeness auto
termination
  by (relation "measure (\<lambda>(it, _, _). length (it_argv it) - it_index it)")
    (auto dest: Next_some_decreases dest!: sym [of _ "Cli.Next _"])

declare parse_loop.simps [simp del]

definition ParseArguments :: "string list \<Rightarrow> ActionPool \<Rightarrow> Action Result \<times> ActionPool" where
  "ParseArguments argv pool =
     (if length argv < 2 \<or> IsHelpFlag (argv ! 1) \<or> argv ! 1 = ''help''
      then (Inr Help, if length argv \<ge> 3 then SetCommand (argv ! 2) pool else pool)
      else
        let cmd_name = argv ! 1 in
        (case FindCommand BuildApp cmd_name of
           None \<Rightarrow> (Fail conf_Category conf_UnknownCommand cmd_name, pool)
         | Some cmd \<Rightarrow>
             if list_ex IsHelpFlag (drop 2 argv) then (Inr Help, SetCommand cmd_name pool)
             else
               (case parse_loop (iterator_new (drop 2 argv) cmd) [] None of
                  Inl e \<Rightarrow> (Inl e, pool)
                | Inr (stop_before, argument) \<Rightarrow>
                    if cmd_name = ''show-artifact'' then (Inr ShowArtifact, pool)
                    else if cmd_name = ''check-update'' then (Inr CheckUpdate, pool)
                    else if cmd_name = ''install'' then
                      (let pool = (case argument of None \<Rightarrow> pool | Some a \<Rightarrow> SetArtifact a pool);
                           pool = (if stop_before \<noteq> [] then SetStopBefore stop_before pool else pool) in
                       (Inr Install, pool))
                    else if cmd_name = ''commit'' then (Inr CommitUpdate, pool)
                    else if cmd_name = ''rollback'' then (Inr RollbackUpdate, pool)
                    else (Fail conf_Category conf_UnknownCommand cmd_name, pool))))"

text \<open>\<open>"%s: %.*s"\<close>; the message is printed up to a zero.\<close>

definition error_line :: "Error \<Rightarrow> string" where
  "error_line e =
     (case category e of None \<Rightarrow> ''error'' | Some c \<Rightarrow> cat_name c) @ '': '' @
     takeWhile (\<lambda>c. c \<noteq> CHR 0x00) (message e)"

definition democli_Main ::
    "(bytes \<Rightarrow> 'w \<Rightarrow> Status \<times> 'w) \<Rightarrow> receive \<Rightarrow> unit LogState \<Rightarrow> string list \<Rightarrow> ActionPool \<Rightarrow> 'w \<times> string \<Rightarrow>
     int \<times> ActionPool \<times> 'w \<times> string" where
  "democli_Main wr recv g argv pool we =
     (case ParseArguments argv pool of
        (Inl e, pool') \<Rightarrow>
          let err = LOG_ERROR StderrLogSink_Write g (Some (error_line e)) (snd we);
              w = snd (PrintCliHelp wr BuildApp (fst we)) in
          (ExitError, pool', w, err)
      | (Inr a, pool') \<Rightarrow>
          (case Execute wr recv g pool' a we of
             (e, we') \<Rightarrow> (if Error_ok e then ExitOk else code e, pool', we')))"

text \<open>The process: the sink and the level of \<open>main\<close>, and the standard output as the writer.\<close>

definition main_log :: "unit LogState" where
  "main_log = SetLevel LInfo (SetSink (Some ()) log_initial)"

definition democli_main ::
    "(bytes \<Rightarrow> 'f \<Rightarrow> nat \<times> 'f) \<Rightarrow> receive \<Rightarrow> string list \<Rightarrow> 'f \<times> string \<Rightarrow> int \<times> ActionPool \<times> 'f \<times> string" where
  "democli_main fwrite recv argv we =
     democli_Main (FileWriter_Write fwrite) recv main_log argv pool_initial we"

subsection \<open>What the actions write\<close>

context writer
begin

lemma puts_fit:
  assumes "winv w" "fits (view w) (bytes_of (concat ts))"
  shows "winv (fold (act_Put wr) ts w) \<and>
    view (fold (act_Put wr) ts w) = absorb (bytes_of (concat ts)) (view w)"
  using assms
proof (induction ts arbitrary: w)
  case Nil
  then show ?case by (simp add: absorb_Nil)
next
  case (Cons t ts)
  then have f: "fits (view w) (bytes_of t)" "fits (absorb (bytes_of t) (view w)) (bytes_of (concat ts))"
    using fits_append [OF Cons.prems(1), of "bytes_of t"] by auto
  from write_fits [OF Cons.prems(1) f(1)] have "winv (act_Put wr t w)"
    "view (act_Put wr t w) = absorb (bytes_of t) (view w)" by (auto simp: act_Put_def)
  with Cons.IH [of "act_Put wr t w"] f(2) Cons.prems(1) show ?case by (simp add: absorb_append)
qed

lemma command_help_errors:
  assumes "winv w" "PrintCliCommandHelp wr app c w = (Inl e, w')"
  shows "code e = conf_UnknownCommand \<or> refusal (code e)"
proof (cases "FindCommand app c")
  case None
  with assms(2) show ?thesis by (auto simp: PrintCliCommandHelp_def Fail_def)
next
  case (Some cmd)
  from emits_command_help [OF this] assms show ?thesis
    by (fastforce simp: emits_def split: if_splits)
qed

lemma help_writes:
  assumes "winv w" "fits (view w) (bytes_of (help_text app))"
  shows "\<exists>w'. PrintCliHelp wr app w = (Ok, w') \<and> view w' = absorb (bytes_of (help_text app)) (view w)"
  using emits_help [of app] assms by (fastforce simp: emits_def)

end

definition phases :: "string list" where
  "phases = [''download'', ''verify'', ''install'']"

definition install_transcript :: "string \<Rightarrow> string \<Rightarrow> string" where
  "install_transcript a stop =
     ''installing '' @ a @ NL @
     concat (map (\<lambda>p. ''  '' @ p @ '' ok'' @ NL) (takeWhile (\<lambda>p. p \<noteq> stop) phases)) @
     (if stop \<in> set phases then ''stopping before '' @ stop @ NL
      else ''install complete; reboot required'' @ NL)"

definition install_state :: "string \<Rightarrow> StateId" where
  "install_state stop =
     (if stop = ''download'' then DownloadId else if stop = ''verify'' then VerifyId
      else if stop = ''install'' then InstallId else AwaitCommitId)"

definition install_puts :: "string \<Rightarrow> string \<Rightarrow> string list" where
  "install_puts a stop =
     [''installing '', a, NL] @
     concat (map (\<lambda>p. [''  '', p, '' ok'' @ NL]) (takeWhile (\<lambda>p. p \<noteq> stop) phases)) @
     (if stop \<in> set phases then [''stopping before '', stop, NL]
      else [''install complete; reboot required'' @ NL])"

lemma concat_install_puts: "concat (install_puts a stop) = install_transcript a stop"
proof -
  have "concat (concat (map (\<lambda>p. [''  '', p, '' ok'' @ NL]) ps)) = concat (map (\<lambda>p. ''  '' @ p @ '' ok'' @ NL) ps)"
    for ps by (induction ps) simp_all
  then show ?thesis by (simp add: install_puts_def install_transcript_def)
qed

context fsm_base
begin

lemma step_state:
  "fsm_state (snd (fsm_Start recv UpdateFsm_new)) = DownloadId"
  "fsm_state f = DownloadId \<Longrightarrow> fsm_state (snd (fsm_Step recv f)) = VerifyId"
  "fsm_state f = VerifyId \<Longrightarrow> fsm_state (snd (fsm_Step recv f)) = InstallId"
  "fsm_state f = InstallId \<Longrightarrow> fsm_state (snd (fsm_Step recv f)) = AwaitCommitId"
  by (simp_all add: fsm_defs receive_workflow UpdateFsm_new_def Let_def)

lemma Install_Execute_writes:
  assumes "pl_artifact p \<noteq> []"
  shows "case Install_Execute wr recv p w of (e, fsm, w') \<Rightarrow>
    w' = fold (act_Put wr) (install_puts (pl_artifact p) (pl_stop_before p)) w \<and>
    map_option fsm_state fsm = Some (install_state (pl_stop_before p)) \<and>
    (if pl_stop_before p \<in> set phases then e = NoError
     else e = ExitWith ExitRebootNeeded ''reboot required'')"
proof -
  let ?s = "pl_stop_before p"
  consider "?s = ''download''" | "?s = ''verify''" | "?s = ''install''"
    | "?s \<notin> set phases" by (auto simp: phases_def)
  then show ?thesis
  proof cases
    case 4
    then have "?s \<noteq> ''download''" "?s \<noteq> ''verify''" "?s \<noteq> ''install''" by (simp_all add: phases_def)
    with assms show ?thesis
      by (simp add: Install_Execute_def Let_def phases_def install_puts_def install_state_def step_state)
  qed (use assms in \<open>simp_all add: Install_Execute_def Let_def phases_def install_puts_def
      install_state_def step_state\<close>)
qed

end

subsection \<open>Properties\<close>

text \<open>
  C35: installing an artifact drives the update machine through its phases in order, up to the one to
  stop before, or to \<open>AwaitCommit\<close>; it writes exactly the transcript, and exits with "reboot needed"
  exactly when it was not stopped.
\<close>

theorem install_workflow:
  assumes "fsm_base recv" and "pl_artifact p \<noteq> []"
    and "length (install_transcript (pl_artifact p) (pl_stop_before p)) \<le> length buf"
  shows "\<exists>e fsm w. Install_Execute SpanWriter_Write recv p (sw_new buf) = (e, Some fsm, w) \<and>
    sw_content w = bytes_of (install_transcript (pl_artifact p) (pl_stop_before p)) \<and>
    fsm_state fsm = install_state (pl_stop_before p) \<and>
    (if pl_stop_before p \<in> set phases then e = NoError else code e = ExitRebootNeeded)"
proof -
  let ?puts = "install_puts (pl_artifact p) (pl_stop_before p)"
  have "sw_fits (sw_view (sw_new buf)) (bytes_of (concat ?puts))"
    using assms(3) by (simp add: sw_fits_def concat_install_puts)
  from span_writer.puts_fit [OF sw_new_simps(1) this]
  have "sw_content (fold (act_Put SpanWriter_Write) ?puts (sw_new buf)) =
      bytes_of (install_transcript (pl_artifact p) (pl_stop_before p))"
    by (simp add: sw_view_def sw_absorb_def concat_install_puts)
  with fsm_base.Install_Execute_writes [OF assms(1,2), of SpanWriter_Write "sw_new buf"] show ?thesis
    by (auto simp: ExitWith_def split: prod.splits)
qed

theorem install_workflow_witness:
  "\<exists>e fsm w. Install_Execute SpanWriter_Write dispatch
      \<lparr>pl_artifact = ''img'', pl_stop_before = ''verify'', pl_command = []\<rparr> (sw_new (replicate 100 0)) =
      (e, Some fsm, w) \<and>
    sw_content w = bytes_of (''installing img'' @ NL @ ''  download ok'' @ NL @ ''stopping before verify'' @ NL) \<and>
    fsm_state fsm = VerifyId"
proof -
  let ?p = "\<lparr>pl_artifact = ''img'', pl_stop_before = ''verify'', pl_command = []\<rparr>"
  have t: "install_transcript ''img'' ''verify'' =
      ''installing img'' @ NL @ ''  download ok'' @ NL @ ''stopping before verify'' @ NL"
    by (simp add: install_transcript_def phases_def)
  have "pl_artifact ?p \<noteq> []"
    "length (install_transcript (pl_artifact ?p) (pl_stop_before ?p)) \<le> length (replicate 100 (0 :: u8))"
    by (simp_all add: t NL_def)
  from install_workflow [OF etl_fsm.fsm_base_axioms this] show ?thesis
    by (auto simp: t install_state_def simp del: map_append)
qed

text \<open>
  Whatever the arguments and however little room the output has, the process exits with one of
  the documented codes: 0, 1, 2 or 4.
\<close>

theorem main_exit_codes:
  "fst (democli_main dev_fwrite recv argv we) \<in> {ExitOk, ExitError, ExitNoUpdate, ExitRebootNeeded}"
proof -
  have install_codes: "code e \<in> {ExitError, ExitRebootNeeded} \<or> e = NoError"
    if "Install_Execute wr recv p w = (e, f, w')" for wr :: "bytes \<Rightarrow> 'a \<Rightarrow> Status \<times> 'a" and p w e f w'
    using that by (auto simp: Install_Execute_def Let_def ExitWith_def NoError_def split: if_splits)
  have help_codes: "code e \<in> {ExitError, ExitNoUpdate} \<or> e = NoError"
    if "Help_Execute (FileWriter_Write dev_fwrite) p w = (e, w')" for p w e w'
    using that device.file_writer.command_help_errors [where w = w and app = BuildApp and c = "pl_command p"]
    by (auto simp: Help_Execute_def ExitWith_def exit_defs conf_UnknownCommand_def io_ShortWrite_def
        split: if_splits prod.splits sum.splits)
  show ?thesis
    unfolding democli_main_def democli_Main_def
    by (auto split: prod.splits sum.splits Action.splits
        simp: Execute_def Let_def ShowArtifact_Execute_def CheckUpdate_Execute_def Commit_Execute_def
          Rollback_Execute_def ExitWith_def dest!: install_codes help_codes)
qed

text \<open>
  A command the table does not have is diagnosed: one line on the error stream names it, the help
  text goes to the standard output and the process exits with 1.
\<close>

theorem unknown_command_diagnosed:
  assumes "cmd \<notin> set (map cc_name (app_commands BuildApp)) \<union> {''--help'', ''-h'', ''help''}"
    and "length cmd \<le> 64" and "CHR 0x00 \<notin> set cmd" and "dev_room d = None"
  shows "\<exists>d'. democli_main dev_fwrite recv (prog # cmd # rest) (d, err) =
      (ExitError, pool_initial, d', err @ ''[ERROR] conf: '' @ cmd @ NL) \<and>
    dev_contents d' = dev_contents d @ bytes_of (help_text BuildApp)"
proof -
  have find: "FindCommand BuildApp cmd = None"
    using assms(1) by (auto simp: FindCommand_def find_None_iff)
  have zero_free: "takeWhile (\<lambda>c. c \<noteq> CHR 0x00) cmd = cmd"
    using assms(3) by (auto simp: takeWhile_eq_all_conv)
  have err: "LOG_ERROR StderrLogSink_Write main_log (Some (error_line (error_Make conf_Category
      conf_UnknownCommand cmd))) err = err @ ''[ERROR] conf: '' @ cmd @ NL"
    using assms(2) by (simp add: zero_free error_line_def error_Make_def fixed_string_def config_defs category_defs
        log_macro_defs Logf_line main_log_def SetLevel_def SetSink_def StderrLogSink_Write_def
        level_tag_def NL_def)
  have "within (dev_room d) (length (bytes_of (help_text BuildApp)))" by (simp add: assms(4) within_def)
  with device.file_writer.help_writes [where w = d and app = BuildApp] obtain d' where
    "PrintCliHelp (FileWriter_Write dev_fwrite) BuildApp d = (Ok, d')"
    "dev_contents d' = dev_contents d @ bytes_of (help_text BuildApp)" by auto
  with err find assms(1) show ?thesis
    by (auto simp: democli_main_def democli_Main_def ParseArguments_def IsHelpFlag_def Fail_def Let_def)
qed

theorem unknown_command_diagnosed_witness:
  "\<exists>d'. democli_main dev_fwrite dispatch [''democli'', ''frobnicate'']
      (\<lparr>dev_contents = [], dev_room = None\<rparr>, []) =
      (ExitError, pool_initial, d', ''[ERROR] conf: frobnicate'' @ NL)"
  using unknown_command_diagnosed [of "''frobnicate''" "\<lparr>dev_contents = [], dev_room = None\<rparr>"
      dispatch "''democli''" "[]" "[]"]
  by (auto simp: BuildApp_def)

text \<open>The pool keeps what an earlier call of \<open>ParseArguments\<close> put into it.\<close>

lemma stale_artifact:
  "ParseArguments [prog, ''install''] (SetArtifact a p) = (Inr Install, SetArtifact a p)"
  by (simp add: ParseArguments_def IsHelpFlag_def FindCommand_def BuildApp_def parse_loop.simps
      iterator_new_def Cli.Next_def Let_def)

end
