(* ===== verification/SeCore.thy ===== *)
theory SeCore
  imports Core
begin

section \<open>SeCore: the errors of the secure element, its key sets\<close>

text \<open>
  The error codes of \<open>include/etlx/se/connection.hpp\<close>, the capacities of the port and the key set of
  \<open>include/etlx/se/scp03.hpp\<close>.
\<close>

definition kSeCategory :: Category where
  [category_defs]: "kSeCategory = \<lparr>cat_name = ''etlx::se''\<rparr>"

datatype SeError =
  kOpenFailed | kStoreFailed | kRngFailed | kKeyFailed | kSignFailed | kWriteFailed | kReadFailed

fun se_code :: "SeError \<Rightarrow> Code" where
  "se_code kOpenFailed = 1"
| "se_code kStoreFailed = 2"
| "se_code kRngFailed = 3"
| "se_code kKeyFailed = 4"
| "se_code kSignFailed = 5"
| "se_code kWriteFailed = 6"
| "se_code kReadFailed = 7"

definition SeFail :: "SeError \<Rightarrow> string \<Rightarrow> 'a Result" where
  "SeFail c msg = Fail kSeCategory (se_code c) msg"

lemma SeFail_simps [simp]:
  "err_code (SeFail c msg) = Some (se_code c)"
  "SeFail c msg \<noteq> Inr x" "Inr x \<noteq> SeFail c msg" "isl (SeFail c msg)"
  by (simp_all add: SeFail_def) (simp add: Fail_def)

definition ETLX_SE_SPKI_CAPACITY :: nat where
  [config_defs]: "ETLX_SE_SPKI_CAPACITY = 512"
definition ETLX_SE_SIG_CAPACITY :: nat where
  [config_defs]: "ETLX_SE_SIG_CAPACITY = 512"
definition ETLX_SE_CSR_PEM_CAPACITY :: nat where
  [config_defs]: "ETLX_SE_CSR_PEM_CAPACITY = 2048"
definition ETLX_SE_CERT_CAPACITY :: nat where
  [config_defs]: "ETLX_SE_CERT_CAPACITY = 2048"
definition ETLX_SE_BLOB_CAPACITY :: nat where
  [config_defs]: "ETLX_SE_BLOB_CAPACITY = 512"
definition ETLX_SE_UID_LEN :: nat where
  [config_defs]: "ETLX_SE_UID_LEN = 18"

text \<open>The end of a C string.\<close>

definition NUL :: char where "NUL = CHR 0x00"

lemma nibbles: "unat (b :: u8) div 16 < 16" "unat b mod 16 < 16"
proof -
  have "unat b < 2 ^ LENGTH(8)" by (rule unsigned_less)
  then show "unat b div 16 < 16" by (simp add: less_mult_imp_div_less)
qed simp

text \<open>Three keys of 16 bytes each.\<close>

record Scp03KeySet =
  ks_enc :: bytes
  ks_mac :: bytes
  ks_dek :: bytes

definition keys_wf :: "Scp03KeySet \<Rightarrow> bool" where
  "keys_wf ks \<longleftrightarrow> length (ks_enc ks) = 16 \<and> length (ks_mac ks) = 16 \<and> length (ks_dek ks) = 16"

end
