(* ===== verification/Se.thy ===== *)
theory Se
  imports SeCore
begin

section \<open>Se: key objects and the object store of the secure element\<close>

text \<open>
  \<open>include/etlx/se/key_object.hpp\<close>, \<open>ports/se05x/object_store.cpp\<close> and \<open>se_random.cpp\<close>. The SSS
  middleware is outside the repository: its calls are the record \<open>Sss\<close> over a state \<open>'w\<close> of the
  session and the element behind it; a call answers whether its status is
  \<open>kStatus_SSS_Success\<close>, the only question the code asks about a status beside logging it. What the
  code relies on is the locale \<open>secure_element\<close>. Host-side handles live as long as the C++ objects
  that own them, so freeing them is not modelled, nor are the log lines.
\<close>

subsection \<open>The middleware\<close>

datatype CipherType =
    kRSA | kRSA_CRT | kEC_NIST_P | kEC_NIST_K | kEC_MONTGOMERY | kEC_TWISTED_ED | kEC_BRAINPOOL
  | kAES | kDES | kHMAC | kCMAC | kCertificate | kBinary | kOtherCipher nat

datatype KeyPart = kPart_Default | kPart_Pair

record sss_object =
  so_id :: u32
  so_cipher :: CipherType

definition blank_object :: sss_object where
  "blank_object = \<lparr>so_id = 0, so_cipher = kOtherCipher 0\<rparr>"

datatype Algorithm = RSASSA_PKCS1_V1_5_SHA256 | ECDSA_SHA256

datatype AsymMode = ModeSign | ModeVerify

text \<open>The rights of a key object: for the key itself, and for any object.\<close>

record AsymPolicy =
  can_Sign :: bool
  can_Decrypt :: bool
  can_Gen :: bool

record CommonPolicy =
  can_Read :: bool
  can_Write :: bool
  can_Delete :: bool
  req_Sm :: bool

record 'w Sss =
  sss_get_handle :: "sss_object \<Rightarrow> u32 \<Rightarrow> 'w \<Rightarrow> bool \<times> sss_object \<times> 'w"
  sss_allocate_handle :: "sss_object \<Rightarrow> u32 \<Rightarrow> KeyPart \<Rightarrow> CipherType \<Rightarrow> nat \<Rightarrow> 'w \<Rightarrow> bool \<times> sss_object \<times> 'w"
  sss_erase_key :: "sss_object \<Rightarrow> 'w \<Rightarrow> bool \<times> 'w"
  sss_set_key :: "sss_object \<Rightarrow> bytes \<Rightarrow> nat \<Rightarrow> 'w \<Rightarrow> bool \<times> 'w"
  sss_get_key :: "sss_object \<Rightarrow> nat \<Rightarrow> 'w \<Rightarrow> (bool \<times> bytes \<times> nat) \<times> 'w"
  sss_generate_key :: "sss_object \<Rightarrow> nat \<Rightarrow> (AsymPolicy \<times> CommonPolicy) option \<Rightarrow> 'w \<Rightarrow> bool \<times> 'w"
  sss_prop_uid :: "nat \<Rightarrow> 'w \<Rightarrow> (bool \<times> bytes) \<times> 'w"
  sss_rng_init :: "'w \<Rightarrow> bool \<times> 'w"
  sss_rng_get_random :: "nat \<Rightarrow> 'w \<Rightarrow> (bool \<times> bytes) \<times> 'w"
  sss_asymmetric_init :: "sss_object \<Rightarrow> Algorithm \<Rightarrow> AsymMode \<Rightarrow> 'w \<Rightarrow> bool \<times> 'w"
  sss_sign_digest :: "sss_object \<Rightarrow> Algorithm \<Rightarrow> bytes \<Rightarrow> nat \<Rightarrow> 'w \<Rightarrow> (bool \<times> bytes) \<times> 'w"
  sss_verify_digest :: "sss_object \<Rightarrow> Algorithm \<Rightarrow> bytes \<Rightarrow> bytes \<Rightarrow> 'w \<Rightarrow> bool \<times> 'w"

text \<open>
  \<open>sss_get_key h n\<close> stores bytes in a buffer of \<open>n\<close> and answers them with the size of the key in
  bits; the random, signing and property calls have the size of their buffer likewise.
\<close>

subsection \<open>Key objects\<close>

definition KeyObject_Open :: "'w Sss \<Rightarrow> sss_object \<Rightarrow> u32 \<Rightarrow> 'w \<Rightarrow> Status \<times> sss_object \<times> 'w" where
  "KeyObject_Open sss obj i w =
     (case sss_get_handle sss obj i w of (ok, obj', w') \<Rightarrow>
        (if \<not> ok then SeFail kKeyFailed ''sss_key_object_get_handle failed'' else Ok, obj', w'))"

definition KeyObject_Allocate ::
  "'w Sss \<Rightarrow> sss_object \<Rightarrow> u32 \<Rightarrow> KeyPart \<Rightarrow> CipherType \<Rightarrow> nat \<Rightarrow> 'w \<Rightarrow> Status \<times> sss_object \<times> 'w" where
  "KeyObject_Allocate sss obj i part cipher byte_len w =
     (case sss_allocate_handle sss obj i part cipher byte_len w of (ok, obj', w') \<Rightarrow>
        (if \<not> ok then SeFail kKeyFailed ''sss_key_object_allocate_handle failed'' else Ok, obj', w'))"

subsection \<open>Vectors\<close>

text \<open>\<open>v.resize(n)\<close>, and a vector of \<open>cap\<close> zeros a call has stored bytes in, cut to their number.\<close>

definition vec_resize :: "nat \<Rightarrow> bytes \<Rightarrow> bytes" where
  "vec_resize n xs = take n xs @ replicate (n - length xs) 0"

definition filled :: "nat \<Rightarrow> bytes \<Rightarrow> bytes" where
  "filled cap data = vec_resize (length data) (memcpy (vec_resize cap []) 0 data)"

lemma filled_eq: "length data \<le> cap \<Longrightarrow> filled cap data = data"
  by (simp add: filled_def vec_resize_def memcpy_def)

subsection \<open>The random source\<close>

definition SeRandom_Fill :: "'w Sss \<Rightarrow> bytes \<Rightarrow> 'w \<Rightarrow> Status \<times> bytes \<times> 'w" where
  "SeRandom_Fill sss out w =
     (if out = [] then (Ok, out, w)
      else
        (case sss_rng_init sss w of (ok, w1) \<Rightarrow>
           if \<not> ok then (SeFail kRngFailed ''sss_rng_context_init failed'', out, w1)
           else
             (case sss_rng_get_random sss (length out) w1 of ((ok', r), w2) \<Rightarrow>
                if \<not> ok' then (SeFail kRngFailed ''sss_rng_get_random failed'', memcpy out 0 r, w2)
                else (Ok, memcpy out 0 r, w2))))"

subsection \<open>The object store\<close>

definition kRsaKeyId :: u32 where "kRsaKeyId = 0xFE000001"
definition kRsaCertId :: u32 where "kRsaCertId = 0xFE000002"
definition kEcKeyId :: u32 where "kEcKeyId = 0xFE000003"
definition kEcCertId :: u32 where "kEcCertId = 0xFE000004"
definition kDeviceInfoId :: u32 where "kDeviceInfoId = 0xFE000010"

datatype ObjectType = Binary | Certificate | Rsa | Ecc | Symmetric | Other

definition Store_GetUid :: "'w Sss \<Rightarrow> 'w \<Rightarrow> bytes Result \<times> 'w" where
  "Store_GetUid sss w =
     (let uid = replicate ETLX_SE_UID_LEN 0 in
      case sss_prop_uid sss (length uid) w of ((ok, data), w') \<Rightarrow>
        (if \<not> ok then SeFail kReadFailed ''sss_session_prop_get_au8(UID) failed''
         else Inr (memcpy uid 0 data), w'))"

definition Store_Exists :: "'w Sss \<Rightarrow> u32 \<Rightarrow> 'w \<Rightarrow> bool \<times> 'w" where
  "Store_Exists sss i w =
     (case KeyObject_Open sss blank_object i w of (st, _, w') \<Rightarrow> (is_ok st, w'))"

fun object_type :: "CipherType \<Rightarrow> ObjectType" where
  "object_type kRSA = Rsa"
| "object_type kRSA_CRT = Rsa"
| "object_type kEC_NIST_P = Ecc"
| "object_type kEC_NIST_K = Ecc"
| "object_type kEC_MONTGOMERY = Ecc"
| "object_type kEC_TWISTED_ED = Ecc"
| "object_type kEC_BRAINPOOL = Ecc"
| "object_type kAES = Symmetric"
| "object_type kDES = Symmetric"
| "object_type kHMAC = Symmetric"
| "object_type kCMAC = Symmetric"
| "object_type kCertificate = Certificate"
| "object_type kBinary = Binary"
| "object_type (kOtherCipher _) = Other"

definition Store_GetType :: "'w Sss \<Rightarrow> u32 \<Rightarrow> 'w \<Rightarrow> ObjectType Result \<times> 'w" where
  "Store_GetType sss i w =
     (case KeyObject_Open sss blank_object i w of (st, obj, w') \<Rightarrow>
        (if isl st then SeFail kReadFailed ''object not found''
         else Inr (object_type (so_cipher obj)), w'))"

definition Store_Erase :: "'w Sss \<Rightarrow> u32 \<Rightarrow> 'w \<Rightarrow> Status \<times> 'w" where
  "Store_Erase sss i w =
     (case KeyObject_Open sss blank_object i w of (st, obj, w1) \<Rightarrow>
        if isl st then (st, w1)
        else
          (case sss_erase_key sss obj w1 of (ok, w2) \<Rightarrow>
             (if \<not> ok then SeFail kWriteFailed ''sss_key_store_erase_key failed'' else Ok, w2)))"

definition StoreBinary :: "'w Sss \<Rightarrow> u32 \<Rightarrow> bytes \<Rightarrow> 'w \<Rightarrow> Status \<times> 'w" where
  "StoreBinary sss i data w =
     (case KeyObject_Allocate sss blank_object i kPart_Default kBinary (length data) w of (st, obj, w1) \<Rightarrow>
        if isl st then (st, w1)
        else
          (case sss_set_key sss obj data (length data * 8) w1 of (ok, w2) \<Rightarrow>
             (if \<not> ok then SeFail kWriteFailed ''sss_key_store_set_key failed'' else Ok, w2)))"

definition Store_WriteCert :: "'w Sss \<Rightarrow> u32 \<Rightarrow> bytes \<Rightarrow> 'w \<Rightarrow> Status \<times> 'w" where
  "Store_WriteCert sss i der w =
     (case Store_Exists sss i w of (present, w1) \<Rightarrow>
        if present then
          (case Store_Erase sss i w1 of (st, w2) \<Rightarrow>
             if isl st then (st, w2) else StoreBinary sss i der w2)
        else StoreBinary sss i der w1)"

text \<open>\<open>Unexpected{st.error()}\<close>: the error of one result as another's.\<close>

definition forward :: "'a Result \<Rightarrow> 'b \<Rightarrow> 'b Result" where
  "forward r x = (case r of Inl e \<Rightarrow> Inl e | Inr _ \<Rightarrow> Inr x)"

definition Store_WriteBinary :: "'w Sss \<Rightarrow> u32 \<Rightarrow> bytes \<Rightarrow> bool \<Rightarrow> 'w \<Rightarrow> bool Result \<times> 'w" where
  "Store_WriteBinary sss i data force w =
     (let store = (\<lambda>w. case StoreBinary sss i data w of (st, w') \<Rightarrow> (forward st True, w')) in
      case Store_Exists sss i w of (present, w1) \<Rightarrow>
        if present then
          if \<not> force then (Inr False, w1)
          else
            (case Store_Erase sss i w1 of (st, w2) \<Rightarrow>
               if isl st then (forward st True, w2) else store w2)
        else store w1)"

definition Store_ReadBinary :: "'w Sss \<Rightarrow> u32 \<Rightarrow> 'w \<Rightarrow> bytes Result \<times> 'w" where
  "Store_ReadBinary sss i w =
     (case KeyObject_Open sss blank_object i w of (st, obj, w1) \<Rightarrow>
        if isl st then (SeFail kReadFailed ''readBinary: object not found'', w1)
        else
          (case sss_get_key sss obj ETLX_SE_BLOB_CAPACITY w1 of ((ok, data, _), w2) \<Rightarrow>
             (if \<not> ok then SeFail kReadFailed ''sss_key_store_get_key(binary) failed''
              else Inr (filled ETLX_SE_BLOB_CAPACITY data), w2)))"

subsection \<open>What the element promises\<close>

text \<open>
  An object is its type and what reading it gives: the bytes of a blob, the public key of a key pair.
  \<open>objs\<close> is the element's directory. A lookup succeeds for what is there; reading, allocating a handle
  and the calls on sessions change no object; a call that changes one object leaves the others alone,
  also when it fails, and only its success says what has become of the object.
\<close>

record SeObject =
  ob_cipher :: CipherType
  ob_data :: bytes

definition same_but :: "u32 \<Rightarrow> (u32 \<rightharpoonup> SeObject) \<Rightarrow> (u32 \<rightharpoonup> SeObject) \<Rightarrow> bool" where
  "same_but i m m' \<longleftrightarrow> (\<forall>j. j \<noteq> i \<longrightarrow> m' j = m j)"

lemma same_but_refl [simp]: "same_but i m m"
  by (simp add: same_but_def)

lemma same_but_upd [simp]: "same_but i m (m(i := x))"
  by (simp add: same_but_def)

lemma same_but_trans: "same_but i m m' \<Longrightarrow> same_but i m' m'' \<Longrightarrow> same_but i m m''"
  by (simp add: same_but_def)

lemma same_but_at: "same_but i m m' \<Longrightarrow> m' i = x \<Longrightarrow> m' = m(i := x)"
  by (auto simp: same_but_def fun_eq_iff)

locale secure_element =
  fixes sss :: "'w Sss" and objs :: "'w \<Rightarrow> u32 \<rightharpoonup> SeObject"
  assumes get_handle_law: "sss_get_handle sss h i w = (ok, h', w') \<Longrightarrow>
      objs w' = objs w \<and> (ok \<longleftrightarrow> i \<in> dom (objs w)) \<and>
      (ok \<longrightarrow> so_id h' = i \<and> so_cipher h' = ob_cipher (the (objs w i)))"
    and allocate_law: "sss_allocate_handle sss h i part cipher n w = (ok, h', w') \<Longrightarrow>
      objs w' = objs w \<and> (ok \<longrightarrow> so_id h' = i \<and> so_cipher h' = cipher)"
    and erase_law: "sss_erase_key sss h w = (ok, w') \<Longrightarrow>
      same_but (so_id h) (objs w) (objs w') \<and> (ok \<longrightarrow> objs w' (so_id h) = None)"
    and set_key_law: "sss_set_key sss h data bits w = (ok, w') \<Longrightarrow>
      same_but (so_id h) (objs w) (objs w') \<and>
      (ok \<longrightarrow> objs w' (so_id h) = Some \<lparr>ob_cipher = so_cipher h, ob_data = data\<rparr>)"
    and get_key_law: "sss_get_key sss h n w = ((ok, data, bits), w') \<Longrightarrow>
      objs w' = objs w \<and>
      (ok \<longrightarrow> length data \<le> n \<and> (\<exists>ob. objs w (so_id h) = Some ob \<and> data = ob_data ob))"
    and generate_law: "sss_generate_key sss h bits pol w = (ok, w') \<Longrightarrow>
      same_but (so_id h) (objs w) (objs w') \<and>
      (ok \<longrightarrow> (\<exists>pub. objs w' (so_id h) = Some \<lparr>ob_cipher = so_cipher h, ob_data = pub\<rparr>))"
    and uid_law: "sss_prop_uid sss n w = ((ok, data), w') \<Longrightarrow>
      objs w' = objs w \<and> (ok \<longrightarrow> length data \<le> n)"
    and rng_init_law: "sss_rng_init sss w = (ok, w') \<Longrightarrow> objs w' = objs w"
    and rng_law: "sss_rng_get_random sss n w = ((ok, r), w') \<Longrightarrow>
      objs w' = objs w \<and> length r \<le> n \<and> (ok \<longrightarrow> length r = n)"
    and init_law: "sss_asymmetric_init sss h alg mode w = (ok, w') \<Longrightarrow> objs w' = objs w"
    and sign_law: "sss_sign_digest sss h alg digest n w = ((ok, sig), w') \<Longrightarrow>
      objs w' = objs w \<and> (ok \<longrightarrow> length sig \<le> n)"
    and verify_law: "sss_verify_digest sss h alg digest sig w = (ok, w') \<Longrightarrow> objs w' = objs w"

text \<open>The operations of the store as data, and one that runs them.\<close>

datatype StoreOp =
    OpExists u32 | OpType u32 | OpErase u32 | OpWriteCert u32 bytes
  | OpWriteBinary u32 bytes bool | OpRead u32

datatype StoreAnswer =
    AnsExists bool | AnsType "ObjectType Result" | AnsStatus Status
  | AnsWritten "bool Result" | AnsBlob "bytes Result"

fun store_op :: "'w Sss \<Rightarrow> StoreOp \<Rightarrow> 'w \<Rightarrow> StoreAnswer \<times> 'w" where
  "store_op sss (OpExists i) w = map_prod AnsExists id (Store_Exists sss i w)"
| "store_op sss (OpType i) w = map_prod AnsType id (Store_GetType sss i w)"
| "store_op sss (OpErase i) w = map_prod AnsStatus id (Store_Erase sss i w)"
| "store_op sss (OpWriteCert i der) w = map_prod AnsStatus id (Store_WriteCert sss i der w)"
| "store_op sss (OpWriteBinary i data force) w = map_prod AnsWritten id (Store_WriteBinary sss i data force w)"
| "store_op sss (OpRead i) w = map_prod AnsBlob id (Store_ReadBinary sss i w)"

fun run_store :: "'w Sss \<Rightarrow> StoreOp list \<Rightarrow> 'w \<Rightarrow> StoreAnswer list \<times> 'w" where
  "run_store sss [] w = ([], w)"
| "run_store sss (p # ps) w =
     (case store_op sss p w of (a, w') \<Rightarrow> map_prod ((#) a) id (run_store sss ps w'))"

subsection \<open>The store as a map\<close>

text \<open>What an operation may answer and make of the map of objects; a call of the element may fail.\<close>

definition blob :: "bytes \<Rightarrow> SeObject" where
  "blob data = \<lparr>ob_cipher = kBinary, ob_data = data\<rparr>"

fun store_spec :: "StoreOp \<Rightarrow> (u32 \<rightharpoonup> SeObject) \<Rightarrow> StoreAnswer \<Rightarrow> (u32 \<rightharpoonup> SeObject) \<Rightarrow> bool" where
  "store_spec (OpExists i) m a m' \<longleftrightarrow> m' = m \<and> a = AnsExists (m i \<noteq> None)"
| "store_spec (OpType i) m a m' \<longleftrightarrow> m' = m \<and>
     (\<exists>r. a = AnsType r \<and>
       (case m i of None \<Rightarrow> err_code r = Some (se_code kReadFailed)
        | Some ob \<Rightarrow> r = Inr (object_type (ob_cipher ob))))"
| "store_spec (OpErase i) m a m' \<longleftrightarrow>
     (\<exists>st. a = AnsStatus st \<and>
       (case m i of None \<Rightarrow> m' = m \<and> err_code st = Some (se_code kKeyFailed)
        | Some ob \<Rightarrow> if is_ok st then m' = m(i := None)
            else same_but i m m' \<and> err_code st = Some (se_code kWriteFailed)))"
| "store_spec (OpWriteCert i der) m a m' \<longleftrightarrow>
     (\<exists>st. a = AnsStatus st \<and> (if is_ok st then m' = m(i \<mapsto> blob der) else same_but i m m'))"
| "store_spec (OpWriteBinary i data force) m a m' \<longleftrightarrow>
     (\<exists>r. a = AnsWritten r \<and>
       (if m i \<noteq> None \<and> \<not> force then r = Inr False \<and> m' = m
        else (case r of Inr b \<Rightarrow> b \<and> m' = m(i \<mapsto> blob data) | Inl e \<Rightarrow> same_but i m m')))"
| "store_spec (OpRead i) m a m' \<longleftrightarrow> m' = m \<and>
     (\<exists>r. a = AnsBlob r \<and>
       (case r of Inr data \<Rightarrow> length data \<le> ETLX_SE_BLOB_CAPACITY \<and> map_option ob_data (m i) = Some data
        | Inl e \<Rightarrow> code e = se_code kReadFailed))"

inductive store_trace :: "StoreOp list \<Rightarrow> (u32 \<rightharpoonup> SeObject) \<Rightarrow> StoreAnswer list \<Rightarrow> (u32 \<rightharpoonup> SeObject) \<Rightarrow> bool" where
  trace_Nil: "store_trace [] m [] m"
| trace_Cons: "store_spec p m a m' \<Longrightarrow> store_trace ps m' as m'' \<Longrightarrow> store_trace (p # ps) m (a # as) m''"

inductive_simps trace_simps: "store_trace [] m as m'" "store_trace (p # ps) m as m'"

context secure_element
begin

lemma Open_law:
  "KeyObject_Open sss obj i w = (st, h, w') \<Longrightarrow>
   objs w' = objs w \<and>
   (case objs w i of None \<Rightarrow> err_code st = Some (se_code kKeyFailed) \<and> isl st
    | Some ob \<Rightarrow> st = Ok \<and> so_id h = i \<and> so_cipher h = ob_cipher ob)"
  using get_handle_law [of obj i w]
  by (auto simp: KeyObject_Open_def dom_def split: prod.splits option.splits if_splits)

lemma Allocate_law:
  "KeyObject_Allocate sss obj i part cipher n w = (st, h, w') \<Longrightarrow>
   objs w' = objs w \<and> (is_ok st \<longrightarrow> so_id h = i \<and> so_cipher h = cipher)"
  using allocate_law [of obj i part cipher n w]
  by (auto simp: KeyObject_Allocate_def split: prod.splits if_splits)

lemma StoreBinary_law:
  assumes "StoreBinary sss i data w = (st, w')"
  shows "if is_ok st then objs w' = (objs w)(i \<mapsto> blob data) else same_but i (objs w) (objs w')"
proof -
  obtain st1 h w1 where a: "KeyObject_Allocate sss blank_object i kPart_Default kBinary (length data) w = (st1, h, w1)"
    by (metis prod_cases3)
  obtain ok w2 where s: "sss_set_key sss h data (length data * 8) w1 = (ok, w2)" by fastforce
  from assms a s Allocate_law [OF a] set_key_law [OF s] show ?thesis
    by (auto simp: StoreBinary_def blob_def same_but_at split: if_splits)
qed

lemma Exists_law: "Store_Exists sss i w = (b, w') \<Longrightarrow> objs w' = objs w \<and> (b \<longleftrightarrow> objs w i \<noteq> None)"
  using Open_law [of blank_object i w]
  by (auto simp: Store_Exists_def split: prod.splits option.splits)

lemma Erase_law:
  assumes "Store_Erase sss i w = (st, w')"
  shows "case objs w i of None \<Rightarrow> objs w' = objs w \<and> err_code st = Some (se_code kKeyFailed) \<and> isl st
    | Some ob \<Rightarrow> if is_ok st then objs w' = (objs w)(i := None)
        else same_but i (objs w) (objs w') \<and> err_code st = Some (se_code kWriteFailed)"
proof -
  obtain st1 h w1 where o: "KeyObject_Open sss blank_object i w = (st1, h, w1)" by (metis prod_cases3)
  obtain ok w2 where e: "sss_erase_key sss h w1 = (ok, w2)" by fastforce
  from assms o e Open_law [OF o] erase_law [OF e] show ?thesis
    by (auto simp: Store_Erase_def same_but_at split: option.splits if_splits)
qed

lemma WriteCert_law:
  assumes "Store_WriteCert sss i der w = (st, w')"
  shows "if is_ok st then objs w' = (objs w)(i \<mapsto> blob der) else same_but i (objs w) (objs w')"
proof -
  obtain b w1 where x: "Store_Exists sss i w = (b, w1)" by fastforce
  obtain st2 w2 where e: "Store_Erase sss i w1 = (st2, w2)" by fastforce
  obtain st3 w3 where s: "StoreBinary sss i der (if b then w2 else w1) = (st3, w3)" by fastforce
  from assms x e s Exists_law [OF x] Erase_law [OF e] StoreBinary_law [OF s] show ?thesis
    by (auto simp: Store_WriteCert_def same_but_def split: option.splits if_splits)
qed

lemma WriteBinary_law:
  assumes "Store_WriteBinary sss i data force w = (r, w')"
  shows "if objs w i \<noteq> None \<and> \<not> force then r = Inr False \<and> objs w' = objs w
    else (case r of Inr b \<Rightarrow> b \<and> objs w' = (objs w)(i \<mapsto> blob data) | Inl e \<Rightarrow> same_but i (objs w) (objs w'))"
proof -
  obtain b w1 where x: "Store_Exists sss i w = (b, w1)" by fastforce
  obtain st2 w2 where e: "Store_Erase sss i w1 = (st2, w2)" by fastforce
  obtain st3 w3 where s: "StoreBinary sss i data (if b then w2 else w1) = (st3, w3)" by fastforce
  from assms x e s Exists_law [OF x] Erase_law [OF e] StoreBinary_law [OF s] show ?thesis
    by (auto simp: Store_WriteBinary_def Let_def forward_def same_but_def
        split: option.splits if_splits sum.splits)
qed

lemma GetType_law:
  assumes "Store_GetType sss i w = (r, w')"
  shows "objs w' = objs w \<and> (case objs w i of None \<Rightarrow> err_code r = Some (se_code kReadFailed)
    | Some ob \<Rightarrow> r = Inr (object_type (ob_cipher ob)))"
proof -
  obtain st1 h w1 where o: "KeyObject_Open sss blank_object i w = (st1, h, w1)" by (metis prod_cases3)
  from assms o Open_law [OF o] show ?thesis
    by (auto simp: Store_GetType_def split: option.splits if_splits)
qed

lemma ReadBinary_law:
  assumes "Store_ReadBinary sss i w = (r, w')"
  shows "objs w' = objs w \<and>
    (case r of Inr data \<Rightarrow> length data \<le> ETLX_SE_BLOB_CAPACITY \<and> map_option ob_data (objs w i) = Some data
     | Inl e \<Rightarrow> code e = se_code kReadFailed)"
proof -
  obtain st1 h w1 where o: "KeyObject_Open sss blank_object i w = (st1, h, w1)" by (metis prod_cases3)
  obtain ok data bits w2 where g: "sss_get_key sss h ETLX_SE_BLOB_CAPACITY w1 = ((ok, data, bits), w2)"
    by (metis prod.exhaust)
  from assms o g Open_law [OF o] get_key_law [OF g] show ?thesis
    by (auto simp: Store_ReadBinary_def filled_eq SeFail_def Fail_def split: option.splits if_splits)
qed

lemma store_op_spec:
  assumes "store_op sss p w = (a, w')"
  shows "store_spec p (objs w) a (objs w')"
proof (cases p)
  case (OpExists i)
  then show ?thesis using assms Exists_law [of i w] by (auto simp: map_prod_def split: prod.splits)
next
  case (OpType i)
  then show ?thesis using assms GetType_law [of i w] by (auto simp: map_prod_def split: prod.splits)
next
  case (OpErase i)
  then show ?thesis using assms Erase_law [of i w]
    by (auto simp: map_prod_def split: prod.splits option.splits)
next
  case (OpWriteCert i der)
  then show ?thesis using assms WriteCert_law [of i der w] by (auto simp: map_prod_def split: prod.splits)
next
  case (OpWriteBinary i data force)
  then show ?thesis using assms WriteBinary_law [of i data force w]
    by (auto simp: map_prod_def split: prod.splits)
next
  case (OpRead i)
  then show ?thesis using assms ReadBinary_law [of i w] by (auto simp: map_prod_def split: prod.splits)
qed

lemma run_store_trace: "run_store sss ps w = (as, w') \<Longrightarrow> store_trace ps (objs w) as (objs w')"
proof (induction ps arbitrary: w as w')
  case Nil
  then show ?case by (auto intro: trace_Nil)
next
  case (Cons p ps)
  obtain a w1 where p: "store_op sss p w = (a, w1)" by fastforce
  obtain as1 w2 where ps: "run_store sss ps w1 = (as1, w2)" by fastforce
  from Cons.prems p ps have "as = a # as1" "w' = w2" by auto
  with store_op_spec [OF p] Cons.IH [OF ps] show ?case by (auto intro: trace_Cons)
qed

lemma Fill_law:
  "SeRandom_Fill sss out w = (st, out', w') \<Longrightarrow>
   objs w' = objs w \<and> length out' = length out \<and>
   (isl st \<longrightarrow> out \<noteq> [] \<and> err_code st = Some (se_code kRngFailed))"
  using rng_init_law [of w] rng_law [of "length out"]
  by (auto simp: SeRandom_Fill_def split: prod.splits if_splits)

lemma GetUid_law:
  "Store_GetUid sss w = (r, w') \<Longrightarrow>
   objs w' = objs w \<and>
   (case r of Inr uid \<Rightarrow> length uid = ETLX_SE_UID_LEN | Inl e \<Rightarrow> code e = se_code kReadFailed)"
  using uid_law [of ETLX_SE_UID_LEN w]
  by (auto simp: Store_GetUid_def Let_def SeFail_def Fail_def split: prod.splits if_splits)

end

text \<open>An element none of whose calls fails, up to the room of the buffer of a reading call.\<close>

locale reliable_element = secure_element sss objs
  for sss :: "'w Sss" and objs :: "'w \<Rightarrow> u32 \<rightharpoonup> SeObject" +
  assumes allocate_ok: "fst (sss_allocate_handle sss h i part cipher n w)"
    and erase_ok: "so_id h \<in> dom (objs w) \<Longrightarrow> fst (sss_erase_key sss h w)"
    and set_key_ok: "fst (sss_set_key sss h data bits w)"
    and get_key_ok: "objs w (so_id h) = Some ob \<Longrightarrow> length (ob_data ob) \<le> n \<Longrightarrow>
      fst (fst (sss_get_key sss h n w))"
begin

lemma StoreBinary_ok: "is_ok (fst (StoreBinary sss i data w))"
  using allocate_ok [of blank_object i kPart_Default kBinary "length data" w] set_key_ok
  by (auto simp: StoreBinary_def KeyObject_Allocate_def split: prod.splits)
    (metis fst_conv)

lemma Erase_ok:
  assumes "i \<in> dom (objs w)"
  shows "is_ok (fst (Store_Erase sss i w))"
proof -
  obtain st1 h w1 where o: "KeyObject_Open sss blank_object i w = (st1, h, w1)" by (metis prod_cases3)
  from assms Open_law [OF o] have "st1 = Ok" "so_id h \<in> dom (objs w1)" by auto
  with erase_ok [of h w1] o show ?thesis by (auto simp: Store_Erase_def split: prod.splits)
qed

lemma WriteCert_ok: "is_ok (fst (Store_WriteCert sss i der w))"
proof -
  obtain b w1 where x: "Store_Exists sss i w = (b, w1)" by fastforce
  obtain st w2 where e: "Store_Erase sss i w1 = (st, w2)" by fastforce
  have "is_ok st" if b using that e Erase_ok [of i w1] Exists_law [OF x] by auto
  with x e StoreBinary_ok show ?thesis by (auto simp: Store_WriteCert_def)
qed

lemma WriteBinary_ok: "is_ok (fst (Store_WriteBinary sss i data force w))"
proof -
  obtain b w1 where x: "Store_Exists sss i w = (b, w1)" by fastforce
  obtain st w2 where e: "Store_Erase sss i w1 = (st, w2)" by fastforce
  obtain st3 w3 where s: "StoreBinary sss i data (if b then w2 else w1) = (st3, w3)" by fastforce
  have "is_ok st" if b using that e Erase_ok [of i w1] Exists_law [OF x] by auto
  moreover have "is_ok st3" using s StoreBinary_ok [of i data "if b then w2 else w1"] by simp
  ultimately show ?thesis
    using x e s by (auto simp: Store_WriteBinary_def Let_def forward_def split: sum.splits)
qed

lemma ReadBinary_at:
  assumes "objs w i = Some ob"
  shows "if length (ob_data ob) \<le> ETLX_SE_BLOB_CAPACITY then fst (Store_ReadBinary sss i w) = Inr (ob_data ob)
    else err_code (fst (Store_ReadBinary sss i w)) = Some (se_code kReadFailed)"
proof -
  obtain st1 h w1 where o: "KeyObject_Open sss blank_object i w = (st1, h, w1)" by (metis prod_cases3)
  obtain ok data bits w2 where g: "sss_get_key sss h ETLX_SE_BLOB_CAPACITY w1 = ((ok, data, bits), w2)"
    by (metis prod.exhaust)
  from assms Open_law [OF o] have h: "st1 = Ok" "objs w1 (so_id h) = Some ob" by auto
  from o g h get_key_law [OF g] get_key_ok [OF h(2), of ETLX_SE_BLOB_CAPACITY] show ?thesis
    by (auto simp: Store_ReadBinary_def filled_eq)
qed

end

subsection \<open>A simulated element\<close>

text \<open>
  An element with a directory, a chip number and a counter for its random bytes and fresh keys. A key
  is one byte, its public half the same, and it signs by adding the byte to the digest's.
\<close>

record SimSe =
  sim_objs :: "u32 \<rightharpoonup> SeObject"
  sim_uid :: bytes
  sim_seed :: u8

definition sim_key :: "sss_object \<Rightarrow> SimSe \<Rightarrow> u8 option" where
  "sim_key h s =
     (case sim_objs s (so_id h) of
        None \<Rightarrow> None
      | Some ob \<Rightarrow> (case ob_data ob of [k] \<Rightarrow> Some k | _ \<Rightarrow> None))"

definition sim_sss :: "SimSe Sss" where
  "sim_sss =
     \<lparr>sss_get_handle = (\<lambda>h i s.
        (case sim_objs s i of
           None \<Rightarrow> (False, h, s)
         | Some ob \<Rightarrow> (True, \<lparr>so_id = i, so_cipher = ob_cipher ob\<rparr>, s))),
      sss_allocate_handle = (\<lambda>h i part cipher n s. (True, \<lparr>so_id = i, so_cipher = cipher\<rparr>, s)),
      sss_erase_key = (\<lambda>h s. (True, s\<lparr>sim_objs := (sim_objs s)(so_id h := None)\<rparr>)),
      sss_set_key = (\<lambda>h data bits s.
        (True, s\<lparr>sim_objs := (sim_objs s)(so_id h \<mapsto> \<lparr>ob_cipher = so_cipher h, ob_data = data\<rparr>)\<rparr>)),
      sss_get_key = (\<lambda>h n s.
        (case sim_objs s (so_id h) of
           None \<Rightarrow> ((False, [], 0), s)
         | Some ob \<Rightarrow> if length (ob_data ob) \<le> n then ((True, ob_data ob, 2048), s) else ((False, [], 0), s))),
      sss_generate_key = (\<lambda>h bits pol s.
        (True, s\<lparr>sim_objs := (sim_objs s)(so_id h \<mapsto> \<lparr>ob_cipher = so_cipher h, ob_data = [sim_seed s]\<rparr>),
                 sim_seed := sim_seed s + 1\<rparr>)),
      sss_prop_uid = (\<lambda>n s. ((True, take n (sim_uid s)), s)),
      sss_rng_init = (\<lambda>s. (True, s)),
      sss_rng_get_random = (\<lambda>n s. ((True, map (\<lambda>i. sim_seed s + word_of_nat i) [0..<n]), s\<lparr>sim_seed := sim_seed s + 1\<rparr>)),
      sss_asymmetric_init = (\<lambda>h alg mode s. (True, s)),
      sss_sign_digest = (\<lambda>h alg digest n s.
        (case sim_key h s of
           None \<Rightarrow> ((False, []), s)
         | Some k \<Rightarrow> if length digest \<le> n then ((True, map ((+) k) digest), s) else ((False, []), s))),
      sss_verify_digest = (\<lambda>h alg digest sig s. (map_option (\<lambda>k. map ((+) k) digest) (sim_key h s) = Some sig, s))\<rparr>"

text \<open>An element that answers nothing.\<close>

definition no_sss :: "'w Sss" where
  "no_sss =
     \<lparr>sss_get_handle = (\<lambda>h i w. (False, h, w)), sss_allocate_handle = (\<lambda>h i part cipher n w. (False, h, w)),
      sss_erase_key = (\<lambda>h w. (False, w)), sss_set_key = (\<lambda>h data bits w. (False, w)),
      sss_get_key = (\<lambda>h n w. ((False, [], 0), w)), sss_generate_key = (\<lambda>h bits pol w. (False, w)),
      sss_prop_uid = (\<lambda>n w. ((False, []), w)), sss_rng_init = (\<lambda>w. (False, w)),
      sss_rng_get_random = (\<lambda>n w. ((False, []), w)), sss_asymmetric_init = (\<lambda>h alg mode w. (False, w)),
      sss_sign_digest = (\<lambda>h alg digest n w. ((False, []), w)), sss_verify_digest = (\<lambda>h alg digest sig w. (False, w))\<rparr>"

interpretation sim_se: reliable_element sim_sss sim_objs
  by unfold_locales
    (auto simp: sim_sss_def dom_def split: option.splits if_splits)

subsection \<open>Properties\<close>


definition sim_empty :: SimSe where
  "sim_empty = \<lparr>sim_objs = Map.empty, sim_uid = replicate 18 7, sim_seed = 3\<rparr>"


text \<open>
  On an element whose calls succeed, a blob that was written with \<open>force\<close> is read back when it has
  at most 512 bytes, and whatever was written as a certificate is read back up to the same size; a
  longer one, which \<open>WriteCert\<close> accepts, cannot be read.
\<close>

theorem object_store_roundtrip:
  assumes "reliable_element sss objs"
  shows "(length data \<le> 512 \<longrightarrow>
      fst (Store_WriteBinary sss i data True w) = Inr True \<and>
      fst (Store_ReadBinary sss i (snd (Store_WriteBinary sss i data True w))) = Inr data) \<and>
    fst (Store_WriteCert sss i data w) = Ok \<and>
    (if length data \<le> 512 then fst (Store_ReadBinary sss i (snd (Store_WriteCert sss i data w))) = Inr data
     else err_code (fst (Store_ReadBinary sss i (snd (Store_WriteCert sss i data w)))) = Some (se_code kReadFailed))"
proof -
  note se = reliable_element.axioms(1) [OF assms]
  obtain r w1 where b: "Store_WriteBinary sss i data True w = (r, w1)" by fastforce
  obtain st w2 where c: "Store_WriteCert sss i data w = (st, w2)" by fastforce
  have "r = Inr True" "objs w1 i = Some (blob data)"
    using secure_element.WriteBinary_law [OF se b] reliable_element.WriteBinary_ok [OF assms, of i data True w] b
    by (auto split: sum.splits)
  moreover have "st = Ok" "objs w2 i = Some (blob data)"
    using secure_element.WriteCert_law [OF se c] reliable_element.WriteCert_ok [OF assms, of i data w] c
    by (auto simp: sum.isl_def) (metis Inr_Inl_False isl_def sum.collapse(2) unit_eq)
  ultimately show ?thesis
    using reliable_element.ReadBinary_at [OF assms, of w1 i] reliable_element.ReadBinary_at [OF assms, of w2 i] b c
    by (simp add: blob_def ETLX_SE_BLOB_CAPACITY_def)
qed

theorem object_store_roundtrip_witness:
  "fst (Store_WriteBinary sim_sss 5 [1, 2] True sim_empty) = Inr True \<and>
   fst (Store_ReadBinary sim_sss 5 (snd (Store_WriteBinary sim_sss 5 [1, 2] True sim_empty))) = Inr [1, 2] \<and>
   fst (Store_ReadBinary sim_sss 5 (snd (Store_WriteCert sim_sss 5 [1, 2] sim_empty))) = Inr [1, 2]"
  using object_store_roundtrip [OF sim_se.reliable_element_axioms, of "[1, 2]" 5 sim_empty] by simp

end
