(* ===== verification/Csr.thy ===== *)
theory Csr
  imports SeCore
begin

section \<open>Csr: building certification requests\<close>

text \<open>
  \<open>ports/se05x/csr_build.cpp\<close>. The writers of mbedTLS fill a buffer from its end: the record
  \<open>Asn1Buf\<close> is the room in front of the pointer \<open>c\<close> and the bytes behind it. They are the record
  \<open>Asn1\<close>; a negative answer is an error. That they write DER is the locale \<open>der_writer\<close>.
\<close>

record Asn1Buf =
  ab_room :: nat
  ab_out :: bytes

record 'n Asn1 =
  x509_string_to_names :: "string \<Rightarrow> 'n option"
  asn1_write_len :: "Asn1Buf \<Rightarrow> int \<Rightarrow> int \<times> Asn1Buf"
  asn1_write_tag :: "Asn1Buf \<Rightarrow> u8 \<Rightarrow> int \<times> Asn1Buf"
  asn1_write_int :: "Asn1Buf \<Rightarrow> int \<Rightarrow> int \<times> Asn1Buf"
  x509_write_names :: "Asn1Buf \<Rightarrow> 'n \<Rightarrow> int \<times> Asn1Buf"
  asn1_write_bitstring :: "Asn1Buf \<Rightarrow> bytes \<Rightarrow> nat \<Rightarrow> int \<times> Asn1Buf"
  asn1_write_algorithm_identifier :: "Asn1Buf \<Rightarrow> bytes \<Rightarrow> nat \<Rightarrow> int \<times> Asn1Buf"
  pem_write_buffer :: "string \<Rightarrow> string \<Rightarrow> bytes \<Rightarrow> nat \<Rightarrow> int \<times> string"

subsection \<open>The two builders\<close>

text \<open>\<open>CHK\<close>: an error is returned, a length is added to \<open>written\<close>.\<close>

definition CHK :: "int \<times> Asn1Buf \<Rightarrow> int \<Rightarrow> (int \<Rightarrow> Asn1Buf \<Rightarrow> int \<times> Asn1Buf) \<Rightarrow> int \<times> Asn1Buf" where
  "CHK rb written k = (case rb of (r, b) \<Rightarrow> if r < 0 then (r, b) else k (written + r) b)"

text \<open>\<open>c -= len; memcpy(c, src, len)\<close>\<close>

definition put_front :: "bytes \<Rightarrow> Asn1Buf \<Rightarrow> Asn1Buf" where
  "put_front src b = \<lparr>ab_room = ab_room b - length src, ab_out = src @ ab_out b\<rparr>"

definition BuildCri :: "'n Asn1 \<Rightarrow> nat \<Rightarrow> string \<Rightarrow> bytes \<Rightarrow> int \<times> Asn1Buf" where
  "BuildCri m buf_size subject_dn spki =
     (let start = \<lparr>ab_room = buf_size, ab_out = []\<rparr> in
      case x509_string_to_names m subject_dn of
        None \<Rightarrow> (- 1, start)
      | Some names \<Rightarrow>
          CHK (asn1_write_len m start 0) 0 (\<lambda>written b.
          CHK (asn1_write_tag m b 0xA0) written (\<lambda>written b.
            if ab_room b < length spki then (- 1, b)
            else
              let b = put_front spki b; written = written + int (length spki) in
              CHK (x509_write_names m b names) written (\<lambda>written b.
              CHK (asn1_write_int m b 0) written (\<lambda>written b.
              CHK (asn1_write_len m b written) written (\<lambda>written b.
              CHK (asn1_write_tag m b 0x30) written (\<lambda>written b. (written, b))))))))"

definition pem_begin :: string where
  "pem_begin = ''-----BEGIN CERTIFICATE REQUEST-----'' @ [CHR 0x0A]"

definition pem_end :: string where
  "pem_end = ''-----END CERTIFICATE REQUEST-----'' @ [CHR 0x0A]"

text \<open>The DER of the request, up to the last \<open>CHKB\<close>.\<close>

definition assemble_der :: "'n Asn1 \<Rightarrow> bytes \<Rightarrow> bytes \<Rightarrow> bytes \<Rightarrow> int \<times> Asn1Buf" where
  "assemble_der m cri sig sig_oid =
     (let start = \<lparr>ab_room = ETLX_SE_CSR_PEM_CAPACITY, ab_out = []\<rparr> in
      CHK (asn1_write_bitstring m start sig (length sig * 8)) 0 (\<lambda>written b.
      CHK (asn1_write_algorithm_identifier m b sig_oid 0) written (\<lambda>written b.
        if ab_room b < length cri then (- 1, b)
        else
          let b = put_front cri b; written = written + int (length cri) in
          CHK (asn1_write_len m b written) written (\<lambda>written b.
          CHK (asn1_write_tag m b 0x30) written (\<lambda>written b. (written, b))))))"

text \<open>\<open>None\<close> is the answer \<open>false\<close>; otherwise the text left in \<open>pem_out\<close>.\<close>

definition AssembleCsr :: "'n Asn1 \<Rightarrow> bytes \<Rightarrow> bytes \<Rightarrow> bytes \<Rightarrow> nat \<Rightarrow> string option" where
  "AssembleCsr m cri sig sig_oid pem_capacity =
     (case assemble_der m cri sig sig_oid of (written, b) \<Rightarrow>
        if written < 0 then None
        else
          (case pem_write_buffer m pem_begin pem_end (take (nat written) (ab_out b)) pem_capacity of
             (r, pem) \<Rightarrow> if r = 0 then Some pem else None))"

subsection \<open>What the writers write\<close>

definition der_len :: "nat \<Rightarrow> bytes" where
  "der_len n =
     (if n < 128 then [word_of_nat n]
      else if n < 256 then [0x81, word_of_nat n]
      else [0x82, word_of_nat (n div 256), word_of_nat n])"

definition tlv :: "u8 \<Rightarrow> bytes \<Rightarrow> bytes" where
  "tlv t x = t # der_len (length x) @ x"

definition algorithm_identifier :: "bytes \<Rightarrow> bytes" where
  "algorithm_identifier oid = tlv 0x30 (tlv 6 oid @ [5, 0])"

definition writes :: "(Asn1Buf \<Rightarrow> int \<times> Asn1Buf) \<Rightarrow> bytes \<Rightarrow> bool" where
  "writes f x \<longleftrightarrow> (\<forall>b. if length x \<le> ab_room b then f b = (int (length x), put_front x b) else fst (f b) < 0)"

locale der_writer =
  fixes m :: "'n Asn1" and der_name :: "'n \<Rightarrow> bytes" and pem_text :: "bytes \<Rightarrow> string"
  assumes write_len: "n < 65536 \<Longrightarrow> writes (\<lambda>b. asn1_write_len m b (int n)) (der_len n)"
    and write_tag: "writes (\<lambda>b. asn1_write_tag m b t) [t]"
    and write_int: "writes (\<lambda>b. asn1_write_int m b 0) [2, 1, 0]"
    and write_names: "writes (\<lambda>b. x509_write_names m b names) (der_name names)"
    and write_bitstring: "length sig < 65535 \<Longrightarrow>
      writes (\<lambda>b. asn1_write_bitstring m b sig (length sig * 8)) (tlv 3 (0 # sig))"
    and write_algorithm: "length oid < 128 \<Longrightarrow>
      writes (\<lambda>b. asn1_write_algorithm_identifier m b oid 0) (algorithm_identifier oid)"
    and pem_write: "length (pem_text der) < cap \<Longrightarrow>
      pem_write_buffer m pem_begin pem_end der cap = (0, pem_text der)"
    and pem_full: "cap \<le> length (pem_text der) \<Longrightarrow>
      fst (pem_write_buffer m pem_begin pem_end der cap) \<noteq> 0"
    and pem_plain: "NUL \<notin> set (pem_text der)"

text \<open>The request to be signed, and the signed request, as RFC 2986 lays them out.\<close>

definition cri_der :: "bytes \<Rightarrow> bytes \<Rightarrow> bytes" where
  "cri_der name spki = tlv 0x30 ([2, 1, 0] @ name @ spki @ [0xA0, 0])"

definition csr_der :: "bytes \<Rightarrow> bytes \<Rightarrow> bytes \<Rightarrow> bytes" where
  "csr_der cri oid sig = tlv 0x30 (cri @ algorithm_identifier oid @ tlv 3 (0 # sig))"

lemma CHK_writes:
  assumes "writes f x"
  shows "CHK (f b) n k =
    (if length x \<le> ab_room b then k (n + int (length x)) (put_front x b) else (fst (f b), snd (f b)))"
  using assms [unfolded writes_def, rule_format, of b] by (cases "f b") (auto simp: CHK_def)

lemma writes_neg: "writes f x \<Longrightarrow> \<not> length x \<le> ab_room b \<Longrightarrow> fst (f b) < 0"
  by (simp add: writes_def)

lemma put_front_simps [simp]:
  "ab_room (put_front x b) = ab_room b - length x"
  "ab_out (put_front x b) = x @ ab_out b"
  by (simp_all add: put_front_def)

lemma put_front_put_front [simp]: "put_front y (put_front x b) = put_front (y @ x) b"
  by (simp add: put_front_def)

lemma der_len_le: "length (der_len n) \<le> 3"
  by (simp add: der_len_def)

context der_writer
begin

text \<open>The two writers that put what was written into a sequence.\<close>

lemma wrap_sequence:
  assumes "length body \<le> ab_room b" "length body < 65536"
  defines "r \<equiv> CHK (asn1_write_len m (put_front body b) (int (length body))) (int (length body)) (\<lambda>written b.
      CHK (asn1_write_tag m b 0x30) written (\<lambda>written b. (written, b)))"
  shows "if length (tlv 0x30 body) \<le> ab_room b
    then r = (int (length (tlv 0x30 body)), put_front (tlv 0x30 body) b) else fst r < 0"
proof -
  note len = write_len [OF assms(2)]
  have t: "length (tlv 0x30 body) = Suc (length (der_len (length body)) + length body)"
    by (simp add: tlv_def)
  show ?thesis
  proof (cases "length (der_len (length body)) \<le> ab_room b - length body")
    case False
    with assms(1) t writes_neg [OF len, of "put_front body b"] show ?thesis
      by (auto simp: r_def CHK_writes [OF len])
  next
    case True
    then have r: "r = CHK (asn1_write_tag m (put_front (der_len (length body) @ body) b) 0x30)
        (int (length body) + int (length (der_len (length body)))) (\<lambda>written b. (written, b))"
      by (simp add: r_def CHK_writes [OF len])
    show ?thesis
    proof (cases "length (tlv 0x30 body) \<le> ab_room b")
      case True
      with t show ?thesis by (auto simp: r CHK_writes [OF write_tag]) (auto simp: tlv_def)
    next
      case False
      with t have "\<not> length [0x30 :: u8] \<le> ab_room (put_front (der_len (length body) @ body) b)" by simp
      from writes_neg [OF write_tag this] this False show ?thesis
        by (simp add: r CHK_writes [OF write_tag])
    qed
  qed
qed

text \<open>The buffer after all of a request was written, or an error when it does not fit.\<close>

lemma BuildCri_cases:
  fixes spki :: bytes
  assumes "x509_string_to_names m dn = Some names" "cap < 65536"
  defines "x \<equiv> cri_der (der_name names) spki"
  shows "if length x \<le> cap
    then BuildCri m cap dn spki = (int (length x), \<lparr>ab_room = cap - length x, ab_out = x\<rparr>)
    else fst (BuildCri m cap dn spki) < 0"
proof -
  let ?body = "[2, 1, 0] @ der_name names @ spki @ [0xA0, 0]"
  have len0: "writes (\<lambda>b. asn1_write_len m b 0) [0]"
    using write_len [of 0] by (simp add: der_len_def)
  have x: "length x = Suc (length (der_len (length ?body)) + length ?body)"
    by (simp add: x_def cri_der_def tlv_def)
  note steps = CHK_writes [OF len0] CHK_writes [OF write_tag] CHK_writes [OF write_int]
    CHK_writes [OF write_names] writes_neg [OF len0] writes_neg [OF write_tag]
    writes_neg [OF write_int] writes_neg [OF write_names]
  show ?thesis
  proof (cases "length ?body \<le> cap")
    case False
    then have "fst (BuildCri m cap dn spki) < 0"
      using assms(1) by (auto simp: BuildCri_def Let_def steps)
    with x False show ?thesis by simp
  next
    case True
    let ?b = "put_front ?body \<lparr>ab_room = cap, ab_out = []\<rparr>"
    have mid: "BuildCri m cap dn spki =
      CHK (asn1_write_len m ?b (int (length ?body))) (int (length ?body)) (\<lambda>written b.
        CHK (asn1_write_tag m b 0x30) written (\<lambda>written b. (written, b)))"
    proof -
      obtain d where "cap = d + length ?body" using le_Suc_ex [OF True] by (auto simp: add.commute)
      then show ?thesis
        using assms(1)
        by (simp add: BuildCri_def Let_def CHK_writes [OF len0] CHK_writes [OF write_tag [of "0xA0"]]
            CHK_writes [OF write_int] CHK_writes [OF write_names] put_front_def algebra_simps)
    qed
    have "length ?body \<le> ab_room \<lparr>ab_room = cap, ab_out = []\<rparr>" "length ?body < 65536"
      using True assms(2) by simp_all
    from wrap_sequence [OF this, folded mid, folded cri_der_def, folded x_def]
    show ?thesis by (simp add: put_front_def)
  qed
qed

lemma assemble_der_cases:
  fixes cri :: bytes
  assumes "length sig \<le> 65000" "length oid < 128"
  defines "x \<equiv> csr_der cri oid sig"
  shows "if length x \<le> ETLX_SE_CSR_PEM_CAPACITY
    then assemble_der m cri sig oid = (int (length x), put_front x \<lparr>ab_room = ETLX_SE_CSR_PEM_CAPACITY, ab_out = []\<rparr>)
    else fst (assemble_der m cri sig oid) < 0"
proof -
  let ?body = "cri @ algorithm_identifier oid @ tlv 3 (0 # sig)"
  let ?start = "\<lparr>ab_room = ETLX_SE_CSR_PEM_CAPACITY, ab_out = []\<rparr>"
  have bits: "writes (\<lambda>b. asn1_write_bitstring m b sig (length sig * 8)) (tlv 3 (0 # sig))"
    using assms(1) by (intro write_bitstring) simp
  note steps = CHK_writes [OF bits] CHK_writes [OF write_algorithm [OF assms(2)]]
    writes_neg [OF bits] writes_neg [OF write_algorithm [OF assms(2)]]
  have x: "length ?body \<le> length x" by (simp add: x_def csr_der_def tlv_def)
  show ?thesis
  proof (cases "length ?body \<le> ETLX_SE_CSR_PEM_CAPACITY")
    case False
    then have "fst (assemble_der m cri sig oid) < 0"
      by (auto simp: assemble_der_def Let_def steps)
    with x False show ?thesis by auto
  next
    case True
    have mid: "assemble_der m cri sig oid =
      CHK (asn1_write_len m (put_front ?body ?start) (int (length ?body))) (int (length ?body))
        (\<lambda>written b. CHK (asn1_write_tag m b 0x30) written (\<lambda>written b. (written, b)))"
    proof -
      obtain d where d: "ETLX_SE_CSR_PEM_CAPACITY =
          d + (length cri + (length (algorithm_identifier oid) + length (tlv 3 (0 # sig))))"
        using le_Suc_ex [OF True] by (auto simp: add.commute)
      show ?thesis
        unfolding assemble_der_def Let_def d by (simp add: steps put_front_def algebra_simps)
    qed
    have "length ?body \<le> ab_room ?start" "length ?body < 65536"
      using True by (simp_all add: config_defs)
    from wrap_sequence [OF this, folded mid, folded csr_der_def, folded x_def]
    show ?thesis by simp
  qed
qed

lemma AssembleCsr_cases:
  fixes cri :: bytes
  assumes "length sig \<le> 65000" "length oid < 128"
  defines "x \<equiv> csr_der cri oid sig"
  shows "AssembleCsr m cri sig oid cap =
    (if length x \<le> ETLX_SE_CSR_PEM_CAPACITY \<and> length (pem_text x) < cap then Some (pem_text x) else None)"
proof (cases "length x \<le> ETLX_SE_CSR_PEM_CAPACITY")
  case True
  with assemble_der_cases [OF assms(1,2), of cri]
  have "AssembleCsr m cri sig oid cap =
      (case pem_write_buffer m pem_begin pem_end x cap of (r, pem) \<Rightarrow> if r = 0 then Some pem else None)"
    by (simp add: x_def AssembleCsr_def)
  with True pem_write [of x cap] pem_full [of cap x] show ?thesis
    by (cases "length (pem_text x) < cap") (auto split: prod.splits)
next
  case False
  with assemble_der_cases [OF assms(1,2), of cri] show ?thesis
    by (auto simp: x_def AssembleCsr_def split: prod.splits)
qed

end

subsection \<open>Writers\<close>

text \<open>Writers that keep the contract: names are kept as their text, and the text of a request has two letters for each byte.\<close>

definition plain_write :: "bytes \<Rightarrow> Asn1Buf \<Rightarrow> int \<times> Asn1Buf" where
  "plain_write x b = (if length x \<le> ab_room b then (int (length x), put_front x b) else (- 108, b))"

definition plain_pem :: "bytes \<Rightarrow> string" where
  "plain_pem der =
     pem_begin @ concat (map (\<lambda>b. [char_of (65 + unat b div 16), char_of (65 + unat b mod 16)]) der) @ pem_end"

definition plain_asn1 :: "bytes Asn1" where
  "plain_asn1 =
     \<lparr>x509_string_to_names = (\<lambda>dn. if dn = [] then None else Some (bytes_of dn)),
      asn1_write_len = (\<lambda>b n. plain_write (der_len (nat n)) b),
      asn1_write_tag = (\<lambda>b t. plain_write [t] b),
      asn1_write_int = (\<lambda>b n. plain_write [2, 1, word_of_int n] b),
      x509_write_names = (\<lambda>b names. plain_write (tlv 0x30 names) b),
      asn1_write_bitstring = (\<lambda>b bits n. plain_write (tlv 3 (0 # bits)) b),
      asn1_write_algorithm_identifier = (\<lambda>b oid n. plain_write (algorithm_identifier oid) b),
      pem_write_buffer = (\<lambda>h f der cap.
        if length (plain_pem der) < cap then (0, plain_pem der) else (- 42, []))\<rparr>"

lemma writes_plain: "writes (plain_write x) x"
  by (simp add: writes_def plain_write_def)

lemma plain_pem_no_NUL: "NUL \<notin> set (plain_pem der)"
proof -
  have "(CHR 0x00 :: char) \<noteq> char_of (65 + n :: nat)" if "n < 16" for n
  proof
    assume "(CHR 0x00 :: char) = char_of (65 + n :: nat)"
    then have "of_char (char_of (65 + n :: nat) :: char) = (of_char (CHR 0x00 :: char) :: nat)" by (simp only:)
    with that show False by simp
  qed
  note this [OF nibbles(1)] this [OF nibbles(2)]
  then show ?thesis by (auto simp: plain_pem_def pem_begin_def pem_end_def NUL_def)
qed

interpretation plain: der_writer plain_asn1 "tlv 0x30" plain_pem
  by unfold_locales (simp_all add: plain_asn1_def writes_plain plain_pem_no_NUL)

end
