(* ===== verification/SeKeys.thy ===== *)
theory SeKeys
  imports Se Csr
begin

section \<open>SeKeys: the keys of the secure element\<close>

text \<open>
  \<open>ports/se05x/rsa_key.cpp\<close>, \<open>ec_key.cpp\<close>, \<open>se_pk.cpp\<close> and \<open>VerifyBinding\<close> of
  \<open>object_store.cpp\<close>. The two key classes have the operations a certificate request is made of; they
  are shown to be instances of one interface, the locale \<open>signing_key\<close>, in which the request is dealt
  with once.
\<close>

subsection \<open>Policies\<close>

datatype RsaBits = k2048 | k4096

fun rsa_bits :: "RsaBits \<Rightarrow> nat" where
  "rsa_bits k2048 = 2048"
| "rsa_bits k4096 = 4096"

datatype EcCurve = P256 | P384 | P521

fun curve_bits :: "EcCurve \<Rightarrow> nat" where
  "curve_bits P256 = 256"
| "curve_bits P384 = 384"
| "curve_bits P521 = 521"

datatype KeyPolicy = Full | SignOnly | SignDecrypt

definition Rsa_ApplyPolicy :: "'w Sss \<Rightarrow> sss_object \<Rightarrow> RsaBits \<Rightarrow> KeyPolicy \<Rightarrow> 'w \<Rightarrow> Status \<times> 'w" where
  "Rsa_ApplyPolicy sss obj bits policy w =
     (if policy = Full then
        (case sss_generate_key sss obj (rsa_bits bits) None w of (ok, w') \<Rightarrow>
           (if \<not> ok then SeFail kKeyFailed ''sss_key_store_generate_key failed'' else Ok, w'))
      else
        let asym = \<lparr>can_Sign = True, can_Decrypt = (policy = SignDecrypt), can_Gen = True\<rparr>;
            common = \<lparr>can_Read = True, can_Write = False, can_Delete = False, req_Sm = True\<rparr> in
        (case sss_generate_key sss obj (rsa_bits bits) (Some (asym, common)) w of (ok, w') \<Rightarrow>
           (if \<not> ok then SeFail kKeyFailed ''sss_key_store_generate_key (policy) failed'' else Ok, w')))"

definition Ec_ApplyPolicy :: "'w Sss \<Rightarrow> sss_object \<Rightarrow> EcCurve \<Rightarrow> KeyPolicy \<Rightarrow> 'w \<Rightarrow> Status \<times> 'w" where
  "Ec_ApplyPolicy sss obj curve policy w =
     (if policy = Full then
        (case sss_generate_key sss obj (curve_bits curve) None w of (ok, w') \<Rightarrow>
           (if \<not> ok then SeFail kKeyFailed ''sss_key_store_generate_key failed'' else Ok, w'))
      else
        let asym = \<lparr>can_Sign = True, can_Decrypt = False, can_Gen = True\<rparr>;
            common = \<lparr>can_Read = True, can_Write = False, can_Delete = False, req_Sm = True\<rparr> in
        (case sss_generate_key sss obj (curve_bits curve) (Some (asym, common)) w of (ok, w') \<Rightarrow>
           (if \<not> ok then SeFail kKeyFailed ''sss_key_store_generate_key (policy) failed'' else Ok, w')))"

subsection \<open>RSA keys\<close>

record RsaKey =
  rk_obj :: sss_object
  rk_bits :: nat

definition RsaKey_new :: RsaKey where
  "RsaKey_new = \<lparr>rk_obj = blank_object, rk_bits = 2048\<rparr>"

definition RsaKey_Generate :: "'w Sss \<Rightarrow> u32 \<Rightarrow> RsaBits \<Rightarrow> KeyPolicy \<Rightarrow> 'w \<Rightarrow> RsaKey Result \<times> 'w" where
  "RsaKey_Generate sss key_id bits policy w =
     (let k = RsaKey_new\<lparr>rk_bits := rsa_bits bits\<rparr> in
      case KeyObject_Allocate sss (rk_obj k) key_id kPart_Pair kRSA (rk_bits k div 8) w of (st, obj, w1) \<Rightarrow>
        if isl st then (SeFail kKeyFailed ''key_object_allocate_handle failed'', w1)
        else
          let k = k\<lparr>rk_obj := obj\<rparr> in
          (case Rsa_ApplyPolicy sss obj bits policy w1 of (gen_st, w2) \<Rightarrow> (forward gen_st k, w2)))"

definition RsaKey_Open :: "'w Sss \<Rightarrow> u32 \<Rightarrow> 'w \<Rightarrow> RsaKey Result \<times> 'w" where
  "RsaKey_Open sss key_id w =
     (case KeyObject_Open sss (rk_obj RsaKey_new) key_id w of (st, obj, w1) \<Rightarrow>
        let k = RsaKey_new\<lparr>rk_obj := obj\<rparr> in
        if isl st then (forward st k, w1)
        else
          (case sss_get_key sss obj 512 w1 of ((ok, _, bits), w2) \<Rightarrow>
             (Inr (if ok \<and> bits > 0 then k\<lparr>rk_bits := bits\<rparr> else k), w2)))"

definition RsaKey_Sign :: "'w Sss \<Rightarrow> RsaKey \<Rightarrow> bytes \<Rightarrow> 'w \<Rightarrow> bytes Result \<times> 'w" where
  "RsaKey_Sign sss k digest w =
     (case sss_asymmetric_init sss (rk_obj k) RSASSA_PKCS1_V1_5_SHA256 ModeSign w of (ok, w1) \<Rightarrow>
        if \<not> ok then (SeFail kSignFailed ''asymmetric_context_init(sign) failed'', w1)
        else
          (case sss_sign_digest sss (rk_obj k) RSASSA_PKCS1_V1_5_SHA256 digest (rk_bits k div 8) w1 of
             ((ok', sig), w2) \<Rightarrow>
               (if \<not> ok' then SeFail kSignFailed ''asymmetric_sign_digest failed''
                else Inr (filled (rk_bits k div 8) sig), w2)))"

definition RsaKey_Verify :: "'w Sss \<Rightarrow> RsaKey \<Rightarrow> bytes \<Rightarrow> bytes \<Rightarrow> 'w \<Rightarrow> bool Result \<times> 'w" where
  "RsaKey_Verify sss k digest sig w =
     (case sss_asymmetric_init sss (rk_obj k) RSASSA_PKCS1_V1_5_SHA256 ModeVerify w of (ok, w1) \<Rightarrow>
        if \<not> ok then (SeFail kSignFailed ''asymmetric_context_init(verify) failed'', w1)
        else
          (case sss_verify_digest sss (rk_obj k) RSASSA_PKCS1_V1_5_SHA256 digest sig w1 of (ok', w2) \<Rightarrow>
             (Inr ok', w2)))"

definition RsaKey_PublicKeyDer :: "'w Sss \<Rightarrow> RsaKey \<Rightarrow> 'w \<Rightarrow> bytes Result \<times> 'w" where
  "RsaKey_PublicKeyDer sss k w =
     (case sss_get_key sss (rk_obj k) ETLX_SE_SPKI_CAPACITY w of ((ok, data, _), w') \<Rightarrow>
        (if \<not> ok then SeFail kKeyFailed ''sss_key_store_get_key(SPKI) failed''
         else Inr (filled ETLX_SE_SPKI_CAPACITY data), w'))"

definition modulus_bytes :: "RsaKey \<Rightarrow> nat" where
  "modulus_bytes k = rk_bits k div 8"

subsection \<open>Elliptic curve keys\<close>

record EcKey =
  ek_obj :: sss_object
  ek_curve :: EcCurve

definition EcKey_new :: EcKey where
  "EcKey_new = \<lparr>ek_obj = blank_object, ek_curve = P256\<rparr>"

definition EcKey_Generate :: "'w Sss \<Rightarrow> u32 \<Rightarrow> EcCurve \<Rightarrow> KeyPolicy \<Rightarrow> 'w \<Rightarrow> EcKey Result \<times> 'w" where
  "EcKey_Generate sss key_id curve policy w =
     (let k = EcKey_new\<lparr>ek_curve := curve\<rparr> in
      case KeyObject_Allocate sss (ek_obj k) key_id kPart_Pair kEC_NIST_P (curve_bits curve div 8) w of
        (st, obj, w1) \<Rightarrow>
          if isl st then (SeFail kKeyFailed ''key_object_allocate_handle failed'', w1)
          else
            let k = k\<lparr>ek_obj := obj\<rparr> in
            (case Ec_ApplyPolicy sss obj curve policy w1 of (gen_st, w2) \<Rightarrow> (forward gen_st k, w2)))"

definition curve_of_bits :: "nat \<Rightarrow> EcCurve" where
  "curve_of_bits bits = (if bits \<ge> 521 then P521 else if bits \<ge> 384 then P384 else P256)"

definition EcKey_Open :: "'w Sss \<Rightarrow> u32 \<Rightarrow> 'w \<Rightarrow> EcKey Result \<times> 'w" where
  "EcKey_Open sss key_id w =
     (case KeyObject_Open sss (ek_obj EcKey_new) key_id w of (st, obj, w1) \<Rightarrow>
        let k = EcKey_new\<lparr>ek_obj := obj\<rparr> in
        if isl st then (forward st k, w1)
        else
          (case sss_get_key sss obj ETLX_SE_SPKI_CAPACITY w1 of ((ok, _, bits), w2) \<Rightarrow>
             (Inr (if ok then k\<lparr>ek_curve := curve_of_bits bits\<rparr> else k), w2)))"

definition EcKey_Sign :: "'w Sss \<Rightarrow> EcKey \<Rightarrow> bytes \<Rightarrow> 'w \<Rightarrow> bytes Result \<times> 'w" where
  "EcKey_Sign sss k digest w =
     (case sss_asymmetric_init sss (ek_obj k) ECDSA_SHA256 ModeSign w of (ok, w1) \<Rightarrow>
        if \<not> ok then (SeFail kSignFailed ''asymmetric_context_init(sign) failed'', w1)
        else
          (case sss_sign_digest sss (ek_obj k) ECDSA_SHA256 digest ETLX_SE_SIG_CAPACITY w1 of
             ((ok', sig), w2) \<Rightarrow>
               (if \<not> ok' then SeFail kSignFailed ''asymmetric_sign_digest failed''
                else Inr (filled ETLX_SE_SIG_CAPACITY sig), w2)))"

definition EcKey_Verify :: "'w Sss \<Rightarrow> EcKey \<Rightarrow> bytes \<Rightarrow> bytes \<Rightarrow> 'w \<Rightarrow> bool Result \<times> 'w" where
  "EcKey_Verify sss k digest sig w =
     (case sss_asymmetric_init sss (ek_obj k) ECDSA_SHA256 ModeVerify w of (ok, w1) \<Rightarrow>
        if \<not> ok then (SeFail kSignFailed ''asymmetric_context_init(verify) failed'', w1)
        else
          (case sss_verify_digest sss (ek_obj k) ECDSA_SHA256 digest sig w1 of (ok', w2) \<Rightarrow> (Inr ok', w2)))"

definition EcKey_PublicKeyDer :: "'w Sss \<Rightarrow> EcKey \<Rightarrow> 'w \<Rightarrow> bytes Result \<times> 'w" where
  "EcKey_PublicKeyDer sss k w =
     (case sss_get_key sss (ek_obj k) ETLX_SE_SPKI_CAPACITY w of ((ok, data, _), w') \<Rightarrow>
        (if \<not> ok then SeFail kKeyFailed ''sss_key_store_get_key(SPKI) failed''
         else Inr (filled ETLX_SE_SPKI_CAPACITY data), w'))"

subsection \<open>Certificate requests\<close>

text \<open>
  The body of \<open>MakeCsr\<close>, the same in both classes up to the calls and the identifier of the
  algorithm. \<open>sha256\<close> is \<open>mbedtls_sha256\<close>, \<open>None\<close> for a failure.
\<close>

definition PKCS1_SHA256_OID :: bytes where
  "PKCS1_SHA256_OID = [0x2A, 0x86, 0x48, 0x86, 0xF7, 0x0D, 0x01, 0x01, 0x0B]"

definition ECDSA_SHA256_OID :: bytes where
  "ECDSA_SHA256_OID = [0x2A, 0x86, 0x48, 0xCE, 0x3D, 0x04, 0x03, 0x02]"

definition make_csr ::
  "'n Asn1 \<Rightarrow> (bytes \<Rightarrow> bytes option) \<Rightarrow> ('w \<Rightarrow> bytes Result \<times> 'w) \<Rightarrow> (bytes \<Rightarrow> 'w \<Rightarrow> bytes Result \<times> 'w) \<Rightarrow>
   bytes \<Rightarrow> string \<Rightarrow> 'w \<Rightarrow> string Result \<times> 'w" where
  "make_csr m sha256 PublicKeyDer Sign oid subject_dn w =
     (case PublicKeyDer w of
        (Inl e, w1) \<Rightarrow> (Inl e, w1)
      | (Inr spki, w1) \<Rightarrow>
          (case BuildCri m ETLX_SE_CSR_PEM_CAPACITY subject_dn spki of (cri_len, buf) \<Rightarrow>
             if cri_len < 0 then (SeFail kKeyFailed ''buildCri failed'', w1)
             else
               let cri = drop (length (ab_out buf) - nat cri_len) (ab_out buf) in
               (case sha256 cri of
                  None \<Rightarrow> (SeFail kKeyFailed ''sha256 over CRI failed'', w1)
                | Some digest \<Rightarrow>
                    (case Sign digest w1 of
                       (Inl e, w2) \<Rightarrow> (Inl e, w2)
                     | (Inr sig, w2) \<Rightarrow>
                         (case AssembleCsr m cri sig oid ETLX_SE_CSR_PEM_CAPACITY of
                            None \<Rightarrow> (SeFail kKeyFailed ''AssembleCsr/PEM failed'', w2)
                          | Some pem \<Rightarrow> (Inr (takeWhile (\<lambda>c. c \<noteq> NUL) pem), w2))))))"

definition RsaKey_MakeCsr ::
  "'n Asn1 \<Rightarrow> (bytes \<Rightarrow> bytes option) \<Rightarrow> 'w Sss \<Rightarrow> RsaKey \<Rightarrow> string \<Rightarrow> 'w \<Rightarrow> string Result \<times> 'w" where
  "RsaKey_MakeCsr m sha256 sss k =
     make_csr m sha256 (RsaKey_PublicKeyDer sss k) (RsaKey_Sign sss k) PKCS1_SHA256_OID"

definition EcKey_MakeCsr ::
  "'n Asn1 \<Rightarrow> (bytes \<Rightarrow> bytes option) \<Rightarrow> 'w Sss \<Rightarrow> EcKey \<Rightarrow> string \<Rightarrow> 'w \<Rightarrow> string Result \<times> 'w" where
  "EcKey_MakeCsr m sha256 sss k =
     make_csr m sha256 (EcKey_PublicKeyDer sss k) (EcKey_Sign sss k) ECDSA_SHA256_OID"

subsection \<open>The key behind an opaque context\<close>

definition MBEDTLS_ERR_PK_FEATURE_UNAVAILABLE :: int where
  "MBEDTLS_ERR_PK_FEATURE_UNAVAILABLE = - 0x3980"

text \<open>The answer and the signature buffer of the caller.\<close>

definition SeSign :: "'w Sss \<Rightarrow> RsaKey \<Rightarrow> bytes \<Rightarrow> bytes \<Rightarrow> 'w \<Rightarrow> int \<times> bytes \<times> 'w" where
  "SeSign sss k hash sig w =
     (case RsaKey_Sign sss k hash w of
        (Inl e, w') \<Rightarrow> (MBEDTLS_ERR_PK_FEATURE_UNAVAILABLE, sig, w')
      | (Inr sv, w') \<Rightarrow> (0, memcpy sig 0 sv, w'))"

definition SeDecrypt :: int where
  "SeDecrypt = MBEDTLS_ERR_PK_FEATURE_UNAVAILABLE"

definition SeKeyLen :: "RsaKey \<Rightarrow> nat" where
  "SeKeyLen k = modulus_bytes k"

text \<open>\<open>setup\<close> is the answer of \<open>mbedtls_pk_setup_rsa_alt\<close>.\<close>

definition SetupOpaquePk :: "int \<Rightarrow> Status" where
  "SetupOpaquePk setup = (if setup \<noteq> 0 then SeFail kKeyFailed ''mbedtls_pk_setup_rsa_alt failed'' else Ok)"

subsection \<open>Binding a certificate to a key\<close>

text \<open>\<open>crt_parse\<close> is \<open>mbedtls_x509_crt_parse_der\<close>, \<open>pk_verify\<close> whether \<open>mbedtls_pk_verify\<close> answers 0.\<close>

definition VerifyBinding ::
  "(bytes \<Rightarrow> bytes option) \<Rightarrow> (bytes \<Rightarrow> 'c option) \<Rightarrow> ('c \<Rightarrow> bytes \<Rightarrow> bytes \<Rightarrow> bool) \<Rightarrow> 'w Sss \<Rightarrow>
   u32 \<Rightarrow> bytes \<Rightarrow> 'w \<Rightarrow> bool Result \<times> 'w" where
  "VerifyBinding sha256 crt_parse pk_verify sss key_id cert_der w =
     (case sss_rng_init sss w of (ok, w1) \<Rightarrow>
        if \<not> ok then (SeFail kRngFailed ''rng_context_init (verifyBinding)'', w1)
        else
          (case sss_rng_get_random sss 32 w1 of ((ok', nonce), w2) \<Rightarrow>
             if \<not> ok' then (SeFail kRngFailed ''rng_get_random (verifyBinding)'', w2)
             else
               (case sha256 nonce of
                  None \<Rightarrow> (SeFail kKeyFailed ''sha256 (verifyBinding) failed'', w2)
                | Some digest \<Rightarrow>
                    (case RsaKey_Open sss key_id w2 of
                       (Inl e, w3) \<Rightarrow> (Inl e, w3)
                     | (Inr k, w3) \<Rightarrow>
                         (case RsaKey_Sign sss k digest w3 of
                            (Inl e, w4) \<Rightarrow> (Inl e, w4)
                          | (Inr sig, w4) \<Rightarrow>
                              (case crt_parse cert_der of
                                 None \<Rightarrow> (SeFail kReadFailed ''mbedtls_x509_crt_parse_der failed'', w4)
                               | Some crt \<Rightarrow> (Inr (pk_verify crt digest sig), w4)))))))"

subsection \<open>The interface of a signing key\<close>

text \<open>
  \<open>holds\<close> is the public half of the key, \<open>valid\<close> whether a signature of a digest is one of that key.
\<close>

locale signing_key =
  fixes pub :: "'w \<Rightarrow> bytes Result \<times> 'w"
    and sign :: "bytes \<Rightarrow> 'w \<Rightarrow> bytes Result \<times> 'w"
    and holds :: "'w \<Rightarrow> bytes option"
    and valid :: "bytes \<Rightarrow> bytes \<Rightarrow> bytes \<Rightarrow> bool"
  assumes pub_law: "pub w = (Inr spki, w') \<Longrightarrow> holds w = Some spki \<and> holds w' = holds w"
    and sign_law: "sign digest w = (Inr sig, w') \<Longrightarrow>
      \<exists>spki. holds w = Some spki \<and> valid spki digest sig \<and> holds w' = holds w \<and> length sig \<le> 512"

locale csr_client = signing_key pub sign holds valid + der_writer m der_name pem_text
  for pub :: "'w \<Rightarrow> bytes Result \<times> 'w" and sign :: "bytes \<Rightarrow> 'w \<Rightarrow> bytes Result \<times> 'w"
    and holds :: "'w \<Rightarrow> bytes option" and valid :: "bytes \<Rightarrow> bytes \<Rightarrow> bytes \<Rightarrow> bool"
    and m :: "'n Asn1" and der_name :: "'n \<Rightarrow> bytes" and pem_text :: "bytes \<Rightarrow> string"
begin

lemma make_csr_signed:
  assumes "make_csr m sha256 pub sign oid dn w = (Inr pem, w')"
    and "length oid < 128" "x509_string_to_names m dn = Some names"
  shows "\<exists>spki digest sig. holds w = Some spki \<and> holds w' = Some spki \<and>
    sha256 (cri_der (der_name names) spki) = Some digest \<and> valid spki digest sig \<and>
    pem = pem_text (csr_der (cri_der (der_name names) spki) oid sig)"
proof -
  let ?cap = ETLX_SE_CSR_PEM_CAPACITY
  obtain spki w1 where p: "pub w = (Inr spki, w1)"
    using assms(1) by (auto simp: make_csr_def split: prod.splits sum.splits)
  let ?x = "cri_der (der_name names) spki"
  have c: "if length ?x \<le> ?cap
      then BuildCri m ?cap dn spki = (int (length ?x), \<lparr>ab_room = ?cap - length ?x, ab_out = ?x\<rparr>)
      else fst (BuildCri m ?cap dn spki) < 0"
    by (rule BuildCri_cases [OF assms(3)]) (simp add: config_defs)
  then have b: "BuildCri m ?cap dn spki = (int (length ?x), \<lparr>ab_room = ?cap - length ?x, ab_out = ?x\<rparr>)"
    using assms(1) p by (cases "length ?x \<le> ?cap") (auto simp: make_csr_def split: prod.splits if_splits)
  obtain digest sig w2 where d: "sha256 ?x = Some digest" and s: "sign digest w1 = (Inr sig, w2)"
    and a: "AssembleCsr m ?x sig oid ?cap \<noteq> None"
    and r: "pem = takeWhile (\<lambda>c. c \<noteq> NUL) (the (AssembleCsr m ?x sig oid ?cap))" "w' = w2"
    using assms(1) p b by (auto simp: make_csr_def Let_def split: prod.splits sum.splits option.splits)
  have "length sig \<le> 65000" using sign_law [OF s] by auto
  from a AssembleCsr_cases [OF this assms(2), of ?x ?cap]
  have "the (AssembleCsr m ?x sig oid ?cap) = pem_text (csr_der ?x oid sig)" by (simp split: if_splits)
  moreover have "takeWhile (\<lambda>c. c \<noteq> NUL) (pem_text der) = pem_text der" for der
    using pem_plain [of der] by (auto simp: takeWhile_eq_all_conv)
  ultimately show ?thesis using pub_law [OF p] sign_law [OF s] d r by auto
qed

end

subsection \<open>The keys of the element as signing keys\<close>

locale signing_element = secure_element sss objs
  for sss :: "'w Sss" and objs :: "'w \<Rightarrow> u32 \<rightharpoonup> SeObject" +
  fixes valid :: "Algorithm \<Rightarrow> bytes \<Rightarrow> bytes \<Rightarrow> bytes \<Rightarrow> bool"
  assumes sign_valid: "sss_sign_digest sss h alg digest n w = ((True, sig), w') \<Longrightarrow>
      \<exists>ob. objs w (so_id h) = Some ob \<and> valid alg (ob_data ob) digest sig"
    and verify_valid: "objs w (so_id h) = Some ob \<Longrightarrow>
      fst (sss_verify_digest sss h alg digest sig w) \<longleftrightarrow> valid alg (ob_data ob) digest sig"

definition public_half :: "('w \<Rightarrow> u32 \<rightharpoonup> SeObject) \<Rightarrow> sss_object \<Rightarrow> 'w \<Rightarrow> bytes option" where
  "public_half objs h w = map_option ob_data (objs w (so_id h))"

context signing_element
begin

lemma RsaKey_Sign_law:
  assumes "RsaKey_Sign sss k digest w = (Inr sig, w')"
  shows "\<exists>spki. public_half objs (rk_obj k) w = Some spki \<and> valid RSASSA_PKCS1_V1_5_SHA256 spki digest sig \<and>
    objs w' = objs w \<and> length sig \<le> rk_bits k div 8"
proof -
  obtain ok w1 where i: "sss_asymmetric_init sss (rk_obj k) RSASSA_PKCS1_V1_5_SHA256 ModeSign w = (ok, w1)"
    by fastforce
  obtain ok' sig' w2 where s:
    "sss_sign_digest sss (rk_obj k) RSASSA_PKCS1_V1_5_SHA256 digest (rk_bits k div 8) w1 = ((ok', sig'), w2)"
    by (metis prod.exhaust)
  from assms i s have "ok'" "sig = filled (rk_bits k div 8) sig'" "w' = w2"
    by (auto simp: RsaKey_Sign_def split: if_splits)
  with s have s': "sss_sign_digest sss (rk_obj k) RSASSA_PKCS1_V1_5_SHA256 digest (rk_bits k div 8) w1 = ((True, sig'), w2)"
    by simp
  from \<open>sig = _\<close> \<open>w' = w2\<close> init_law [OF i] sign_law [OF s'] sign_valid [OF s'] show ?thesis
    by (auto simp: public_half_def filled_eq)
qed

lemma EcKey_Sign_law:
  assumes "EcKey_Sign sss k digest w = (Inr sig, w')"
  shows "\<exists>spki. public_half objs (ek_obj k) w = Some spki \<and> valid ECDSA_SHA256 spki digest sig \<and>
    objs w' = objs w \<and> length sig \<le> ETLX_SE_SIG_CAPACITY"
proof -
  obtain ok w1 where i: "sss_asymmetric_init sss (ek_obj k) ECDSA_SHA256 ModeSign w = (ok, w1)"
    by fastforce
  obtain ok' sig' w2 where s:
    "sss_sign_digest sss (ek_obj k) ECDSA_SHA256 digest ETLX_SE_SIG_CAPACITY w1 = ((ok', sig'), w2)"
    by (metis prod.exhaust)
  from assms i s have "ok'" "sig = filled ETLX_SE_SIG_CAPACITY sig'" "w' = w2"
    by (auto simp: EcKey_Sign_def split: if_splits)
  with s have s': "sss_sign_digest sss (ek_obj k) ECDSA_SHA256 digest ETLX_SE_SIG_CAPACITY w1 = ((True, sig'), w2)"
    by simp
  from \<open>sig = _\<close> \<open>w' = w2\<close> init_law [OF i] sign_law [OF s'] sign_valid [OF s'] show ?thesis
    by (auto simp: public_half_def filled_eq)
qed

lemma RsaKey_PublicKeyDer_law:
  "RsaKey_PublicKeyDer sss k w = (Inr spki, w') \<Longrightarrow>
   public_half objs (rk_obj k) w = Some spki \<and> objs w' = objs w"
  using get_key_law [of "rk_obj k" ETLX_SE_SPKI_CAPACITY w]
  by (auto simp: RsaKey_PublicKeyDer_def public_half_def filled_eq split: prod.splits if_splits)

lemma EcKey_PublicKeyDer_law:
  "EcKey_PublicKeyDer sss k w = (Inr spki, w') \<Longrightarrow>
   public_half objs (ek_obj k) w = Some spki \<and> objs w' = objs w"
  using get_key_law [of "ek_obj k" ETLX_SE_SPKI_CAPACITY w]
  by (auto simp: EcKey_PublicKeyDer_def public_half_def filled_eq split: prod.splits if_splits)

lemma RsaKey_Verify_law:
  assumes "RsaKey_Verify sss k digest sig w = (Inr b, w')" "public_half objs (rk_obj k) w = Some spki"
  shows "b \<longleftrightarrow> valid RSASSA_PKCS1_V1_5_SHA256 spki digest sig"
proof -
  obtain ok w1 where i: "sss_asymmetric_init sss (rk_obj k) RSASSA_PKCS1_V1_5_SHA256 ModeVerify w = (ok, w1)"
    by fastforce
  obtain ob where ob: "objs w1 (so_id (rk_obj k)) = Some ob" "ob_data ob = spki"
    using assms(2) init_law [OF i] by (auto simp: public_half_def)
  have "b = fst (sss_verify_digest sss (rk_obj k) RSASSA_PKCS1_V1_5_SHA256 digest sig w1)"
    using assms(1) i by (auto simp: RsaKey_Verify_def split: prod.splits if_splits)
  with verify_valid [OF ob(1)] ob(2) show ?thesis by simp
qed

lemma RsaKey_Open_law:
  assumes "RsaKey_Open sss i w = (Inr k, w')"
  shows "so_id (rk_obj k) = i \<and> i \<in> dom (objs w) \<and> objs w' = objs w"
proof -
  obtain st h w1 where o: "KeyObject_Open sss blank_object i w = (st, h, w1)" by (metis prod_cases3)
  obtain ok data bits w2 where g: "sss_get_key sss h 512 w1 = ((ok, data, bits), w2)"
    by (metis prod.exhaust)
  from assms o g Open_law [OF o] get_key_law [OF g] show ?thesis
    by (auto simp: RsaKey_Open_def RsaKey_new_def Let_def forward_def
        split: if_splits option.splits sum.splits)
qed

end

sublocale signing_element \<subseteq> ec: signing_key "EcKey_PublicKeyDer sss k" "EcKey_Sign sss k"
    "public_half objs (ek_obj k)" "valid ECDSA_SHA256" for k
  by unfold_locales
    (auto dest!: EcKey_PublicKeyDer_law EcKey_Sign_law simp: public_half_def ETLX_SE_SIG_CAPACITY_def)

text \<open>A handle of an RSA key of at most 4096 bits, the largest the element has.\<close>

locale rsa_handle = signing_element sss objs valid
  for sss :: "'w Sss" and objs :: "'w \<Rightarrow> u32 \<rightharpoonup> SeObject"
    and valid :: "Algorithm \<Rightarrow> bytes \<Rightarrow> bytes \<Rightarrow> bytes \<Rightarrow> bool" +
  fixes k :: RsaKey
  assumes bits_le: "rk_bits k \<le> 4096"

sublocale rsa_handle \<subseteq> rsa: signing_key "RsaKey_PublicKeyDer sss k" "RsaKey_Sign sss k"
    "public_half objs (rk_obj k)" "valid RSASSA_PKCS1_V1_5_SHA256"
proof (unfold_locales, goal_cases)
  case (1 w spki w')
  then show ?case by (auto dest!: RsaKey_PublicKeyDer_law simp: public_half_def)
next
  case (2 digest w sig w')
  moreover have "rk_bits k div 8 \<le> 512" using bits_le by simp
  ultimately show ?case by (auto dest!: RsaKey_Sign_law simp: public_half_def)
qed

context rsa_handle
begin

lemma rsa_signs:
  "signing_key (RsaKey_PublicKeyDer sss k) (RsaKey_Sign sss k) (public_half objs (rk_obj k))
    (valid RSASSA_PKCS1_V1_5_SHA256)"
  by (rule rsa.signing_key_axioms)

end

context signing_element
begin

lemma ec_signs:
  "signing_key (EcKey_PublicKeyDer sss k) (EcKey_Sign sss k) (public_half objs (ek_obj k)) (valid ECDSA_SHA256)"
  by (rule ec.signing_key_axioms)

lemma VerifyBinding_law:
  assumes "VerifyBinding sha256 crt_parse pk_verify sss i cert w = (Inr b, w')"
  shows "\<exists>c spki nonce digest sig.
    crt_parse cert = Some c \<and> map_option ob_data (objs w i) = Some spki \<and> objs w' = objs w \<and>
    length nonce = 32 \<and> sha256 nonce = Some digest \<and>
    valid RSASSA_PKCS1_V1_5_SHA256 spki digest sig \<and> (b \<longleftrightarrow> pk_verify c digest sig)"
proof -
  obtain ok w1 where i: "sss_rng_init sss w = (ok, w1)" by fastforce
  obtain ok' nonce w2 where r: "sss_rng_get_random sss 32 w1 = ((ok', nonce), w2)" by (metis prod.exhaust)
  obtain digest where d: "ok" "ok'" "sha256 nonce = Some digest"
    using assms i r by (auto simp: VerifyBinding_def split: if_splits option.splits)
  obtain k w3 where k: "RsaKey_Open sss i w2 = (Inr k, w3)"
    using assms i r d by (auto simp: VerifyBinding_def split: prod.splits sum.splits)
  obtain sig w4 where s: "RsaKey_Sign sss k digest w3 = (Inr sig, w4)"
    using assms i r d k by (auto simp: VerifyBinding_def split: prod.splits sum.splits)
  obtain c where c: "crt_parse cert = Some c" "b \<longleftrightarrow> pk_verify c digest sig" "w' = w4"
    using assms i r d k s by (auto simp: VerifyBinding_def split: option.splits)
  have "objs w4 = objs w" "so_id (rk_obj k) = i"
    "map_option ob_data (objs w i) = public_half objs (rk_obj k) w3" "length nonce = 32"
    using rng_init_law [OF i] rng_law [OF r] d RsaKey_Open_law [OF k] RsaKey_Sign_law [OF s]
    by (auto simp: public_half_def)
  with RsaKey_Sign_law [OF s] c d show ?thesis by auto
qed

end

subsection \<open>The simulated element\<close>

definition sim_valid :: "Algorithm \<Rightarrow> bytes \<Rightarrow> bytes \<Rightarrow> bytes \<Rightarrow> bool" where
  "sim_valid alg p digest sig = (case p of [k] \<Rightarrow> sig = map ((+) k) digest | _ \<Rightarrow> False)"

definition sim_rsa_key :: RsaKey where
  "sim_rsa_key = \<lparr>rk_obj = \<lparr>so_id = kRsaKeyId, so_cipher = kRSA\<rparr>, rk_bits = 2048\<rparr>"

definition sim_provisioned :: SimSe where
  "sim_provisioned = sim_empty\<lparr>sim_objs := [kRsaKeyId \<mapsto> \<lparr>ob_cipher = kRSA, ob_data = [9]\<rparr>]\<rparr>"

interpretation sim_rsa: rsa_handle sim_sss sim_objs sim_valid sim_rsa_key
  by unfold_locales
    (auto simp: sim_sss_def sim_key_def sim_valid_def sim_rsa_key_def split: option.splits list.splits if_splits)

interpretation sim_csr: csr_client "RsaKey_PublicKeyDer sim_sss sim_rsa_key" "RsaKey_Sign sim_sss sim_rsa_key"
    "public_half sim_objs (rk_obj sim_rsa_key)" "sim_valid RSASSA_PKCS1_V1_5_SHA256"
    plain_asn1 "tlv 0x30" plain_pem
  by unfold_locales

text \<open>A digest for the examples: 32 bytes made of the first of the data.\<close>

definition sim_sha256 :: "bytes \<Rightarrow> bytes option" where
  "sim_sha256 data = Some (replicate 32 (case data of [] \<Rightarrow> 0 | b # _ \<Rightarrow> b))"

subsection \<open>Properties\<close>

text \<open>
  C4: a certificate request that \<open>MakeCsr\<close> gives out is the PEM text of exactly the request of RFC
  2986 for the subject, with the public half of the key the element holds, and its signature is one
  of that same key over the digest of the very request it is attached to; no object has changed.
\<close>

theorem csr_proves_possession:
  assumes "rsa_handle sss objs valid k" "der_writer m der_name pem_text"
    and "x509_string_to_names m dn = Some names"
    and "RsaKey_MakeCsr m sha256 sss k dn w = (Inr pem, w')"
  shows "\<exists>spki digest sig.
    public_half objs (rk_obj k) w = Some spki \<and> public_half objs (rk_obj k) w' = Some spki \<and>
    sha256 (cri_der (der_name names) spki) = Some digest \<and>
    valid RSASSA_PKCS1_V1_5_SHA256 spki digest sig \<and>
    pem = pem_text (csr_der (cri_der (der_name names) spki) PKCS1_SHA256_OID sig)"
proof -
  from csr_client.intro [OF rsa_handle.rsa_signs [OF assms(1)] assms(2)] show ?thesis
    by (rule csr_client.make_csr_signed)
      (use assms in \<open>simp_all add: RsaKey_MakeCsr_def PKCS1_SHA256_OID_def\<close>)
qed

theorem csr_proves_possession_witness:
  "\<exists>spki digest sig.
    public_half sim_objs (rk_obj sim_rsa_key) sim_provisioned = Some spki \<and>
    public_half sim_objs (rk_obj sim_rsa_key) sim_provisioned = Some spki \<and>
    sim_sha256 (cri_der (tlv 0x30 (bytes_of ''CN=a'')) spki) = Some digest \<and>
    sim_valid RSASSA_PKCS1_V1_5_SHA256 spki digest sig \<and>
    plain_pem (csr_der (cri_der (tlv 0x30 (bytes_of ''CN=a'')) [9]) PKCS1_SHA256_OID (replicate 32 57)) =
      plain_pem (csr_der (cri_der (tlv 0x30 (bytes_of ''CN=a'')) spki) PKCS1_SHA256_OID sig)"
proof -
  have n: "x509_string_to_names plain_asn1 ''CN=a'' = Some (bytes_of ''CN=a'')"
    by (simp add: plain_asn1_def)
  have "RsaKey_MakeCsr plain_asn1 sim_sha256 sim_sss sim_rsa_key ''CN=a'' sim_provisioned =
    (Inr (plain_pem (csr_der (cri_der (tlv 0x30 (bytes_of ''CN=a'')) [9]) PKCS1_SHA256_OID (replicate 32 57))), sim_provisioned)"
  proof -
    let ?x = "cri_der (tlv 0x30 (bytes_of ''CN=a'')) [9]"
    have "length ?x \<le> ETLX_SE_CSR_PEM_CAPACITY"
      by (simp add: cri_der_def tlv_def der_len_def config_defs)
    with plain.BuildCri_cases [OF n, of ETLX_SE_CSR_PEM_CAPACITY "[9]"]
    have "BuildCri plain_asn1 ETLX_SE_CSR_PEM_CAPACITY ''CN=a'' [9] =
        (int (length ?x), \<lparr>ab_room = ETLX_SE_CSR_PEM_CAPACITY - length ?x, ab_out = ?x\<rparr>)"
      by (simp add: config_defs)
    moreover have "AssembleCsr plain_asn1 ?x (replicate 32 57) PKCS1_SHA256_OID ETLX_SE_CSR_PEM_CAPACITY =
        Some (plain_pem (csr_der ?x PKCS1_SHA256_OID (replicate 32 57)))"
      by (subst plain.AssembleCsr_cases)
        (simp_all add: PKCS1_SHA256_OID_def csr_der_def cri_der_def algorithm_identifier_def tlv_def der_len_def
          config_defs plain_pem_def pem_begin_def pem_end_def comp_def sum_list_triv sum_list_replicate length_concat)
    moreover have "RsaKey_PublicKeyDer sim_sss sim_rsa_key sim_provisioned = (Inr [9], sim_provisioned)"
      by (simp add: RsaKey_PublicKeyDer_def sim_sss_def sim_rsa_key_def sim_provisioned_def config_defs filled_eq)
    moreover have "RsaKey_Sign sim_sss sim_rsa_key (replicate 32 48) sim_provisioned =
        (Inr (replicate 32 57), sim_provisioned)"
      by (simp add: RsaKey_Sign_def sim_sss_def sim_key_def sim_rsa_key_def sim_provisioned_def filled_eq)
    moreover have "sim_sha256 ?x = Some (replicate 32 48)"
      by (simp add: sim_sha256_def cri_der_def tlv_def)
    moreover have "takeWhile (\<lambda>c. c \<noteq> NUL) (plain_pem der) = plain_pem der" for der
      using plain_pem_no_NUL [of der] by (auto simp: takeWhile_eq_all_conv)
    ultimately show ?thesis by (simp add: RsaKey_MakeCsr_def make_csr_def)
  qed
  from csr_proves_possession [OF sim_rsa.rsa_handle_axioms plain.der_writer_axioms n this]
  show ?thesis .
qed

text \<open>
  \<open>VerifyBinding\<close> answers whether a signature that the element's key has just made of a fresh
  digest passes under the certificate's key, and changes no object; so it never answers \<open>false\<close> for a
  certificate of that key.
\<close>

theorem verify_binding_of_key:
  assumes "signing_element sss objs valid"
    and "VerifyBinding sha256 crt_parse pk_verify sss i cert w = (Inr b, w')"
    and "\<And>c digest sig. crt_parse cert = Some c \<Longrightarrow>
      pk_verify c digest sig \<longleftrightarrow> valid RSASSA_PKCS1_V1_5_SHA256 (cert_key c) digest sig"
  shows "\<exists>c spki nonce digest sig.
    crt_parse cert = Some c \<and> map_option ob_data (objs w i) = Some spki \<and> objs w' = objs w \<and>
    length nonce = 32 \<and> sha256 nonce = Some digest \<and>
    valid RSASSA_PKCS1_V1_5_SHA256 spki digest sig \<and>
    (b \<longleftrightarrow> valid RSASSA_PKCS1_V1_5_SHA256 (cert_key c) digest sig) \<and> (cert_key c = spki \<longrightarrow> b)"
proof -
  obtain c spki nonce digest sig where *: "crt_parse cert = Some c" "map_option ob_data (objs w i) = Some spki"
      "objs w' = objs w" "length nonce = 32" "sha256 nonce = Some digest"
      "valid RSASSA_PKCS1_V1_5_SHA256 spki digest sig" "b \<longleftrightarrow> pk_verify c digest sig"
    using signing_element.VerifyBinding_law [OF assms(1,2)] by auto
  with assms(3) [OF *(1), of digest sig] show ?thesis
    by (intro exI [of _ c] exI [of _ spki] exI [of _ nonce] exI [of _ digest] exI [of _ sig]) auto
qed

theorem verify_binding_of_key_witness:
  "\<exists>c spki nonce digest sig.
    Some [9 :: u8] = Some c \<and> map_option ob_data (sim_objs sim_provisioned kRsaKeyId) = Some spki \<and>
    sim_objs (sim_provisioned\<lparr>sim_seed := 4\<rparr>) = sim_objs sim_provisioned \<and>
    length nonce = 32 \<and> sim_sha256 nonce = Some digest \<and>
    sim_valid RSASSA_PKCS1_V1_5_SHA256 spki digest sig \<and>
    (True \<longleftrightarrow> sim_valid RSASSA_PKCS1_V1_5_SHA256 (id c) digest sig) \<and> (id c = spki \<longrightarrow> True)"
proof -
  have "VerifyBinding sim_sha256 Some (\<lambda>c. sim_valid RSASSA_PKCS1_V1_5_SHA256 (id c)) sim_sss kRsaKeyId [9] sim_provisioned =
      (Inr True, sim_provisioned\<lparr>sim_seed := 4\<rparr>)"
    by (simp add: VerifyBinding_def RsaKey_Open_def RsaKey_Sign_def RsaKey_new_def KeyObject_Open_def Let_def
        sim_sss_def sim_key_def sim_provisioned_def sim_empty_def sim_sha256_def sim_valid_def filled_eq
        upt_conv_Cons)
  from verify_binding_of_key [OF sim_rsa.signing_element_axioms this refl] show ?thesis .
qed

end
