(* ===== verification/KeyFile.thy ===== *)
theory KeyFile
  imports SeCore HostKv
begin

section \<open>KeyFile: the file of the SCP03 keys\<close>

text \<open>
  \<open>ports/se05x/scp03_keyfile.cpp\<close>. Reading keeps the line buffer of \<open>FindKey\<close> as it is in the
  source: \<open>fgets\<close> overwrites a prefix of it and leaves the rest, and the digits are read at fixed
  offsets, so that what an earlier line left behind can be seen; \<open>None\<close> is a read with no zero in
  the buffer to stop at. Writing answers, beside its status, every state of the file system.
\<close>

subsection \<open>Reading\<close>

definition is_blank :: "char \<Rightarrow> bool" where
  "is_blank c = (c = CHR '' '' \<or> c = CHR 0x09)"

definition is_cspace :: "char \<Rightarrow> bool" where
  "is_cspace c = (c \<in> {CHR '' '', CHR 0x09, CHR 0x0A, CHR 0x0B, CHR 0x0C, CHR 0x0D})"

definition hex_val :: "char \<Rightarrow> nat option" where
  "hex_val c =
     (let n = of_char c :: nat in
      if 48 \<le> n \<and> n \<le> 57 then Some (n - 48)
      else if 97 \<le> n \<and> n \<le> 102 then Some (n - 87)
      else if 65 \<le> n \<and> n \<le> 70 then Some (n - 55)
      else None)"

text \<open>
  \<open>sscanf(s, "%02x", &b)\<close>: blanks are skipped, then at most two characters form a number, the first
  of which may be a sign; \<open>None\<close> is an answer other than 1. A lone \<open>0x\<close> is no number.
\<close>

definition scan_hex2 :: "string \<Rightarrow> u8 option" where
  "scan_hex2 s =
     (case dropWhile is_cspace s of
        [] \<Rightarrow> None
      | c # cs \<Rightarrow>
          if c = CHR ''-'' \<or> c = CHR ''+'' then
            (case cs of
               [] \<Rightarrow> None
             | d # _ \<Rightarrow>
                 (case hex_val d of
                    None \<Rightarrow> None
                  | Some v \<Rightarrow> Some (if c = CHR ''-'' then - word_of_nat v else word_of_nat v)))
          else
            (case hex_val c of
               None \<Rightarrow> None
             | Some v \<Rightarrow>
                 (case cs of
                    [] \<Rightarrow> Some (word_of_nat v)
                  | d # _ \<Rightarrow>
                      if v = 0 \<and> (d = CHR ''x'' \<or> d = CHR ''X'') then None
                      else
                        (case hex_val d of
                           None \<Rightarrow> Some (word_of_nat v)
                         | Some v' \<Rightarrow> Some (word_of_nat (16 * v + v'))))))"

text \<open>The string that starts at a position of the buffer.\<close>

definition c_str :: "string \<Rightarrow> nat \<Rightarrow> string option" where
  "c_str buf p =
     (if NUL \<in> set (drop p buf) then Some (takeWhile (\<lambda>c. c \<noteq> NUL) (drop p buf)) else None)"

text \<open>\<open>Some None\<close> is the answer \<open>false\<close>.\<close>

fun Parse16_loop :: "string \<Rightarrow> nat \<Rightarrow> nat list \<Rightarrow> bytes \<Rightarrow> bytes option option" where
  "Parse16_loop buf p [] out = Some (Some out)"
| "Parse16_loop buf p (i # is) out =
     (case c_str buf (p + i * 2) of
        None \<Rightarrow> None
      | Some s \<Rightarrow>
          (case scan_hex2 s of
             None \<Rightarrow> Some None
           | Some b \<Rightarrow> Parse16_loop buf p is (out @ [b])))"

definition Parse16 :: "string \<Rightarrow> nat \<Rightarrow> bytes option option" where
  "Parse16 buf p = Parse16_loop buf p [0..<16] []"

text \<open>\<open>fgets\<close>: up to 255 characters, through the first newline.\<close>

fun line_of :: "nat \<Rightarrow> string \<Rightarrow> string" where
  "line_of 0 s = []"
| "line_of (Suc n) [] = []"
| "line_of (Suc n) (c # s) = (if c = CHR 0x0A then [c] else c # line_of n s)"

definition fgets :: "string \<Rightarrow> string \<Rightarrow> string \<times> string" where
  "fgets buf s = (let l = line_of 255 s in (memcpy buf 0 (l @ [NUL]), drop (length l) s))"

text \<open>\<open>while (*p == ' ' || *p == '\t') ++p;\<close>\<close>

definition skip_blanks :: "string \<Rightarrow> nat \<Rightarrow> nat" where
  "skip_blanks buf p = p + length (takeWhile is_blank (drop p buf))"

definition char_at :: "string \<Rightarrow> nat \<Rightarrow> char" where
  "char_at buf p = (if p < length buf then buf ! p else NUL)"

text \<open>\<open>strncmp(p, tag, tag_len) == 0\<close> for a tag without zeros.\<close>

definition has_tag :: "string \<Rightarrow> nat \<Rightarrow> string \<Rightarrow> bool" where
  "has_tag buf p tag = is_prefix tag (drop p buf)"

lemma length_line_of: "s \<noteq> [] \<Longrightarrow> n \<noteq> 0 \<Longrightarrow> 0 < length (line_of n s)"
  by (cases n; cases s) auto

function FindKey_loop :: "string \<Rightarrow> string \<Rightarrow> string \<Rightarrow> bytes option option" where
  "FindKey_loop tag buf s =
     (if s = [] then Some None
      else
        (case fgets buf s of (buf', s') \<Rightarrow>
           let p = skip_blanks buf' 0 in
           if \<not> has_tag buf' p tag \<or> char_at buf' (p + length tag) \<noteq> CHR '' ''
           then FindKey_loop tag buf' s'
           else Parse16 buf' (skip_blanks buf' (p + length tag + 1))))"
  by pat_completeness auto
termination
proof (relation "measure (\<lambda>(_, _, s). length s)", goal_cases)
  case (2 tag buf s x xa y)
  have "length (line_of 255 s) > 0" using 2(1) by (intro length_line_of) auto
  moreover have "length s > 0" using 2(1) by simp
  ultimately have "length (drop (length (line_of 255 s)) s) < length s"
    unfolding length_drop by (rule diff_less)
  with 2 show ?case by (simp add: fgets_def Let_def del: line_of.simps)
qed simp

declare FindKey_loop.simps [simp del]

text \<open>\<open>junk\<close> is what the uninitialised line buffer holds.\<close>

definition FindKey :: "string \<Rightarrow> fs \<Rightarrow> string \<Rightarrow> string \<Rightarrow> bytes option option" where
  "FindKey junk fs path tag =
     (case fs path of
        None \<Rightarrow> Some None
      | Some content \<Rightarrow> FindKey_loop tag junk (chars_of content))"

definition ReadDek :: "string \<Rightarrow> fs \<Rightarrow> string \<Rightarrow> bytes Result option" where
  "ReadDek junk fs path =
     (case FindKey junk fs path ''DEK'' of
        None \<Rightarrow> None
      | Some None \<Rightarrow> Some (SeFail kReadFailed ''SCP03 key file: DEK line missing or malformed'')
      | Some (Some dek) \<Rightarrow> Some (Inr dek))"

text \<open>The three conditions are evaluated in order; a failing one ends the expression.\<close>

definition keyfile_Read :: "string \<Rightarrow> fs \<Rightarrow> string \<Rightarrow> Scp03KeySet Result option" where
  "keyfile_Read junk fs path =
     (let bad = Some (SeFail kReadFailed ''SCP03 key file: missing or malformed ENC/MAC/DEK line'') in
      (case FindKey junk fs path ''ENC'' of
         None \<Rightarrow> None
       | Some None \<Rightarrow> bad
       | Some (Some enc) \<Rightarrow>
           (case FindKey junk fs path ''MAC'' of
              None \<Rightarrow> None
            | Some None \<Rightarrow> bad
            | Some (Some mac) \<Rightarrow>
                (case FindKey junk fs path ''DEK'' of
                   None \<Rightarrow> None
                 | Some None \<Rightarrow> bad
                 | Some (Some dek) \<Rightarrow> Some (Inr \<lparr>ks_enc = enc, ks_mac = mac, ks_dek = dek\<rparr>)))))"

subsection \<open>Writing\<close>

definition hex_digit :: "nat \<Rightarrow> char" where
  "hex_digit n = char_of (if n < 10 then n + 48 else n + 87)"

text \<open>\<open>fprintf(fp, "%02x", b)\<close>\<close>

definition hex_byte :: "u8 \<Rightarrow> string" where
  "hex_byte b = [hex_digit (unat b div 16), hex_digit (unat b mod 16)]"

definition key_line :: "string \<Rightarrow> bytes \<Rightarrow> string" where
  "key_line tag k = tag @ '' '' @ concat (map hex_byte (take 16 k)) @ [CHR 0x0A]"

definition keyfile_text :: "Scp03KeySet \<Rightarrow> string" where
  "keyfile_text ks = key_line ''ENC'' (ks_enc ks) @ key_line ''MAC'' (ks_mac ks) @ key_line ''DEK'' (ks_dek ks)"

text \<open>
  What the calls do: whether the temporary file opens, whether every \<open>fprintf\<close> succeeds, how many
  bytes have reached the file when it is closed (the result of \<open>fclose\<close> is not looked at), and
  whether the two renamings succeed.
\<close>

record KeyfileEnv =
  kf_open :: bool
  kf_print :: bool
  kf_flushed :: nat
  kf_backup :: bool
  kf_rename :: bool

definition keyfile_Write :: "KeyfileEnv \<Rightarrow> string \<Rightarrow> Scp03KeySet \<Rightarrow> fs \<Rightarrow> Status \<times> fs list" where
  "keyfile_Write env path keys fs =
     (let tmp = path @ ''.tmp''; bak = path @ ''.bak'' in
      if length tmp \<ge> 256 then (SeFail kWriteFailed ''scp03_keyfile: path too long'', [fs])
      else if \<not> kf_open env
      then (SeFail kWriteFailed ''scp03_keyfile: cannot open tmp file for writing'', [fs])
      else
        let fs1 = fs(tmp \<mapsto> []);
            fs2 = fs1(tmp \<mapsto> take (kf_flushed env) (bytes_of (keyfile_text keys))) in
        if \<not> kf_print env
        then (SeFail kWriteFailed ''scp03_keyfile: write error'', [fs, fs1, fs2, fs2(tmp := None)])
        else
          let backup = (length bak < 256);
              fs3 = (if backup then fs2(bak := None) else fs2);
              fs4 = (if backup \<and> kf_backup env \<and> fs3 path \<noteq> None
                     then fs3(bak := fs3 path, path := None) else fs3) in
          if \<not> kf_rename env
          then (SeFail kWriteFailed ''scp03_keyfile: rename tmp -> path failed'',
                [fs, fs1, fs2, fs3, fs4, fs4(tmp := None)])
          else (Ok, [fs, fs1, fs2, fs3, fs4, fs4(path := fs4 tmp, tmp := None)]))"

subsection \<open>Digits\<close>

lemma hex_digit_val: "n < 16 \<Longrightarrow> hex_val (hex_digit n) = Some n"
  by (auto simp: hex_digit_def hex_val_def Let_def)

lemma of_char_hex_digit: "n < 16 \<Longrightarrow> of_char (hex_digit n) = (if n < 10 then n + 48 else n + 87 :: nat)"
  by (auto simp: hex_digit_def)

lemma hex_digit_plain:
  assumes "n < 16"
  shows "\<not> is_cspace (hex_digit n)" "hex_digit n \<noteq> CHR ''-''" "hex_digit n \<noteq> CHR ''+''"
    "hex_digit n \<noteq> CHR ''x''" "hex_digit n \<noteq> CHR ''X''" "hex_digit n \<noteq> NUL"
    "\<not> is_blank (hex_digit n)" "hex_digit n \<noteq> CHR 0x0A"
proof -
  have "hex_digit n \<noteq> c" if "of_char c < (48 :: nat) \<or> of_char c > (102 :: nat) \<or>
      (57 < (of_char c :: nat) \<and> (of_char c :: nat) < 97)" for c
    using that of_char_hex_digit [OF assms] assms by (auto split: if_splits)
  then show "\<not> is_cspace (hex_digit n)" "hex_digit n \<noteq> CHR ''-''" "hex_digit n \<noteq> CHR ''+''"
    "hex_digit n \<noteq> CHR ''x''" "hex_digit n \<noteq> CHR ''X''" "hex_digit n \<noteq> NUL"
    "\<not> is_blank (hex_digit n)" "hex_digit n \<noteq> CHR 0x0A"
    by (simp_all add: is_cspace_def is_blank_def NUL_def)
qed

lemmas nibble_digits = hex_digit_plain [OF nibbles(1)] hex_digit_plain [OF nibbles(2)]

lemma scan_hex2_byte: "scan_hex2 (hex_byte b @ s) = Some b"
proof -
  have "16 * (unat b div 16) + unat b mod 16 = unat b" by simp
  then show ?thesis
    using nibble_digits [of b] nibbles [of b]
    by (simp add: scan_hex2_def hex_byte_def hex_digit_val)
qed

lemma length_hex_byte [simp]: "length (hex_byte b) = 2"
  by (simp add: hex_byte_def)

lemma hex_byte_no_NUL: "NUL \<notin> set (hex_byte b)"
  using nibble_digits(6,14) [of b] by (auto simp: hex_byte_def)

text \<open>Sixteen bytes in digits, with a zero somewhere behind them, are read back.\<close>

lemma Parse16_loop_hex:
  assumes "drop (p + k * 2) buf = concat (map hex_byte bs) @ rest" "NUL \<in> set rest"
    and "length bs = n"
  shows "Parse16_loop buf p [k..<k + n] out = Some (Some (out @ bs))"
  using assms
proof (induction bs arbitrary: k n out)
  case Nil
  then show ?case by simp
next
  case (Cons b bs)
  have "takeWhile (\<lambda>c. c \<noteq> NUL) (hex_byte b @ concat (map hex_byte bs) @ rest) =
      hex_byte b @ takeWhile (\<lambda>c. c \<noteq> NUL) (concat (map hex_byte bs) @ rest)"
    by (rule takeWhile_append2) (use hex_byte_no_NUL in auto)
  then have "c_str buf (p + k * 2) =
      Some (hex_byte b @ takeWhile (\<lambda>c. c \<noteq> NUL) (concat (map hex_byte bs) @ rest))"
    using Cons.prems(1,2) by (simp add: c_str_def)
  moreover have "drop (p + Suc k * 2) buf = concat (map hex_byte bs) @ rest"
  proof -
    have "drop (p + Suc k * 2) buf = drop 2 (drop (p + k * 2) buf)" by (simp add: add.commute)
    also have "\<dots> = concat (map hex_byte bs) @ rest" unfolding Cons.prems(1) by simp
    finally show ?thesis .
  qed
  moreover have "[k..<k + n] = k # [Suc k..<Suc k + length bs]"
    using Cons.prems(3) by (auto simp del: upt_Suc simp add: upt_conv_Cons)
  ultimately show ?case
    using Cons.IH [of "Suc k" "length bs" "out @ [b]"] Cons.prems(2) by (simp add: scan_hex2_byte)
qed

lemma Parse16_hex:
  assumes "drop p buf = concat (map hex_byte bs) @ rest" "NUL \<in> set rest" "length bs = 16"
  shows "Parse16 buf p = Some (Some bs)"
  using Parse16_loop_hex [of p 0 buf bs rest 16 "[]"] assms by (simp add: Parse16_def)

subsection \<open>Lines\<close>

definition plain_tag :: "string \<Rightarrow> bool" where
  "plain_tag t \<longleftrightarrow> length t = 3 \<and> list_all (\<lambda>c. \<not> is_blank c \<and> c \<noteq> NUL \<and> c \<noteq> CHR 0x0A) t"

lemma line_of_newline:
  "CHR 0x0A \<notin> set l \<Longrightarrow> length l < n \<Longrightarrow> line_of n (l @ CHR 0x0A # s) = l @ [CHR 0x0A]"
  by (induction l arbitrary: n) (case_tac n; auto)+

lemma line_of_short: "CHR 0x0A \<notin> set l \<Longrightarrow> length l \<le> n \<Longrightarrow> line_of n l = l"
  by (induction l arbitrary: n) (case_tac n; auto)+

definition hex_digits :: "bytes \<Rightarrow> string" where
  "hex_digits k = concat (map hex_byte k)"

lemma length_hex_digits [simp]: "length (hex_digits k) = 2 * length k"
  by (induction k) (simp_all add: hex_digits_def hex_byte_def)

lemma hex_digits_plain: "c \<in> set (hex_digits k) \<Longrightarrow> \<not> is_blank c \<and> c \<noteq> NUL \<and> c \<noteq> CHR 0x0A"
  using nibble_digits by (auto simp: hex_digits_def hex_byte_def)

lemma key_line_16: "length k = 16 \<Longrightarrow> key_line tag k = (tag @ '' '' @ hex_digits k) @ [CHR 0x0A]"
  by (simp add: key_line_def hex_digits_def)

lemma fgets_key_line:
  assumes "plain_tag tag" "length k = 16"
  shows "fgets buf (key_line tag k @ s) = (memcpy buf 0 (key_line tag k @ [NUL]), s)"
proof -
  have "CHR 0x0A \<notin> set (tag @ '' '' @ hex_digits k)"
    using assms(1) hex_digits_plain by (auto simp: plain_tag_def list_all_iff)
  moreover have "length (tag @ '' '' @ hex_digits k) < 255"
    using assms by (simp add: plain_tag_def)
  ultimately have "line_of 255 (key_line tag k @ s) = key_line tag k"
    using line_of_newline [of "tag @ '' '' @ hex_digits k" 255 s] by (simp add: key_line_16 assms(2))
  then show ?thesis by (simp add: fgets_def)
qed

text \<open>A buffer that starts with a line: the scan of \<open>FindKey\<close>.\<close>

lemma skip_none: "drop p buf = c # s \<Longrightarrow> \<not> is_blank c \<Longrightarrow> skip_blanks buf p = p"
  by (simp add: skip_blanks_def)

lemma plain_tag_cases:
  assumes "plain_tag t"
  obtains c1 c2 c3 where "t = [c1, c2, c3]" "\<not> is_blank c1"
  using assms by (auto simp: plain_tag_def length_Suc_conv numeral_3_eq_3)

lemma FindKey_key_line:
  assumes tags: "plain_tag tag" "plain_tag tag'" and k: "length k = 16" and b: "length buf = 256"
  shows "FindKey_loop tag buf (key_line tag' k @ s) =
    (if tag' = tag then Some (Some k)
     else FindKey_loop tag (memcpy buf 0 (key_line tag' k @ [NUL])) s)"
proof -
  let ?buf = "memcpy buf 0 (key_line tag' k @ [NUL])"
  obtain c1 c2 c3 where t: "tag' = [c1, c2, c3]" "\<not> is_blank c1" by (rule plain_tag_cases [OF tags(2)])
  obtain d1 d2 d3 where u: "tag = [d1, d2, d3]" by (rule plain_tag_cases [OF tags(1)])
  have buf: "?buf = [c1, c2, c3, CHR '' ''] @ hex_digits k @ CHR 0x0A # NUL # drop 38 buf"
    using t k by (simp add: memcpy_def key_line_16)
  obtain x xs where hx: "hex_digits k = x # xs" "\<not> is_blank x"
    using k hex_digits_plain [of _ k] by (cases "hex_digits k") (auto simp: length_0_conv [symmetric] simp del: length_0_conv)
  have skip: "skip_blanks ?buf 0 = 0" "skip_blanks ?buf (0 + length tag + 1) = 4"
    using t hx buf u by (simp_all add: skip_blanks_def)
  have parse: "Parse16 ?buf 4 = Some (Some k)"
    using buf k by (intro Parse16_hex [where rest = "CHR 0x0A # NUL # drop 38 buf"])
      (simp_all add: hex_digits_def)
  have tag_test: "has_tag ?buf 0 tag \<longleftrightarrow> tag' = tag"
    using buf t u by (auto simp: has_tag_def)
  have at3: "char_at ?buf (0 + length tag) = CHR '' ''"
    using buf u by (simp add: char_at_def)
  have ne: "key_line tag' k @ s \<noteq> []" by (simp add: key_line_def)
  show ?thesis
    using ne skip parse tag_test at3
    by (simp only: FindKey_loop.simps [of tag buf] fgets_key_line [OF tags(2) k] if_False case_prod_conv
        Let_def) simp
qed

lemma FindKey_missing: "FindKey_loop tag buf [] = Some None"
  by (simp add: FindKey_loop.simps)

subsection \<open>Round trip\<close>

lemma plain_tags [simp]: "plain_tag ''ENC''" "plain_tag ''MAC''" "plain_tag ''DEK''"
  by (simp_all add: plain_tag_def is_blank_def NUL_def)

lemma length_key_line: "length k = 16 \<Longrightarrow> plain_tag tag \<Longrightarrow> length (key_line tag k) = 37"
  by (simp add: key_line_16 plain_tag_def)

lemma length_keyfile_text: "keys_wf ks \<Longrightarrow> length (keyfile_text ks) = 111"
  by (simp add: keyfile_text_def length_key_line keys_wf_def)

lemma length_line_buffer:
  "plain_tag tag \<Longrightarrow> length k = 16 \<Longrightarrow> length buf = 256 \<Longrightarrow>
   length (memcpy buf 0 (key_line tag k @ [NUL])) = 256"
  by (simp add: memcpy_def length_key_line)

lemma FindKey_text:
  assumes "keys_wf ks" "length buf = 256"
  shows "FindKey_loop ''ENC'' buf (keyfile_text ks) = Some (Some (ks_enc ks))"
    and "FindKey_loop ''MAC'' buf (keyfile_text ks) = Some (Some (ks_mac ks))"
    and "FindKey_loop ''DEK'' buf (keyfile_text ks) = Some (Some (ks_dek ks))"
proof -
  have k: "length (ks_enc ks) = 16" "length (ks_mac ks) = 16" "length (ks_dek ks) = 16"
    using assms(1) by (simp_all add: keys_wf_def)
  note step = FindKey_key_line [OF plain_tags(1,1) k(1)] FindKey_key_line [OF plain_tags(2,1) k(1)]
    FindKey_key_line [OF plain_tags(3,1) k(1)] FindKey_key_line [OF plain_tags(2,2) k(2)]
    FindKey_key_line [OF plain_tags(3,2) k(2)]
    FindKey_key_line [OF plain_tags(3,3) k(3), where s = "[]", simplified]
  show "FindKey_loop ''ENC'' buf (keyfile_text ks) = Some (Some (ks_enc ks))"
    "FindKey_loop ''MAC'' buf (keyfile_text ks) = Some (Some (ks_mac ks))"
    "FindKey_loop ''DEK'' buf (keyfile_text ks) = Some (Some (ks_dek ks))"
    using assms(2) k by (simp_all add: keyfile_text_def step length_line_buffer)
qed

lemma keyfile_Read_text:
  assumes "keys_wf ks" "length junk = 256" "f path = Some (bytes_of (keyfile_text ks))"
  shows "keyfile_Read junk f path = Some (Inr ks)" "ReadDek junk f path = Some (Inr (ks_dek ks))"
  using assms by (simp_all add: keyfile_Read_def ReadDek_def FindKey_def FindKey_text)

lemma keyfile_Write_done:
  assumes "keys_wf keys" "length path + 4 < 256" "length junk = 256"
    and "kf_open env" "kf_print env" "kf_rename env" "111 \<le> kf_flushed env"
  shows "\<exists>tr. keyfile_Write env path keys fs = (Ok, tr) \<and>
    keyfile_Read junk (last tr) path = Some (Inr keys) \<and>
    ReadDek junk (last tr) path = Some (Inr (ks_dek keys))"
proof (cases "keyfile_Write env path keys fs")
  case (Pair st tr)
  have "take (kf_flushed env) (bytes_of (keyfile_text keys)) = bytes_of (keyfile_text keys)"
    using assms(7) length_keyfile_text [OF assms(1)] by simp
  then have "st = Ok" "last tr path = Some (bytes_of (keyfile_text keys))"
    using Pair assms by (auto simp: keyfile_Write_def Let_def split: if_splits)
  then show ?thesis using Pair keyfile_Read_text [OF assms(1,3)] by auto
qed

text \<open>
  C8: when the calls of \<open>Write\<close> succeed and what was printed reaches the file, \<open>Write\<close> answers \<open>Ok\<close>,
  and both \<open>Read\<close> and \<open>ReadDek\<close> give back the keys from the file it leaves, whatever the line buffer
  held before.
\<close>

theorem keyfile_write_read:
  assumes "keys_wf keys" "length path + 4 < 256" "length junk = 256"
    and "kf_open env" "kf_print env" "kf_rename env" "111 \<le> kf_flushed env"
  shows "\<exists>tr. keyfile_Write env path keys fs = (Ok, tr) \<and>
    keyfile_Read junk (last tr) path = Some (Inr keys) \<and>
    ReadDek junk (last tr) path = Some (Inr (ks_dek keys))"
  by (rule keyfile_Write_done [OF assms])

definition sample_keys :: Scp03KeySet where
  "sample_keys = \<lparr>ks_enc = replicate 16 0x40, ks_mac = replicate 16 0x41, ks_dek = replicate 16 0x42\<rparr>"

definition calm_env :: KeyfileEnv where
  "calm_env = \<lparr>kf_open = True, kf_print = True, kf_flushed = 111, kf_backup = True, kf_rename = True\<rparr>"

lemma sample_keys_wf [simp]: "keys_wf sample_keys"
  by (simp add: sample_keys_def keys_wf_def)

theorem keyfile_write_read_witness:
  "\<exists>tr. keyfile_Write calm_env ''k'' sample_keys (\<lambda>_. None) = (Ok, tr) \<and>
    keyfile_Read (replicate 256 NUL) (last tr) ''k'' = Some (Inr sample_keys) \<and>
    ReadDek (replicate 256 NUL) (last tr) ''k'' = Some (Inr (ks_dek sample_keys))"
  by (rule keyfile_write_read) (simp_all add: calm_env_def)

subsection \<open>Crashes\<close>







text \<open>There always is a moment at which a key file that was there is not: a crash then leaves \<open>.bak\<close> only.\<close>

lemma keyfile_window:
  assumes "kf_open env" "kf_print env" "kf_backup env" "length path + 4 < 256" "fs path = Some old"
  shows "\<exists>f \<in> set (snd (keyfile_Write env path keys fs)). f path = None \<and> f (path @ ''.bak'') = Some old"
  using assms by (simp add: keyfile_Write_def Let_def)

subsection \<open>A file that was cut\<close>

text \<open>The first digit of the DEK is the last character of the file.\<close>

definition cut_text :: "Scp03KeySet \<Rightarrow> string" where
  "cut_text ks = key_line ''ENC'' (ks_enc ks) @ key_line ''MAC'' (ks_mac ks) @
     ''DEK '' @ [hex_digit (unat (hd (ks_dek ks)) div 16)]"

lemma scan_hex2_one: "n < 16 \<Longrightarrow> scan_hex2 [hex_digit n] = Some (word_of_nat n)"
  using hex_digit_plain [of n] by (simp add: scan_hex2_def hex_digit_val)

lemma FindKey_found:
  assumes "s \<noteq> []" "fgets buf s = (b, s')" "skip_blanks b 0 = 0" "has_tag b 0 tag"
    and "char_at b (0 + length tag) = CHR '' ''" "skip_blanks b (0 + length tag + 1) = q"
  shows "FindKey_loop tag buf s = Parse16 b q"
  using assms by (simp add: FindKey_loop.simps [of tag buf s])

lemma FindKey_cut:
  assumes m: "length mac = 16" and b: "length buf = 256" and n: "n < 16"
  shows "FindKey_loop ''DEK'' (memcpy buf 0 (key_line ''MAC'' mac @ [NUL])) (''DEK '' @ [hex_digit n]) =
    Some (Some (word_of_nat n # tl mac))"
proof -
  obtain x xs where mac: "mac = x # xs" "length xs = 15" using m by (cases mac) auto
  let ?old = "memcpy buf 0 (key_line ''MAC'' mac @ [NUL])"
  let ?buf = "memcpy ?old 0 (''DEK '' @ [hex_digit n, NUL])"
  have old: "?old = ''MAC '' @ hex_byte x @ hex_digits xs @ CHR 0x0A # NUL # drop 38 buf"
    using m mac by (simp add: memcpy_def key_line_16) (simp add: hex_digits_def)
  have buf: "?buf = ''DEK '' @ [hex_digit n, NUL] @ hex_digits xs @ CHR 0x0A # NUL # drop 38 buf"
    unfolding old by (simp add: memcpy_def hex_byte_def)
  have "line_of 255 (''DEK '' @ [hex_digit n]) = ''DEK '' @ [hex_digit n]"
    by (rule line_of_short) (use hex_digit_plain(8) [OF n] in auto)
  then have fgets: "fgets ?old (''DEK '' @ [hex_digit n]) = (?buf, [])"
    unfolding fgets_def by simp
  have skip: "skip_blanks ?buf 0 = 0" "skip_blanks ?buf (0 + length ''DEK'' + 1) = 4"
    unfolding buf skip_blanks_def using hex_digit_plain(7) [OF n] by (simp_all add: is_blank_def)
  have "c_str ?buf 4 = Some [hex_digit n]"
    unfolding buf c_str_def using hex_digit_plain(6) [OF n] by simp
  moreover have "Parse16_loop ?buf 4 [1..<1 + 15] [word_of_nat n] = Some (Some ([word_of_nat n] @ xs))"
    by (rule Parse16_loop_hex [where rest = "CHR 0x0A # NUL # drop 38 buf"])
      (unfold buf, use mac in \<open>simp_all add: hex_digits_def\<close>)
  moreover have "[0..<16] = 0 # [1..<1 + 15]" by (simp add: upt_conv_Cons)
  ultimately have "Parse16 ?buf 4 = Some (Some (word_of_nat n # xs))"
    by (simp add: Parse16_def scan_hex2_one [OF n])
  moreover have "has_tag ?buf 0 ''DEK''" unfolding buf has_tag_def by simp
  moreover have "char_at ?buf (0 + length ''DEK'') = CHR '' ''" unfolding buf char_at_def by simp
  ultimately show ?thesis
    using FindKey_found [OF _ fgets skip(1) _ _ skip(2)] mac(1) by simp
qed

text \<open>
  A file that ends after the first digit of the DEK line is not refused: \<open>Read\<close> answers a key
  whose first byte is that digit and whose other fifteen bytes are those of the MAC key, which the
  line buffer still holds from the line before.
\<close>

theorem keyfile_cut_accepted:
  assumes "keys_wf ks" "length junk = 256" "f path = Some (bytes_of (cut_text ks))"
  shows "keyfile_Read junk f path =
    Some (Inr (ks\<lparr>ks_dek := word_of_nat (unat (hd (ks_dek ks)) div 16) # tl (ks_mac ks)\<rparr>))"
proof -
  have k: "length (ks_enc ks) = 16" "length (ks_mac ks) = 16"
    using assms(1) by (simp_all add: keys_wf_def)
  note step = FindKey_key_line [OF plain_tags(1,1) k(1)] FindKey_key_line [OF plain_tags(2,1) k(1)]
    FindKey_key_line [OF plain_tags(3,1) k(1)] FindKey_key_line [OF plain_tags(2,2) k(2)]
    FindKey_key_line [OF plain_tags(3,2) k(2)] FindKey_cut [OF k(2) _ nibbles(1), simplified]
  show ?thesis
    using assms(2,3) k
    by (simp add: keyfile_Read_def FindKey_def cut_text_def step length_line_buffer)
qed

theorem keyfile_cut_accepted_witness:
  "keyfile_Read (replicate 256 NUL) [''k'' \<mapsto> bytes_of (cut_text sample_keys)] ''k'' =
   Some (Inr (sample_keys\<lparr>ks_dek := 4 # replicate 15 0x41\<rparr>))"
proof -
  have "word_of_nat (unat (hd (ks_dek sample_keys)) div 16) # tl (ks_mac sample_keys) = 4 # replicate 15 0x41"
    by (simp add: sample_keys_def)
  then show ?thesis
    using keyfile_cut_accepted [OF sample_keys_wf, of "replicate 256 NUL"
        "[''k'' \<mapsto> bytes_of (cut_text sample_keys)]" "''k''"]
    by simp
qed

end
