(* ===== verification/Scp03.thy ===== *)
theory Scp03
  imports KeyFile
begin

section \<open>Scp03: connecting to the element and rotating its keys\<close>

text \<open>
  \<open>ports/se05x/se_connection.cpp\<close> and \<open>scp03.cpp\<close>. The calls of the middleware are the records
  \<open>Boot\<close> and \<open>Scp\<close> over a state \<open>'w\<close> of the host's key store, the session and the card; \<open>bool\<close> is
  whether the status is \<open>kStatus_SSS_Success\<close>. Host-side contexts that are freed at the end of a
  function have no effect after it and are not modelled.
\<close>

lemma result_pair: obtains a b c where "x = ((a, b), c)"
  by (metis prod.exhaust)

subsection \<open>Connecting\<close>

text \<open>
  \<open>boot_set_keys\<close> are the three \<open>sss_host_key_store_set_key\<close> whose results the code drops, and the
  Booleans of \<open>boot_session_open\<close> and \<open>boot_open\<close> whether the applet is not to be selected.
\<close>

record 'w Boot =
  boot_prepare_host :: "bool \<Rightarrow> string option \<Rightarrow> 'w \<Rightarrow> bool \<times> 'w"
  boot_set_keys :: "Scp03KeySet \<Rightarrow> 'w \<Rightarrow> 'w"
  boot_session_open :: "bool \<Rightarrow> string option \<Rightarrow> 'w \<Rightarrow> bool \<times> 'w"
  boot_open :: "bool \<Rightarrow> string option \<Rightarrow> 'w \<Rightarrow> bool \<times> 'w"
  boot_store_init :: "'w \<Rightarrow> bool \<times> 'w"
  boot_session_close :: "'w \<Rightarrow> 'w"

definition kDefaultKeys :: Scp03KeySet where
  "kDefaultKeys =
     \<lparr>ks_enc = [0xBF, 0xC2, 0xDB, 0xE1, 0x82, 0x8E, 0x03, 0x5D, 0x3E, 0x7F, 0xA3, 0x6B, 0x90, 0x2A, 0x05, 0xC6],
      ks_mac = [0xBE, 0xF8, 0x5B, 0xD7, 0xBA, 0x04, 0x97, 0xD6, 0x28, 0x78, 0x1C, 0xE4, 0x7B, 0x18, 0x8C, 0x96],
      ks_dek = [0xD8, 0x73, 0xF3, 0x16, 0xBE, 0x29, 0x7F, 0x2F, 0xC9, 0xC0, 0xE4, 0x5F, 0x54, 0x71, 0x06, 0x99]\<rparr>"

text \<open>The destructor, which also runs when \<open>Open\<close> gives up after the session was opened.\<close>

definition Connection_close :: "'w Boot \<Rightarrow> bool \<Rightarrow> 'w \<Rightarrow> 'w" where
  "Connection_close b opened w = (if opened then boot_session_close b w else w)"

text \<open>\<open>Open\<close> of the build with Platform SCP03.\<close>

definition Connection_Open_keys :: "'w Boot \<Rightarrow> string option \<Rightarrow> Scp03KeySet \<Rightarrow> bool \<Rightarrow> 'w \<Rightarrow> Status \<times> 'w" where
  "Connection_Open_keys b port keys select_applet w =
     (let skip = \<not> select_applet in
      case boot_prepare_host b skip port w of (ok, w1) \<Rightarrow>
        if \<not> ok then (SeFail kOpenFailed ''prepare_host failed'', Connection_close b False w1)
        else
          let w2 = boot_set_keys b keys w1 in
          (case boot_session_open b skip port w2 of (ok', w3) \<Rightarrow>
             if \<not> ok' then (SeFail kOpenFailed ''sss_session_open failed'', Connection_close b False w3)
             else
               (case boot_store_init b w3 of (ok'', w4) \<Rightarrow>
                  if \<not> ok''
                  then (SeFail kStoreFailed ''ex_sss_key_store_and_object_init failed'', Connection_close b True w4)
                  else (Ok, w4))))"

definition Connection_Open :: "'w Boot \<Rightarrow> string option \<Rightarrow> bool \<Rightarrow> 'w \<Rightarrow> Status \<times> 'w" where
  "Connection_Open b port select_applet w = Connection_Open_keys b port kDefaultKeys select_applet w"

text \<open>The two functions of the simulator build.\<close>

definition Connection_Open_sim :: "'w Boot \<Rightarrow> string option \<Rightarrow> bool \<Rightarrow> 'w \<Rightarrow> Status \<times> 'w" where
  "Connection_Open_sim b port select_applet w =
     (case boot_open b (\<not> select_applet) port w of (ok, w1) \<Rightarrow>
        if \<not> ok then (SeFail kOpenFailed ''ex_sss_boot_open failed'', Connection_close b False w1)
        else
          (case boot_store_init b w1 of (ok', w2) \<Rightarrow>
             if \<not> ok'
             then (SeFail kStoreFailed ''ex_sss_key_store_and_object_init failed'', Connection_close b True w2)
             else (Ok, w2)))"

definition Connection_Open_keys_sim :: "'w Boot \<Rightarrow> string option \<Rightarrow> Scp03KeySet \<Rightarrow> bool \<Rightarrow> 'w \<Rightarrow> Status \<times> 'w" where
  "Connection_Open_keys_sim b port keys select_applet w = Connection_Open_sim b port select_applet w"

subsection \<open>The calls of a rotation\<close>

datatype HostKey = Scratch | StaticDek

text \<open>
  A cipher call has the initialisation vector as an argument it may write to: it answers the output
  and the vector afterwards. \<open>scp_security\<close> is \<open>None\<close> when there is no dynamic context.
\<close>

record 'w Scp =
  scp_key_ver :: "'w \<Rightarrow> u8"
  scp_security :: "'w \<Rightarrow> u8 option"
  scp_key_init :: "'w \<Rightarrow> bool \<times> 'w"
  scp_key_allocate :: "u32 \<Rightarrow> nat \<Rightarrow> 'w \<Rightarrow> bool \<times> 'w"
  scp_set_key :: "HostKey \<Rightarrow> bytes \<Rightarrow> 'w \<Rightarrow> bool \<times> 'w"
  scp_get_key :: "HostKey \<Rightarrow> nat \<Rightarrow> 'w \<Rightarrow> (bool \<times> bytes) \<times> 'w"
  scp_symm_init :: "HostKey \<Rightarrow> 'w \<Rightarrow> bool \<times> 'w"
  scp_cipher :: "bytes \<Rightarrow> bytes \<Rightarrow> 'w \<Rightarrow> (bool \<times> bytes \<times> bytes) \<times> 'w"
  scp_txrx :: "bytes \<Rightarrow> bytes \<Rightarrow> nat \<Rightarrow> 'w \<Rightarrow> (nat \<times> bytes) \<times> 'w"

definition kKeyLen :: nat where "kKeyLen = 16"
definition CRYPTO_KEY_CHECK_LEN :: nat where "CRYPTO_KEY_CHECK_LEN = 3"
definition SM_OK :: nat where "SM_OK = 0x9000"

definition SetCurrentDek :: "'w Scp \<Rightarrow> bytes \<Rightarrow> 'w \<Rightarrow> Status \<times> 'w" where
  "SetCurrentDek scp dek w =
     (case scp_set_key scp StaticDek dek w of (ok, w') \<Rightarrow>
        (if \<not> ok then SeFail kKeyFailed ''load current DEK into static ctx failed'' else Ok, w'))"

text \<open>\<open>None\<close> is the read without end of \<open>KeyFile\<close>.\<close>

definition LoadCurrentDek :: "'w Scp \<Rightarrow> string \<Rightarrow> fs \<Rightarrow> string \<Rightarrow> 'w \<Rightarrow> (Status \<times> 'w) option" where
  "LoadCurrentDek scp junk fs path w =
     (case ReadDek junk fs path of
        None \<Rightarrow> None
      | Some (Inl e) \<Rightarrow> Some (Inl e, w)
      | Some (Inr dek) \<Rightarrow> Some (SetCurrentDek scp dek w))"

text \<open>The answer is the pair of \<open>enc_out\<close> and \<open>kcv_out\<close>; each call that fails ends the function.\<close>

definition attempt ::
  "bool \<times> 'w \<Rightarrow> string \<Rightarrow> ('w \<Rightarrow> 'a Result \<times> 'w) \<Rightarrow> 'a Result \<times> 'w" where
  "attempt r msg k = (case r of (ok, w) \<Rightarrow> if \<not> ok then (SeFail kKeyFailed msg, w) else k w)"

definition attempt_out ::
  "(bool \<times> 'b) \<times> 'w \<Rightarrow> string \<Rightarrow> ('b \<Rightarrow> 'w \<Rightarrow> 'a Result \<times> 'w) \<Rightarrow> 'a Result \<times> 'w" where
  "attempt_out r msg k = (case r of ((ok, x), w) \<Rightarrow> if \<not> ok then (SeFail kKeyFailed msg, w) else k x w)"

definition GenKcvAndEncryptKey :: "'w Scp \<Rightarrow> bytes \<Rightarrow> 'w \<Rightarrow> (bytes \<times> bytes) Result \<times> 'w" where
  "GenKcvAndEncryptKey scp plain_key w =
     (let iv = replicate 16 0; ones = replicate kKeyLen 1 in
      attempt (scp_key_init scp w) ''host key_object_init'' (\<lambda>w.
      attempt (scp_key_allocate scp 0x544D5031 kKeyLen w) ''host key_object_allocate_handle'' (\<lambda>w.
      attempt (scp_set_key scp Scratch plain_key w) ''set plain key (KCV)'' (\<lambda>w.
      attempt (scp_symm_init scp Scratch w) ''symm_init (KCV)'' (\<lambda>w.
      attempt_out (scp_cipher scp iv ones w) ''cipher (KCV)'' (\<lambda>(kcv_full, iv) w.
        let kcv = take CRYPTO_KEY_CHECK_LEN kcv_full in
      attempt_out (scp_get_key scp StaticDek kKeyLen w) ''get current DEK'' (\<lambda>dek w.
      attempt (scp_set_key scp Scratch dek w) ''set DEK'' (\<lambda>w.
      attempt (scp_symm_init scp Scratch w) ''symm_init (wrap)'' (\<lambda>w.
      attempt_out (scp_cipher scp iv plain_key w) ''cipher (wrap)'' (\<lambda>(enc, iv) w.
        (Inr (enc, kcv), w)))))))))))"

text \<open>The bytes written at \<open>dst\<close>, and the key check value.\<close>

definition CreateKeyData :: "'w Scp \<Rightarrow> bytes \<Rightarrow> 'w \<Rightarrow> (bytes \<times> bytes) Result \<times> 'w" where
  "CreateKeyData scp key w =
     (case GenKcvAndEncryptKey scp key w of
        (Inl e, w') \<Rightarrow> (Inl e, w')
      | (Inr (enc, kcv), w') \<Rightarrow>
          (Inr ([0x88, word_of_nat (kKeyLen + 1), word_of_nat kKeyLen] @ enc @
                [word_of_nat CRYPTO_KEY_CHECK_LEN] @ kcv, kcv), w'))"

text \<open>The loop over the three keys, with the two buffers up to their lengths.\<close>

fun key_blocks :: "'w Scp \<Rightarrow> bytes list \<Rightarrow> bytes \<Rightarrow> bytes \<Rightarrow> 'w \<Rightarrow> (bytes \<times> bytes) Result \<times> 'w" where
  "key_blocks scp [] cmd expected w = (Inr (cmd, expected), w)"
| "key_blocks scp (k # ks) cmd expected w =
     (case CreateKeyData scp k w of
        (Inl e, w') \<Rightarrow> (Inl e, w')
      | (Inr (block, kcv), w') \<Rightarrow> key_blocks scp ks (cmd @ block) (expected @ kcv) w')"

definition SendPutKey :: "'w Scp \<Rightarrow> Scp03KeySet \<Rightarrow> 'w \<Rightarrow> Status \<times> 'w" where
  "SendPutKey scp new_keys w =
     (let key_ver = scp_key_ver scp w;
          sec_level = (case scp_security scp w of None \<Rightarrow> 0xFF | Some l \<Rightarrow> l) in
      if sec_level \<noteq> 0x33 then (SeFail kKeyFailed ''SCP03 security level insufficient for PUT KEY'', w)
      else
        (case key_blocks scp [ks_enc new_keys, ks_mac new_keys, ks_dek new_keys] [key_ver] [key_ver] w of
           (Inl e, w1) \<Rightarrow> (Inl e, w1)
         | (Inr (cmd, expected), w1) \<Rightarrow>
             (case scp_txrx scp [0x80, 0xD8, key_ver, 0x80 OR 0x01] cmd 64 w1 of
                ((txr, rsp), w2) \<Rightarrow>
                  (if txr \<noteq> SM_OK then SeFail kKeyFailed ''PUT KEY transport failed''
                   else if length rsp < length expected + 2 then SeFail kKeyFailed ''PUT KEY response too short''
                   else
                     let sw = unat (rsp ! (length rsp - 2)) * 256 + unat (rsp ! (length rsp - 1)) in
                     if sw \<noteq> SM_OK then SeFail kKeyFailed ''PUT KEY rejected by SE''
                     else if take (length expected) rsp \<noteq> expected
                     then SeFail kKeyFailed ''PUT KEY key-check-value mismatch''
                     else Ok, w2))))"

subsection \<open>Rotating\<close>

text \<open>
  With a key file: \<open>getenv_path\<close> is the environment's value, and the file system is passed in and
  given back as \<open>Write\<close> leaves it.
\<close>

definition Rotate_file ::
  "'w Scp \<Rightarrow> string \<Rightarrow> KeyfileEnv \<Rightarrow> string option \<Rightarrow> Scp03KeySet \<Rightarrow> bool \<Rightarrow> string option \<Rightarrow>
   fs \<Rightarrow> 'w \<Rightarrow> (Status \<times> fs \<times> 'w) option" where
  "Rotate_file scp junk env getenv_path new_keys dry_run key_file fs w =
     (let send = (\<lambda>w.
        (case SendPutKey scp new_keys w of (st, w') \<Rightarrow>
           if isl st then (st, fs, w')
           else
             (case key_file of
                None \<Rightarrow> (Ok, fs, w')
              | Some path \<Rightarrow>
                  (case keyfile_Write env path new_keys fs of (wst, tr) \<Rightarrow>
                     (if isl wst then wst else Ok, last tr, w'))))) in
      if dry_run then Some (Ok, fs, w)
      else
        (case (case key_file of Some p \<Rightarrow> Some p | None \<Rightarrow> getenv_path) of
           None \<Rightarrow> Some (SeFail kKeyFailed ''SCP03 key file path unknown (set EX_SSS_BOOT_SCP03_PATH)'', fs, w)
         | Some path \<Rightarrow>
             if path = [] then
               Some (SeFail kKeyFailed ''SCP03 key file path unknown (set EX_SSS_BOOT_SCP03_PATH)'', fs, w)
             else
               (case LoadCurrentDek scp junk fs path w of
                  None \<Rightarrow> None
                | Some (Inl e, w1) \<Rightarrow> Some (Inl e, fs, w1)
                | Some (Inr _, w1) \<Rightarrow> Some (send w1))))"

definition Rotate_keys :: "'w Scp \<Rightarrow> Scp03KeySet \<Rightarrow> Scp03KeySet \<Rightarrow> bool \<Rightarrow> 'w \<Rightarrow> Status \<times> 'w" where
  "Rotate_keys scp current_keys new_keys dry_run w =
     (case SetCurrentDek scp (ks_dek current_keys) w of (st, w1) \<Rightarrow>
        if isl st then (st, w1)
        else if dry_run then (Ok, w1)
        else SendPutKey scp new_keys w1)"

subsection \<open>What the host and the card promise\<close>

text \<open>
  A key check value is the start of a block of ones under the key; a key block of a PUT KEY is a
  wrapped key and its check value.
\<close>

definition kcv_of :: "(bytes \<Rightarrow> bytes \<Rightarrow> bytes \<Rightarrow> bytes) \<Rightarrow> bytes \<Rightarrow> bytes" where
  "kcv_of enc k = take 3 (enc k (replicate 16 0) (replicate 16 1))"

definition key_block :: "bytes \<Rightarrow> bytes \<Rightarrow> bytes" where
  "key_block wrapped kcv = [0x88, 17, 16] @ wrapped @ [3] @ kcv"

definition accepted :: "bytes \<Rightarrow> bool" where
  "accepted rsp \<longleftrightarrow> 2 \<le> length rsp \<and> rsp ! (length rsp - 2) = 0x90 \<and> rsp ! (length rsp - 1) = 0"

lemma status_word_ok: "unat (a :: u8) * 256 + unat (b :: u8) = SM_OK \<longleftrightarrow> a = 0x90 \<and> b = 0"
proof
  assume eq: "unat a * 256 + unat b = SM_OK"
  have "unat b < 256" using unsigned_less [of b, where ?'a = nat] by simp
  then have "unat b = (unat a * 256 + unat b) mod 256" by simp
  also have "\<dots> = 0" unfolding eq by (simp add: SM_OK_def)
  finally have "unat b = 0" .
  moreover from this eq have "unat a = 144" by (simp add: SM_OK_def)
  ultimately show "a = 0x90 \<and> b = 0" by (simp add: word_unat_eq_iff)
qed (simp add: SM_OK_def)

text \<open>
  \<open>host_key\<close> is what the host's key objects hold, \<open>cipher_key\<close> the key of the cipher context and
  \<open>card\<close> the key set of the card. The calls of the host keep the card and the session as they are. A
  cipher call leaves the vector it is given alone, which the code relies on when it passes the same
  array again. The card takes the three keys it unwraps with its own DEK when their check values are
  right, and then only answers 9000.
\<close>

locale scp_card =
  fixes scp :: "'w Scp" and enc dec :: "bytes \<Rightarrow> bytes \<Rightarrow> bytes \<Rightarrow> bytes"
    and host_key :: "'w \<Rightarrow> HostKey \<Rightarrow> bytes" and cipher_key :: "'w \<Rightarrow> bytes"
    and card :: "'w \<Rightarrow> Scp03KeySet" and session :: "'w \<Rightarrow> u8 \<times> u8 option"
  assumes session_def: "session w = (scp_key_ver scp w, scp_security scp w)"
    and init_law: "scp_key_init scp w = (ok, w') \<Longrightarrow>
      card w' = card w \<and> session w' = session w \<and> host_key w' = host_key w"
    and allocate_law: "scp_key_allocate scp i n w = (ok, w') \<Longrightarrow>
      card w' = card w \<and> session w' = session w \<and> host_key w' StaticDek = host_key w StaticDek"
    and set_key_law: "scp_set_key scp h data w = (ok, w') \<Longrightarrow>
      card w' = card w \<and> session w' = session w \<and> (ok \<longrightarrow> host_key w' = (host_key w)(h := data))"
    and get_key_law: "scp_get_key scp h n w = ((ok, data), w') \<Longrightarrow>
      card w' = card w \<and> session w' = session w \<and> host_key w' = host_key w \<and> (ok \<longrightarrow> data = host_key w h)"
    and symm_init_law: "scp_symm_init scp h w = (ok, w') \<Longrightarrow>
      card w' = card w \<and> session w' = session w \<and> host_key w' = host_key w \<and>
      (ok \<longrightarrow> cipher_key w' = host_key w h)"
    and cipher_law: "scp_cipher scp iv data w = ((ok, out, iv'), w') \<Longrightarrow>
      card w' = card w \<and> session w' = session w \<and> host_key w' = host_key w \<and>
      (ok \<longrightarrow> out = enc (cipher_key w) iv data \<and> iv' = iv)"
    and length_enc: "length k = 16 \<Longrightarrow> length iv = 16 \<Longrightarrow> length data = 16 \<Longrightarrow> length (enc k iv data) = 16"
    and dec_enc: "length k = 16 \<Longrightarrow> length iv = 16 \<Longrightarrow> length data = 16 \<Longrightarrow> dec k iv (enc k iv data) = data"
    and put_key_law: "scp_txrx scp [0x80, 0xD8, v, 0x81]
        (v # concat (map (\<lambda>(e, c). key_block e c) [b1, b2, b3])) n w = ((txr, rsp), w') \<Longrightarrow>
      list_all (\<lambda>(e, c). length e = 16 \<and> length c = 3) [b1, b2, b3] \<Longrightarrow>
      ks = map (\<lambda>(e, c). dec (ks_dek (card w)) (replicate 16 0) e) [b1, b2, b3] \<Longrightarrow>
      (card w' = card w \<and> \<not> (txr = SM_OK \<and> accepted rsp) \<or>
       map snd [b1, b2, b3] = map (kcv_of enc) ks \<and>
       card w' = \<lparr>ks_enc = ks ! 0, ks_mac = ks ! 1, ks_dek = ks ! 2\<rparr>)"
begin

lemma GenKcv_law:
  assumes "GenKcvAndEncryptKey scp k w = (r, w')"
  shows "card w' = card w \<and> session w' = session w \<and>
    (is_ok r \<longrightarrow> host_key w' StaticDek = host_key w StaticDek \<and>
      r = Inr (enc (host_key w StaticDek) (replicate 16 0) k, kcv_of enc k))"
proof -
  obtain ok1 w1 where c1: "scp_key_init scp w = (ok1, w1)" by fastforce
  obtain ok2 w2 where c2: "scp_key_allocate scp 0x544D5031 kKeyLen w1 = (ok2, w2)" by fastforce
  obtain ok3 w3 where c3: "scp_set_key scp Scratch k w2 = (ok3, w3)" by fastforce
  obtain ok4 w4 where c4: "scp_symm_init scp Scratch w3 = (ok4, w4)" by fastforce
  obtain ok5 full iv5 w5 where c5: "scp_cipher scp (replicate 16 0) (replicate kKeyLen 1) w4 = ((ok5, full, iv5), w5)"
    by (metis prod.exhaust)
  obtain ok6 dek w6 where c6: "scp_get_key scp StaticDek kKeyLen w5 = ((ok6, dek), w6)" by (metis prod.exhaust)
  obtain ok7 w7 where c7: "scp_set_key scp Scratch dek w6 = (ok7, w7)" by fastforce
  obtain ok8 w8 where c8: "scp_symm_init scp Scratch w7 = (ok8, w8)" by fastforce
  obtain ok9 e iv9 w9 where c9: "scp_cipher scp iv5 k w8 = ((ok9, e, iv9), w9)" by (metis prod.exhaust)
  note laws = init_law [OF c1] allocate_law [OF c2] set_key_law [OF c3] symm_init_law [OF c4] cipher_law [OF c5]
    get_key_law [OF c6] set_key_law [OF c7] symm_init_law [OF c8] cipher_law [OF c9]
  show ?thesis
  proof (cases "ok1 \<and> ok2 \<and> ok3 \<and> ok4 \<and> ok5 \<and> ok6 \<and> ok7 \<and> ok8 \<and> ok9")
    case True
    with assms c1 c2 c3 c4 c5 c6 c7 c8 c9 have "r = Inr (e, take 3 full)" "w' = w9"
      by (simp_all add: GenKcvAndEncryptKey_def Let_def attempt_def attempt_out_def CRYPTO_KEY_CHECK_LEN_def)
    with True laws show ?thesis by (simp add: kcv_of_def kKeyLen_def)
  next
    case False
    with assms c1 c2 c3 c4 c5 c6 c7 c8 c9
    have "isl r \<and> w' \<in> {w1, w2, w3, w4, w5, w6, w7, w8, w9}"
      by (simp add: GenKcvAndEncryptKey_def Let_def attempt_def attempt_out_def split: if_splits) auto
    moreover have "card v = card w \<and> session v = session w" if "v \<in> {w1, w2, w3, w4, w5, w6, w7, w8, w9}" for v
      using that laws by auto
    ultimately show ?thesis by blast
  qed
qed

lemma length_kcv: "length k = 16 \<Longrightarrow> length (kcv_of enc k) = 3"
  by (simp add: kcv_of_def length_enc)

lemma CreateKeyData_law:
  assumes "CreateKeyData scp k w = (r, w')"
  shows "card w' = card w \<and> session w' = session w \<and>
    (is_ok r \<longrightarrow> host_key w' StaticDek = host_key w StaticDek \<and>
      r = Inr (key_block (enc (host_key w StaticDek) (replicate 16 0) k) (kcv_of enc k), kcv_of enc k))"
proof -
  obtain r1 w1 where g: "GenKcvAndEncryptKey scp k w = (r1, w1)" by fastforce
  with assms GenKcv_law [OF g] show ?thesis
    by (cases r1) (auto simp: CreateKeyData_def key_block_def kKeyLen_def CRYPTO_KEY_CHECK_LEN_def)
qed

lemma key_blocks_law:
  assumes "key_blocks scp ks cmd expected w = (r, w')"
  shows "card w' = card w \<and> session w' = session w \<and>
    (is_ok r \<longrightarrow> host_key w' StaticDek = host_key w StaticDek \<and>
      r = Inr (cmd @ concat (map (\<lambda>k. key_block (enc (host_key w StaticDek) (replicate 16 0) k) (kcv_of enc k)) ks),
               expected @ concat (map (kcv_of enc) ks)))"
  using assms
proof (induction ks arbitrary: cmd expected w)
  case Nil
  then show ?case by auto
next
  case (Cons k ks)
  obtain r1 w1 where c: "CreateKeyData scp k w = (r1, w1)" by fastforce
  show ?case
  proof (cases r1)
    case (Inl e)
    with Cons.prems c CreateKeyData_law [OF c] show ?thesis by auto
  next
    case (Inr x)
    obtain block kcv where "x = (block, kcv)" by fastforce
    with Cons.prems c Inr have "key_blocks scp ks (cmd @ block) (expected @ kcv) w1 = (r, w')" by simp
    from Cons.IH [OF this] CreateKeyData_law [OF c] Inr \<open>x = _\<close> show ?thesis by auto
  qed
qed

text \<open>What a PUT KEY does to the card, when the DEK that wraps the keys has been loaded.\<close>

lemma SendPutKey_law:
  assumes "SendPutKey scp new w = (st, w')" "keys_wf new" "length (host_key w StaticDek) = 16"
    and "ks = map (\<lambda>k. dec (ks_dek (card w)) (replicate 16 0) (enc (host_key w StaticDek) (replicate 16 0) k))
      [ks_enc new, ks_mac new, ks_dek new]"
  defines "good \<equiv> map (kcv_of enc) ks = map (kcv_of enc) [ks_enc new, ks_mac new, ks_dek new] \<and>
      scp_security scp w = Some 0x33 \<and> card w' = \<lparr>ks_enc = ks ! 0, ks_mac = ks ! 1, ks_dek = ks ! 2\<rparr>"
  shows "(is_ok st \<longrightarrow> good) \<and> (card w' = card w \<or> good)"
proof -
  let ?v = "scp_key_ver scp w" and ?dek = "host_key w StaticDek" and ?iv = "replicate 16 (0 :: u8)"
  let ?new = "[ks_enc new, ks_mac new, ks_dek new]"
  define f where "f = (\<lambda>k. (enc ?dek ?iv k, kcv_of enc k))"
  let ?bs = "[f (ks_enc new), f (ks_mac new), f (ks_dek new)]"
  obtain r w1 where b: "key_blocks scp ?new [?v] [?v] w = (r, w1)" by fastforce
  note blocks = key_blocks_law [OF b]
  show ?thesis
  proof (cases "scp_security scp w = Some 0x33 \<and> is_ok r")
    case False
    then have "card w' = card w" "isl st"
      using assms(1) b blocks
      by (auto simp: SendPutKey_def Let_def split: if_splits option.splits sum.splits)
    then show ?thesis by simp
  next
    case True
    let ?cmd = "?v # concat (map (\<lambda>(e, c). key_block e c) ?bs)"
    have r: "r = Inr (?cmd, ?v # concat (map (kcv_of enc) ?new))"
      using True blocks by (simp add: f_def)
    obtain txr rsp w2 where t: "scp_txrx scp [0x80, 0xD8, ?v, 0x81] ?cmd 64 w1 = ((txr, rsp), w2)"
      by (rule result_pair)
    have len: "length k = 16" if "k \<in> set ?new" for k using that assms(2) by (auto simp: keys_wf_def)
    have "list_all (\<lambda>(e, c). length e = 16 \<and> length c = 3) ?bs"
      using assms(3) len by (simp add: f_def length_enc length_kcv)
    from put_key_law [OF t this refl] blocks assms(4)
    have law: "card w2 = card w \<and> \<not> (txr = SM_OK \<and> accepted rsp) \<or>
        map (kcv_of enc) ks = map (kcv_of enc) ?new \<and> card w2 = \<lparr>ks_enc = ks ! 0, ks_mac = ks ! 1, ks_dek = ks ! 2\<rparr>"
      by (auto simp: f_def)
    have w': "w' = w2" and ok: "is_ok st \<Longrightarrow> txr = SM_OK \<and> accepted rsp"
      using assms(1) True b r t
      by (auto simp: SendPutKey_def Let_def status_word_ok accepted_def split: if_splits)
    with law True show ?thesis by (auto simp: good_def)
  qed
qed

lemma SetCurrentDek_law:
  "SetCurrentDek scp dek w = (st, w') \<Longrightarrow>
   card w' = card w \<and> session w' = session w \<and> (is_ok st \<longrightarrow> host_key w' StaticDek = dek)"
  using set_key_law [of StaticDek dek w]
  by (auto simp: SetCurrentDek_def split: prod.splits if_splits)

text \<open>A rotation that wraps the new keys with the DEK \<open>dek\<close>.\<close>

lemma rotation_law:
  assumes "SetCurrentDek scp dek w = (Inr u, w1)" "SendPutKey scp new w1 = (st, w')"
    and "keys_wf new" "length dek = 16"
  shows "(is_ok st \<longrightarrow> scp_security scp w = Some 0x33 \<and>
      map (kcv_of enc) [ks_enc (card w'), ks_mac (card w'), ks_dek (card w')] =
      map (kcv_of enc) [ks_enc new, ks_mac new, ks_dek new]) \<and>
    (dek = ks_dek (card w) \<longrightarrow> (is_ok st \<longrightarrow> card w' = new) \<and> (card w' = card w \<or> card w' = new))"
proof -
  note set = SetCurrentDek_law [OF assms(1)]
  have len: "length (host_key w1 StaticDek) = 16" using set assms(4) by simp
  have new: "length (ks_enc new) = 16" "length (ks_mac new) = 16" "length (ks_dek new) = 16"
    using assms(3) by (simp_all add: keys_wf_def)
  have sec: "scp_security scp w1 = scp_security scp w" using set by (simp add: session_def)
  note dec = dec_enc [OF assms(4) length_replicate new(1)] dec_enc [OF assms(4) length_replicate new(2)]
    dec_enc [OF assms(4) length_replicate new(3)]
  note law = SendPutKey_law [OF assms(2,3) len refl]
  have "is_ok st \<Longrightarrow> scp_security scp w = Some 0x33 \<and>
      map (kcv_of enc) [ks_enc (card w'), ks_mac (card w'), ks_dek (card w')] =
      map (kcv_of enc) [ks_enc new, ks_mac new, ks_dek new]"
    using law sec by auto
  moreover have "(is_ok st \<longrightarrow> card w' = new) \<and> (card w' = card w \<or> card w' = new)" if "dek = ks_dek (card w)"
  proof -
    have "ks_dek (card w1) = dek" "host_key w1 StaticDek = dek" "card w1 = card w" using set that by simp_all
    moreover have collapse: "\<lparr>ks_enc = ks_enc new, ks_mac = ks_mac new, ks_dek = ks_dek new\<rparr> = new" by simp
    ultimately show ?thesis using law by (simp add: dec collapse) blast
  qed
  ultimately show ?thesis by blast
qed

lemma Rotate_keys_law:
  assumes "Rotate_keys scp cur new dry_run w = (st, w')" "keys_wf cur" "keys_wf new"
  shows "(dry_run \<longrightarrow> card w' = card w) \<and>
    (is_ok st \<and> \<not> dry_run \<longrightarrow> scp_security scp w = Some 0x33 \<and>
      map (kcv_of enc) [ks_enc (card w'), ks_mac (card w'), ks_dek (card w')] =
      map (kcv_of enc) [ks_enc new, ks_mac new, ks_dek new]) \<and>
    (ks_dek cur = ks_dek (card w) \<longrightarrow>
      (is_ok st \<and> \<not> dry_run \<longrightarrow> card w' = new) \<and> (card w' = card w \<or> card w' = new))"
proof -
  obtain st1 w1 where s: "SetCurrentDek scp (ks_dek cur) w = (st1, w1)" by fastforce
  show ?thesis
  proof (cases "isl st1 \<or> dry_run")
    case True
    with assms(1) s SetCurrentDek_law [OF s] show ?thesis by (auto simp: Rotate_keys_def split: if_splits)
  next
    case False
    then obtain u where "st1 = Inr u" by (cases st1) auto
    with False assms(1) s have "SetCurrentDek scp (ks_dek cur) w = (Inr u, w1)" "SendPutKey scp new w1 = (st, w')"
      by (simp_all add: Rotate_keys_def)
    from rotation_law [OF this assms(3)] False assms(2) show ?thesis by (simp add: keys_wf_def)
  qed
qed

lemma Rotate_file_law:
  assumes "fs path = Some (bytes_of (keyfile_text (card w)))" "keys_wf (card w)" "keys_wf new"
    and "path \<noteq> []" "length path + 4 < 256" "length junk = 256"
    and "kf_rename env" "kf_print env" "kf_open env" "111 \<le> kf_flushed env"
  shows "\<exists>st fs' w'. Rotate_file scp junk env genv new False (Some path) fs w = Some (st, fs', w') \<and>
    (is_ok st \<longrightarrow> card w' = new) \<and>
    (card w' = card w \<and> keyfile_Read junk fs' path = Some (Inr (card w)) \<or>
     card w' = new \<and> keyfile_Read junk fs' path = Some (Inr (if is_ok st then new else card w)))"
proof -
  note read = keyfile_Read_text(1) [OF assms(2,6), of fs path, OF assms(1)]
    keyfile_Read_text(2) [OF assms(2,6), of fs path, OF assms(1)]
  obtain st1 w1 where s: "SetCurrentDek scp (ks_dek (card w)) w = (st1, w1)" by fastforce
  show ?thesis
  proof (cases st1)
    case (Inl e)
    with s assms(4) read SetCurrentDek_law [OF s] show ?thesis
      by (simp add: Rotate_file_def LoadCurrentDek_def Let_def)
  next
    case (Inr u)
    obtain st2 w2 where p: "SendPutKey scp new w1 = (st2, w2)" by fastforce
    from s Inr have s': "SetCurrentDek scp (ks_dek (card w)) w = (Inr u, w1)" by simp
    have "length (ks_dek (card w)) = 16" using assms(2) by (simp add: keys_wf_def)
    note law = rotation_law [OF s' p assms(3) this]
    obtain tr where t: "keyfile_Write env path new fs = (Ok, tr)"
      "keyfile_Read junk (last tr) path = Some (Inr new)"
      using keyfile_Write_done [OF assms(3,5,6,9,8,7,10), of fs] by blast
    show ?thesis
    proof (cases "is_ok st2")
      case True
      with s' p t law assms(4) read show ?thesis
        by (auto simp: Rotate_file_def LoadCurrentDek_def Let_def)
    next
      case False
      with s' p t law assms(4) read show ?thesis
        by (auto simp: Rotate_file_def LoadCurrentDek_def Let_def)
    qed
  qed
qed

end

subsection \<open>A simulated card\<close>

text \<open>Its cipher adds the key and the vector to a block, bit by bit.\<close>

record SimCard =
  cd_keys :: Scp03KeySet
  cd_security :: "u8 option"
  cd_host :: "HostKey \<Rightarrow> bytes"
  cd_cipher :: bytes

definition xor_enc :: "bytes \<Rightarrow> bytes \<Rightarrow> bytes \<Rightarrow> bytes" where
  "xor_enc k iv data = map2 (XOR) (map2 (XOR) k iv) data"

definition sim_put_key :: "bytes \<Rightarrow> SimCard \<Rightarrow> (nat \<times> bytes) \<times> SimCard" where
  "sim_put_key cmd s =
     (let block = (\<lambda>i. take 23 (drop (1 + 23 * i) cmd));
          kcv = (\<lambda>i. take 3 (drop 20 (block i)));
          key = (\<lambda>i. xor_enc (ks_dek (cd_keys s)) (replicate 16 0) (take 16 (drop 3 (block i)))) in
      if list_all (\<lambda>i. kcv i = kcv_of xor_enc (key i)) [0, 1, 2]
      then ((SM_OK, take 1 cmd @ kcv 0 @ kcv 1 @ kcv 2 @ [0x90, 0]),
            s\<lparr>cd_keys := \<lparr>ks_enc = key 0, ks_mac = key 1, ks_dek = key 2\<rparr>\<rparr>)
      else ((SM_OK, [0x69, 0x82]), s))"

definition sim_scp :: "SimCard Scp" where
  "sim_scp =
     \<lparr>scp_key_ver = (\<lambda>s. 11), scp_security = cd_security,
      scp_key_init = (\<lambda>s. (True, s)), scp_key_allocate = (\<lambda>i n s. (True, s)),
      scp_set_key = (\<lambda>h data s. (True, s\<lparr>cd_host := (cd_host s)(h := data)\<rparr>)),
      scp_get_key = (\<lambda>h n s. ((True, cd_host s h), s)),
      scp_symm_init = (\<lambda>h s. (True, s\<lparr>cd_cipher := cd_host s h\<rparr>)),
      scp_cipher = (\<lambda>iv data s. ((True, xor_enc (cd_cipher s) iv data, iv), s)),
      scp_txrx = (\<lambda>hdr cmd n s. if hdr = [0x80, 0xD8, 11, 0x81] then sim_put_key cmd s else ((SM_OK, [0x6D, 0]), s))\<rparr>"

text \<open>Sessions that always open.\<close>

definition quiet_boot :: "'w Boot" where
  "quiet_boot =
     \<lparr>boot_prepare_host = (\<lambda>skip port w. (True, w)), boot_set_keys = (\<lambda>keys w. w),
      boot_session_open = (\<lambda>skip port w. (True, w)), boot_open = (\<lambda>skip port w. (True, w)),
      boot_store_init = (\<lambda>w. (True, w)), boot_session_close = (\<lambda>w. w)\<rparr>"

lemma length_xor_enc: "length k = 16 \<Longrightarrow> length iv = 16 \<Longrightarrow> length data = 16 \<Longrightarrow> length (xor_enc k iv data) = 16"
  by (simp add: xor_enc_def)

lemma map2_xor_cancel: "length a = length b \<Longrightarrow> map2 (XOR) a (map2 (XOR) a b) = (b :: bytes)"
  by (induction a b rule: list_induct2) (simp_all flip: xor.assoc)

lemma xor_enc_cancel:
  "length k = 16 \<Longrightarrow> length iv = 16 \<Longrightarrow> length data = 16 \<Longrightarrow> xor_enc k iv (xor_enc k iv data) = data"
  by (simp add: xor_enc_def map2_xor_cancel)

lemma sim_put_key_blocks:
  assumes "length e1 = 16" "length c1 = 3" "length e2 = 16" "length c2 = 3" "length e3 = 16" "length c3 = 3"
  shows "sim_put_key (v # key_block e1 c1 @ key_block e2 c2 @ key_block e3 c3) s =
    (let key = xor_enc (ks_dek (cd_keys s)) (replicate 16 0) in
      if c1 = kcv_of xor_enc (key e1) \<and> c2 = kcv_of xor_enc (key e2) \<and> c3 = kcv_of xor_enc (key e3)
      then ((SM_OK, v # c1 @ c2 @ c3 @ [0x90, 0]), s\<lparr>cd_keys := \<lparr>ks_enc = key e1, ks_mac = key e2, ks_dek = key e3\<rparr>\<rparr>)
      else ((SM_OK, [0x69, 0x82]), s))"
proof -
  let ?cmd = "v # key_block e1 c1 @ key_block e2 c2 @ key_block e3 c3"
  have len: "length (key_block e1 c1) = 23" "length (key_block e2 c2) = 23" "length (key_block e3 c3) = 23"
    using assms by (simp_all add: key_block_def)
  have "drop (1 + 23 * 0) ?cmd = key_block e1 c1 @ key_block e2 c2 @ key_block e3 c3"
    "drop (1 + 23 * 1) ?cmd = key_block e2 c2 @ key_block e3 c3"
    "drop (1 + 23 * 2) ?cmd = key_block e3 c3"
    using len by simp_all
  then have blocks: "take 23 (drop (1 + 23 * 0) ?cmd) = key_block e1 c1"
    "take 23 (drop (1 + 23 * 1) ?cmd) = key_block e2 c2" "take 23 (drop (1 + 23 * 2) ?cmd) = key_block e3 c3"
    using len by (simp_all only: take_append) simp_all
  have parts: "take 3 (drop 20 (key_block e c)) = c" "take 16 (drop 3 (key_block e c)) = e"
    if "length e = 16" "length c = 3" for e c
    using that by (simp_all add: key_block_def)
  show ?thesis
    unfolding sim_put_key_def Let_def list.pred_inject blocks parts [OF assms(1,2)] parts [OF assms(3,4)]
      parts [OF assms(5,6)]
    by simp
qed

interpretation sim_card: scp_card sim_scp xor_enc xor_enc cd_host cd_cipher cd_keys "\<lambda>s. (11, cd_security s)"
proof (unfold_locales, goal_cases)
  case (10 v b1 b2 b3 n w txr rsp w' ks)
  obtain e1 c1 e2 c2 e3 c3 where b: "b1 = (e1, c1)" "b2 = (e2, c2)" "b3 = (e3, c3)" by fastforce
  with 10(2) have "length e1 = 16" "length c1 = 3" "length e2 = 16" "length c2 = 3" "length e3 = 16" "length c3 = 3"
    by simp_all
  note put = sim_put_key_blocks [OF this, of v w]
  show ?case
  proof (cases "v = 11")
    case True
    with 10(1) put b have "(if c1 = kcv_of xor_enc (xor_enc (ks_dek (cd_keys w)) (replicate 16 0) e1) \<and>
          c2 = kcv_of xor_enc (xor_enc (ks_dek (cd_keys w)) (replicate 16 0) e2) \<and>
          c3 = kcv_of xor_enc (xor_enc (ks_dek (cd_keys w)) (replicate 16 0) e3)
        then ((SM_OK, v # c1 @ c2 @ c3 @ [0x90, 0]), w\<lparr>cd_keys := \<lparr>ks_enc = xor_enc (ks_dek (cd_keys w)) (replicate 16 0) e1,
          ks_mac = xor_enc (ks_dek (cd_keys w)) (replicate 16 0) e2,
          ks_dek = xor_enc (ks_dek (cd_keys w)) (replicate 16 0) e3\<rparr>\<rparr>)
        else ((SM_OK, [0x69, 0x82]), w)) = ((txr, rsp), w')"
      by (simp add: sim_scp_def Let_def)
    with 10(3) b show ?thesis by (auto simp: accepted_def split: if_splits)
  next
    case False
    with 10(1) show ?thesis by (auto simp: sim_scp_def accepted_def)
  qed
qed (auto simp: sim_scp_def length_xor_enc xor_enc_cancel)

lemma sim_blocks_ok: "is_ok (fst (key_blocks sim_scp ks cmd expected s))"
proof (induction ks arbitrary: cmd expected s)
  case (Cons k ks)
  obtain r w where c: "CreateKeyData sim_scp k s = (r, w)" by fastforce
  have "is_ok r"
    using c by (auto simp: CreateKeyData_def GenKcvAndEncryptKey_def attempt_def attempt_out_def sim_scp_def Let_def)
  with Cons c show ?case by (auto split: sum.splits)
qed simp

lemma sim_rotates:
  assumes "keys_wf new" "keys_wf (cd_keys s)" "cd_security s = Some 0x33"
  shows "fst (Rotate_keys sim_scp (cd_keys s) new False s) = Ok"
proof -
  let ?s = "s\<lparr>cd_host := (cd_host s)(StaticDek := ks_dek (cd_keys s))\<rparr>"
  let ?new = "[ks_enc new, ks_mac new, ks_dek new]"
  have set: "SetCurrentDek sim_scp (ks_dek (cd_keys s)) s = (Ok, ?s)"
    by (simp add: SetCurrentDek_def sim_scp_def)
  obtain r w1 where b: "key_blocks sim_scp ?new [11] [11] ?s = (r, w1)" by fastforce
  let ?e = "xor_enc (ks_dek (cd_keys s)) (replicate 16 0)" and ?c = "kcv_of xor_enc"
  have w1: "cd_keys w1 = cd_keys s"
    and r: "r = Inr (11 # key_block (?e (ks_enc new)) (?c (ks_enc new)) @ key_block (?e (ks_mac new)) (?c (ks_mac new)) @
        key_block (?e (ks_dek new)) (?c (ks_dek new)), 11 # ?c (ks_enc new) @ ?c (ks_mac new) @ ?c (ks_dek new))"
    using sim_card.key_blocks_law [OF b] sim_blocks_ok [of ?new "[11]" "[11]" ?s] b by auto
  have len: "length (ks_enc new) = 16" "length (ks_mac new) = 16" "length (ks_dek new) = 16" "length (ks_dek (cd_keys s)) = 16"
    using assms(1,2) by (simp_all add: keys_wf_def)
  note elen = length_xor_enc [OF len(4) length_replicate len(1)] length_xor_enc [OF len(4) length_replicate len(2)]
    length_xor_enc [OF len(4) length_replicate len(3)]
  note clen = sim_card.length_kcv [OF len(1)] sim_card.length_kcv [OF len(2)] sim_card.length_kcv [OF len(3)]
  note cancel = xor_enc_cancel [OF len(4) length_replicate len(1)] xor_enc_cancel [OF len(4) length_replicate len(2)]
    xor_enc_cancel [OF len(4) length_replicate len(3)]
  have fields: "scp_key_ver sim_scp ?s = 11" "scp_security sim_scp ?s = Some 0x33"
    "scp_txrx sim_scp [0x80, 0xD8, 11, 0x81] cmd 64 w1 = sim_put_key cmd w1" for cmd
    using assms(3) by (simp_all add: sim_scp_def)
  have "fst (SendPutKey sim_scp new ?s) = Ok"
    using b clen
    by (simp add: SendPutKey_def Let_def fields r w1 sim_put_key_blocks [OF elen(1) clen(1) elen(2) clen(2) elen(3) clen(3)]
        cancel SM_OK_def nth_append)
  then show ?thesis by (simp add: Rotate_keys_def set)
qed

subsection \<open>Properties\<close>

text \<open>
  C2: over any host and card that keep their promises, a rotation leaves the card with its old keys or
  with exactly the new ones when the current DEK it was given is the card's; a dry run leaves the old
  ones; \<open>Ok\<close> means the new ones, and only on a session of full security. With any other DEK, \<open>Ok\<close> still
  means that the card's keys have the check values of the new ones.
\<close>

theorem rotation_all_or_nothing:
  assumes "scp_card scp enc dec host_key cipher_key installed session"
    and "keys_wf cur" "keys_wf new" "Rotate_keys scp cur new dry_run w = (st, w')"
  shows "(dry_run \<longrightarrow> installed w' = installed w) \<and>
    (is_ok st \<and> \<not> dry_run \<longrightarrow> scp_security scp w = Some 0x33 \<and>
      map (kcv_of enc) [ks_enc (installed w'), ks_mac (installed w'), ks_dek (installed w')] =
      map (kcv_of enc) [ks_enc new, ks_mac new, ks_dek new]) \<and>
    (ks_dek cur = ks_dek (installed w) \<longrightarrow>
      (is_ok st \<and> \<not> dry_run \<longrightarrow> installed w' = new) \<and> (installed w' = installed w \<or> installed w' = new))"
  by (rule scp_card.Rotate_keys_law [OF assms(1,4,2,3)])

definition fresh_card :: SimCard where
  "fresh_card = \<lparr>cd_keys = sample_keys, cd_security = Some 0x33, cd_host = (\<lambda>_. []), cd_cipher = []\<rparr>"

lemma default_keys_wf: "keys_wf kDefaultKeys"
  by (simp add: kDefaultKeys_def keys_wf_def)

theorem rotation_all_or_nothing_witness:
  "cd_keys (snd (Rotate_keys sim_scp sample_keys kDefaultKeys False fresh_card)) = kDefaultKeys"
proof -
  have "fst (Rotate_keys sim_scp sample_keys kDefaultKeys False fresh_card) = Ok"
    using sim_rotates [OF default_keys_wf, of fresh_card] by (simp add: fresh_card_def)
  with rotation_all_or_nothing [OF sim_card.scp_card_axioms sample_keys_wf default_keys_wf
      prod.collapse [symmetric, of "Rotate_keys sim_scp sample_keys kDefaultKeys False fresh_card"]]
  show ?thesis by (simp add: fresh_card_def)
qed



end
