(* ===== verification/SeFactory.thy ===== *)
theory SeFactory
  imports SeKeys Scp03 Cli HostPorts
begin

section \<open>SeFactory: the provisioning program\<close>

text \<open>
  \<open>apps/se_factory/main.cpp\<close> over the models of the secure element. The state of the process is its
  standard output, the files and the session with the element; what lies outside the repository is
  the record \<open>FactoryEnv\<close>. The lines the program logs to the error stream are not modelled.
\<close>

record ('n, 'c, 'w) FactoryEnv =
  fe_sss :: "'w Sss"
  fe_boot :: "'w Boot"
  fe_scp :: "'w Scp"
  fe_asn1 :: "'n Asn1"
  fe_sha256 :: "bytes \<Rightarrow> bytes option"
  fe_crt_parse :: "bytes \<Rightarrow> 'c option"
  fe_pk_verify :: "'c \<Rightarrow> bytes \<Rightarrow> bytes \<Rightarrow> bool"
  fe_scp03_build :: bool
  fe_junk :: string
  fe_keyfile :: KeyfileEnv
  fe_getenv :: "string option"
  fe_out_file :: "(nat \<times> bool) option"

text \<open>
  \<open>fe_out_file\<close> is what writing the request to a file meets: \<open>None\<close> when it cannot be opened, otherwise
  how many bytes \<open>fwrite\<close> writes and whether \<open>fclose\<close> succeeds.
\<close>

record ('f, 'w) Proc =
  pr_out :: 'f
  pr_fs :: fs
  pr_se :: 'w

subsection \<open>The command table\<close>

definition factory_command :: "string \<Rightarrow> string \<Rightarrow> string option \<Rightarrow> CliOption list \<Rightarrow> CliCommand" where
  "factory_command name description arg options =
     \<lparr>cc_name = name, cc_description = description,
      cc_argument = map_option (\<lambda>a. \<lparr>ca_name = a, ca_mandatory = True\<rparr>) arg, cc_options = options\<rparr>"

definition option_of :: "string \<Rightarrow> string \<Rightarrow> string \<Rightarrow> CliOption" where
  "option_of name description parameter =
     \<lparr>co_long_option = name, co_description = description, co_parameter = parameter\<rparr>"

definition App :: CliApp where
  "App =
     \<lparr>app_name = ''se_factory'',
      app_short_description = ''Factory provisioning CLI for the NXP SE05x'',
      app_long_description = ''Global: --port <addr>  (default: EX_SSS_BOOT_SSS_PORT)'',
      app_commands =
        [factory_command ''provision'' ''Generate RSA key + print CSR PEM'' None
           [option_of ''--bits'' ''Key size: 2048 (default) or 4096'' ''BITS'',
            option_of ''--policy'' ''full | sign-only | sign-decrypt'' ''POLICY'',
            option_of ''--subject'' ''Subject DN for the CSR'' ''DN'',
            option_of ''--out'' ''Write CSR PEM to file (default: stdout)'' ''FILE''],
         factory_command ''write-cert'' ''Write DER cert to SE cert object'' (Some ''cert.der'') [],
         factory_command ''write-info'' ''Write binary blob to SE device-info object'' (Some ''blob.bin'') [],
         factory_command ''read-info'' ''Hex-dump the device-info object'' None [],
         factory_command ''rotate-scp03'' ''Rotate SCP03 keys via GP PUT KEY'' (Some ''newkeys.txt'')
           [option_of ''--dry-run'' ''Build APDU but do not send'' []],
         factory_command ''uid'' ''Print the 18-byte chip UID'' None [],
         factory_command ''verify'' ''Verify SE key matches a DER certificate'' (Some ''cert.der'') []]\<rparr>"

subsection \<open>Files and output\<close>


definition out_str :: "(bytes \<Rightarrow> 'f \<Rightarrow> nat \<times> 'f) \<Rightarrow> string \<Rightarrow> ('f, 'w) Proc \<Rightarrow> ('f, 'w) Proc" where
  "out_str fwrite s p = p\<lparr>pr_out := snd (fwrite (bytes_of s) (pr_out p))\<rparr>"

subsection \<open>The commands\<close>

record ProvisionArgs =
  pa_bits :: RsaBits
  pa_policy :: KeyPolicy
  pa_subject :: string
  pa_out :: "string option"

definition provision_init :: ProvisionArgs where
  "provision_init = \<lparr>pa_bits = k2048, pa_policy = Full, pa_subject = ''CN=SE05x-Device'', pa_out = None\<rparr>"

definition provision_value :: "OptionValue \<Rightarrow> ProvisionArgs \<Rightarrow> ProvisionArgs" where
  "provision_value ov a =
     (if ov_option ov = ''--bits'' then (if ov_value ov = ''4096'' then a\<lparr>pa_bits := k4096\<rparr> else a)
      else if ov_option ov = ''--policy'' then
        (if ov_value ov = ''full'' then a\<lparr>pa_policy := Full\<rparr>
         else if ov_value ov = ''sign-decrypt'' then a\<lparr>pa_policy := SignDecrypt\<rparr> else a)
      else if ov_option ov = ''--subject'' then a\<lparr>pa_subject := ov_value ov\<rparr>
      else if ov_option ov = ''--out'' then a\<lparr>pa_out := Some (ov_value ov)\<rparr>
      else a)"

function provision_loop :: "CmdlineOptionsIterator \<Rightarrow> ProvisionArgs \<Rightarrow> ProvisionArgs Result" where
  "provision_loop it a =
     (case Cli.Next it of
        (Inl e, it') \<Rightarrow> Inl e
      | (Inr None, it') \<Rightarrow> Inr a
      | (Inr (Some ov), it') \<Rightarrow> provision_loop it' (provision_value ov a))"
  by pat_completeness auto
termination
  by (relation "measure (\<lambda>(it, _). length (it_argv it) - it_index it)")
    (auto dest: Next_some_decreases dest!: sym [of _ "Cli.Next _"])

declare provision_loop.simps [simp del]

definition CmdProvision ::
  "('n, 'c, 'w) FactoryEnv \<Rightarrow> (bytes \<Rightarrow> 'f \<Rightarrow> nat \<times> 'f) \<Rightarrow> CliCommand \<Rightarrow> string list \<Rightarrow>
   ('f, 'w) Proc \<Rightarrow> int \<times> ('f, 'w) Proc" where
  "CmdProvision env fwrite cmd args p =
     (case provision_loop (iterator_new args cmd) provision_init of
        Inl e \<Rightarrow> (1, p)
      | Inr a \<Rightarrow>
          let sss = fe_sss env in
          (case Store_Exists sss kRsaKeyId (pr_se p) of (present, w1) \<Rightarrow>
             (case (if present then Store_Erase sss kRsaKeyId w1 else (Ok, w1)) of (er, w2) \<Rightarrow>
                if isl er then (1, p\<lparr>pr_se := w2\<rparr>)
                else
                  (case RsaKey_Generate sss kRsaKeyId (pa_bits a) (pa_policy a) w2 of
                     (Inl e, w3) \<Rightarrow> (1, p\<lparr>pr_se := w3\<rparr>)
                   | (Inr k, w3) \<Rightarrow>
                       (case RsaKey_MakeCsr (fe_asn1 env) (fe_sha256 env) sss k (pa_subject a) w3 of
                          (Inl e, w4) \<Rightarrow> (1, p\<lparr>pr_se := w4\<rparr>)
                        | (Inr csr, w4) \<Rightarrow>
                            let p = p\<lparr>pr_se := w4\<rparr> in
                            (case pa_out a of
                               None \<Rightarrow> (0, out_str fwrite csr p)
                             | Some out_path \<Rightarrow>
                                 (case fe_out_file env of
                                    None \<Rightarrow> (1, p)
                                  | Some (n, closed) \<Rightarrow>
                                      let p = p\<lparr>pr_fs := (pr_fs p)(out_path \<mapsto> take n (bytes_of csr))\<rparr> in
                                      if \<not> (min n (length csr) = length csr \<and> closed) then (1, p)
                                      else (0, p))))))))"







subsection \<open>Rotating keys\<close>

definition factory_open :: "('n, 'c, 'w) FactoryEnv \<Rightarrow> string option \<Rightarrow> bool \<Rightarrow> 'w \<Rightarrow> Status \<times> 'w" where
  "factory_open env port select_applet w =
     (if fe_scp03_build env then Connection_Open (fe_boot env) port select_applet w
      else Connection_Open_sim (fe_boot env) port select_applet w)"

function rotate_loop :: "CmdlineOptionsIterator \<Rightarrow> string option \<times> bool \<Rightarrow> (string option \<times> bool) Result" where
  "rotate_loop it a =
     (case Cli.Next it of
        (Inl e, it') \<Rightarrow> Inl e
      | (Inr None, it') \<Rightarrow> Inr a
      | (Inr (Some ov), it') \<Rightarrow>
          rotate_loop it'
            (if ov_is_argument ov then (Some (ov_value ov), snd a)
             else if ov_option ov = ''--dry-run'' then (fst a, True) else a))"
  by pat_completeness auto
termination
  by (relation "measure (\<lambda>(it, _). length (it_argv it) - it_index it)")
    (auto dest: Next_some_decreases dest!: sym [of _ "Cli.Next _"])

declare rotate_loop.simps [simp del]

text \<open>\<open>None\<close> is the read without end of \<open>KeyFile\<close>; the session is closed on every way out.\<close>

definition CmdRotateScp03 ::
  "('n, 'c, 'w) FactoryEnv \<Rightarrow> string \<Rightarrow> CliCommand \<Rightarrow> string list \<Rightarrow> ('f, 'w) Proc \<Rightarrow>
   (int \<times> ('f, 'w) Proc) option" where
  "CmdRotateScp03 env port cmd args p =
     (case rotate_loop (iterator_new args cmd) (None, False) of
        Inl e \<Rightarrow> Some (1, p)
      | Inr (None, dry_run) \<Rightarrow> Some (1, p)
      | Inr (Some keyfile, dry_run) \<Rightarrow>
          (case factory_open env (Some port) False (pr_se p) of
             (Inl e, w1) \<Rightarrow> Some (1, p\<lparr>pr_se := w1\<rparr>)
           | (Inr _, w1) \<Rightarrow>
               (case keyfile_Read (fe_junk env) (pr_fs p) keyfile of
                  None \<Rightarrow> None
                | Some (Inl e) \<Rightarrow> Some (1, p\<lparr>pr_se := Connection_close (fe_boot env) True w1\<rparr>)
                | Some (Inr new_keys) \<Rightarrow>
                    (case Rotate_file (fe_scp env) (fe_junk env) (fe_keyfile env) (fe_getenv env) new_keys dry_run
                        (if dry_run then None else Some keyfile) (pr_fs p) w1 of
                       None \<Rightarrow> None
                     | Some (st, fs, w2) \<Rightarrow>
                         Some (if isl st then 1 else 0,
                               p\<lparr>pr_fs := fs, pr_se := Connection_close (fe_boot env) True w2\<rparr>)))))"

subsection \<open>The program\<close>




subsection \<open>Lookups\<close>

definition provision_cmd :: CliCommand where
  "provision_cmd =
     factory_command ''provision'' ''Generate RSA key + print CSR PEM'' None
       [option_of ''--bits'' ''Key size: 2048 (default) or 4096'' ''BITS'',
        option_of ''--policy'' ''full | sign-only | sign-decrypt'' ''POLICY'',
        option_of ''--subject'' ''Subject DN for the CSR'' ''DN'',
        option_of ''--out'' ''Write CSR PEM to file (default: stdout)'' ''FILE'']"

lemma FindCommand_App:
  "FindCommand App ''provision'' = Some provision_cmd"
  "FindCommand App ''write-info'' =
     Some (factory_command ''write-info'' ''Write binary blob to SE device-info object'' (Some ''blob.bin'') [])"
  "FindCommand App ''read-info'' = Some (factory_command ''read-info'' ''Hex-dump the device-info object'' None [])"
  "FindCommand App ''rotate-scp03'' =
     Some (factory_command ''rotate-scp03'' ''Rotate SCP03 keys via GP PUT KEY'' (Some ''newkeys.txt'')
       [option_of ''--dry-run'' ''Build APDU but do not send'' []])"
  by (simp_all add: FindCommand_def App_def factory_command_def provision_cmd_def)

lemma policy_arguments:
  "Cli.Next (iterator_new [''--policy'', v] provision_cmd) =
     (Inr (Some \<lparr>ov_option = ''--policy'', ov_value = v, ov_is_argument = False\<rparr>),
      (iterator_new [''--policy'', v] provision_cmd)\<lparr>it_index := 2\<rparr>)"
  by (simp add: Next_def Next_token_def iterator_new_def StartsWithDashDash_def FindOption_def
      provision_cmd_def factory_command_def option_of_def OptionValue_init_def Let_def)

lemma policy_loop:
  "provision_loop (iterator_new [''--policy'', v] provision_cmd) a =
   Inr (provision_value \<lparr>ov_option = ''--policy'', ov_value = v, ov_is_argument = False\<rparr> a)"
proof -
  have "Cli.Next ((iterator_new [''--policy'', v] provision_cmd)\<lparr>it_index := 2\<rparr>) =
      (Inr None, (iterator_new [''--policy'', v] provision_cmd)\<lparr>it_index := 2\<rparr>)"
    by (simp add: Next_def iterator_new_def)
  then show ?thesis
    by (subst provision_loop.simps, simp add: policy_arguments) (subst provision_loop.simps, simp)
qed

subsection \<open>A blob through the program\<close>




subsection \<open>Simulated processes\<close>


definition sim_env :: "'w Sss \<Rightarrow> 'w Scp \<Rightarrow> (bytes, bytes, 'w) FactoryEnv" where
  "sim_env sss scp =
     \<lparr>fe_sss = sss, fe_boot = quiet_boot, fe_scp = scp, fe_asn1 = plain_asn1, fe_sha256 = sim_sha256,
      fe_crt_parse = Some, fe_pk_verify = sim_valid RSASSA_PKCS1_V1_5_SHA256, fe_scp03_build = True,
      fe_junk = replicate 256 NUL, fe_keyfile = calm_env, fe_getenv = None, fe_out_file = Some (2048, True)\<rparr>"


definition card_env :: "(bytes, bytes, SimCard) FactoryEnv" where
  "card_env = sim_env no_sss sim_scp"

lemma sim_env_open: "factory_open (sim_env sss scp) port select_applet w = (Ok, w)"
  by (simp add: factory_open_def sim_env_def Connection_Open_def Connection_Open_keys_def Let_def quiet_boot_def)


subsection \<open>Properties\<close>

text \<open>
  The help of \<open>provision\<close> offers the policy \<open>sign-only\<close>, but giving it makes no difference: the
  command does exactly what it does for \<open>full\<close>, so the key it generates is not restricted.
\<close>

theorem sign_only_is_full:
  "CmdProvision env fwrite provision_cmd [''--policy'', ''sign-only''] p =
   CmdProvision env fwrite provision_cmd [''--policy'', ''full''] p"
  by (simp add: CmdProvision_def policy_loop provision_value_def provision_init_def)




text \<open>
  C40: \<open>rotate-scp03 FILE\<close> takes the current DEK from the file of the new keys: when the session opens,
  the new keys are wrapped with the new DEK, and the exit code is 0 only if the element accepted
  them so; the element is left as that exchange leaves it.
\<close>

theorem rotate_wraps_with_new_dek:
  assumes "keys_wf new" "pr_fs p keyfile = Some (bytes_of (keyfile_text new))" "length (fe_junk env) = 256"
    and "keyfile \<noteq> []" "take 2 keyfile \<noteq> ''--''"
    and "factory_open env (Some port) False (pr_se p) = (Ok, w1)"
    and "FindCommand App ''rotate-scp03'' = Some cmd"
  defines "loaded \<equiv> SetCurrentDek (fe_scp env) (ks_dek new) w1"
  shows "\<exists>rc p'. CmdRotateScp03 env port cmd [keyfile] p = Some (rc, p') \<and>
    pr_se p' = boot_session_close (fe_boot env)
      (if isl (fst loaded) then snd loaded else snd (SendPutKey (fe_scp env) new (snd loaded))) \<and>
    (rc = 0 \<longrightarrow> is_ok (fst loaded) \<and> is_ok (fst (SendPutKey (fe_scp env) new (snd loaded))))"
proof -
  have arg: "Cli.Next (iterator_new [keyfile] cmd) =
      (Inr (Some \<lparr>ov_option = [], ov_value = keyfile, ov_is_argument = True\<rparr>),
       (iterator_new [keyfile] cmd)\<lparr>it_index := 1\<rparr>)"
  proof -
    have "\<not> StartsWithDashDash keyfile"
      using assms(5) by (cases keyfile; cases "tl keyfile") (auto simp: StartsWithDashDash_def)
    moreover from assms(5) have "keyfile \<noteq> ''--''" by auto
    ultimately show ?thesis
      by (simp add: Next_def Next_token_def iterator_new_def OptionValue_init_def Let_def)
  qed
  have "Cli.Next ((iterator_new [keyfile] cmd)\<lparr>it_index := 1\<rparr>) = (Inr None, (iterator_new [keyfile] cmd)\<lparr>it_index := 1\<rparr>)"
    by (simp add: Next_def iterator_new_def)
  then have loop: "rotate_loop (iterator_new [keyfile] cmd) (None, False) = Inr (Some keyfile, False)"
    by (subst rotate_loop.simps, simp add: arg) (subst rotate_loop.simps, simp)
  note read = keyfile_Read_text(1) [OF assms(1,3), of "pr_fs p" keyfile, OF assms(2)]
    keyfile_Read_text(2) [OF assms(1,3), of "pr_fs p" keyfile, OF assms(2)]
  obtain st w2 where s: "loaded = (st, w2)" by fastforce
  obtain st' w3 where p: "SendPutKey (fe_scp env) new w2 = (st', w3)" by fastforce
  show ?thesis
    using s p assms(4,6) read
    by (cases st; cases st')
      (auto simp: loaded_def CmdRotateScp03_def loop Rotate_file_def LoadCurrentDek_def Let_def Connection_close_def
        split: prod.splits)
qed

definition other_keys :: Scp03KeySet where
  "other_keys = \<lparr>ks_enc = replicate 16 0x10, ks_mac = replicate 16 0x11, ks_dek = replicate 16 0x12\<rparr>"

definition rotate_process :: "(Device, SimCard) Proc" where
  "rotate_process =
     \<lparr>pr_out = \<lparr>dev_contents = [], dev_room = None\<rparr>,
      pr_fs = [''n'' \<mapsto> bytes_of (keyfile_text other_keys)], pr_se = fresh_card\<rparr>"

lemma other_keys_wf: "keys_wf other_keys"
  by (simp add: other_keys_def keys_wf_def)

lemma xor_enc_replicate:
  "xor_enc (replicate n a) (replicate n b) (replicate n c) = replicate n (a XOR b XOR c)"
  by (simp add: xor_enc_def zip_replicate xor.assoc)

lemma wrong_dek_refused:
  "\<not> is_ok (fst (SendPutKey sim_scp other_keys (snd (SetCurrentDek sim_scp (ks_dek other_keys) fresh_card))))"
proof
  let ?s = "snd (SetCurrentDek sim_scp (ks_dek other_keys) fresh_card)"
  have s: "cd_host ?s StaticDek = replicate 16 0x12" "cd_keys ?s = sample_keys"
    by (simp_all add: SetCurrentDek_def sim_scp_def fresh_card_def other_keys_def)
  obtain st w where p: "SendPutKey sim_scp other_keys ?s = (st, w)" by fastforce
  assume "is_ok (fst (SendPutKey sim_scp other_keys ?s))"
  with sim_card.SendPutKey_law [OF p other_keys_wf _ refl] p s
  have "kcv_of xor_enc (xor_enc (ks_dek sample_keys) (replicate 16 0) (xor_enc (replicate 16 0x12) (replicate 16 0) (ks_enc other_keys))) =
      kcv_of xor_enc (ks_enc other_keys)"
    by simp
  then show False
    by (simp add: kcv_of_def xor_enc_replicate sample_keys_def other_keys_def del: replicate.simps)
qed

lemma card_env_simps:
  "fe_scp card_env = sim_scp" "length (fe_junk card_env) = 256"
  "factory_open card_env port sel w = (Ok, w)"
  by (simp_all add: card_env_def sim_env_open) (simp_all add: sim_env_def)

theorem rotate_wraps_with_new_dek_witness:
  "\<exists>rc p'. CmdRotateScp03 card_env ''/dev/i2c-3'' (the (FindCommand App ''rotate-scp03'')) [''n''] rotate_process =
      Some (rc, p') \<and> rc \<noteq> 0"
proof -
  have p: "pr_fs rotate_process ''n'' = Some (bytes_of (keyfile_text other_keys))" "pr_se rotate_process = fresh_card"
    by (simp_all add: rotate_process_def)
  have "FindCommand App ''rotate-scp03'' = Some (the (FindCommand App ''rotate-scp03''))"
    by (simp add: FindCommand_App)
  from rotate_wraps_with_new_dek [OF other_keys_wf p(1) card_env_simps(2) _ _ card_env_simps(3) this, of "''/dev/i2c-3''"]
  obtain rc p' where "CmdRotateScp03 card_env ''/dev/i2c-3'' (the (FindCommand App ''rotate-scp03'')) [''n''] rotate_process =
      Some (rc, p')"
    "rc = 0 \<longrightarrow> is_ok (fst (SendPutKey sim_scp other_keys (snd (SetCurrentDek sim_scp (ks_dek other_keys) fresh_card))))"
    by (auto simp: p(2) card_env_simps(1))
  with wrong_dek_refused show ?thesis by blast
qed

end
