(* ===== verification/SmCom.thy ===== *)
theory SmCom
  imports HostTcp
begin

section \<open>SmCom: APDUs over the socket of a card server\<close>

text \<open>
  \<open>ports/se05x/smComSocket_fd.c\<close> and \<open>smComSocket.c\<close>: commands for the secure element travel over
  TCP in frames of a four byte header, whose last two bytes are the length of the body, and a body.
  The system calls are those of \<open>HostTcp\<close>. The message types, status values and the size of the
  buffers come from headers of the NXP middleware that are not part of the repository; they are the
  fields of the record \<open>Jrcp\<close>. Log output is left out.

  The loops test \<open>errno\<close> also when \<open>recv\<close> returned 0, which does not set it, so \<open>errno\<close> is part of
  the state and keeps what the last failing call left there. \<open>None\<close> stands for not returning.
\<close>

unbundle bit_operations_syntax

type_synonym u16 = "16 word"

record Jrcp =
  MAX_BUF_SIZE :: nat
  SMCOM_OK :: u32
  SMCOM_SND_FAILED :: u32
  SMCOM_RCV_FAILED :: u32
  SMCOM_COM_FAILED :: u32
  MTY_WAIT_FOR_CARD :: u8
  MTY_CLOSE :: u8
  MTY_LOCK :: u8
  MTY_UNLOCK :: u8
  MYT_DEFAULT_NAD :: u8

text \<open>The static buffers of the file, \<open>errno\<close>, and the world of the system calls.\<close>

record 'w SmSock =
  sk_sockapdu :: bytes
  sk_response :: bytes
  sk_errno :: "Errno option"
  sk_world :: 'w

record apdu_t =
  pBuf :: bytes
  buflen :: u16
  rxlen :: u16
  offset :: u16

definition REMOTE_JC_SHELL_HEADER_LEN :: nat where "REMOTE_JC_SHELL_HEADER_LEN = 4"

definition Header :: bytes where "Header = [0x01, 0x00]"

definition be16 :: "u8 \<Rightarrow> u8 \<Rightarrow> nat" where
  "be16 hi lo = unat ((push_bit 8 (ucast hi) OR ucast lo) :: u32)"

definition sk_send :: "'w Os \<Rightarrow> nat \<Rightarrow> bytes \<Rightarrow> 'w SmSock \<Rightarrow> bool \<times> 'w SmSock" where
  "sk_send os fd src s =
     (case os_send os (Some fd) src (sk_world s) of
        (Inl e, w) \<Rightarrow> (False, s\<lparr>sk_errno := Some e, sk_world := w\<rparr>)
      | (Inr _, w) \<Rightarrow> (True, s\<lparr>sk_world := w\<rparr>))"

definition sk_close :: "'w Os \<Rightarrow> nat \<Rightarrow> 'w SmSock \<Rightarrow> 'w SmSock" where
  "sk_close os fd s = s\<lparr>sk_world := os_close os fd (sk_world s)\<rparr>"

subsection \<open>The receive loop\<close>

text \<open>
  The loops of the file are one loop. They differ in how many bytes they ask for, which is \<open>ask\<close>
  applied to \<open>totalReceived\<close>, \<open>expectedLength\<close> and \<open>lengthReceived\<close>; it is \<open>None\<close> where the loop finds
  that the bytes would not fit. Their callers close the descriptor or not on the two failures.
\<close>

datatype RecvEnd = Received nat | RecvFailed | NoRoom

partial_function (option) recv_frame ::
    "'w Os \<Rightarrow> (nat \<Rightarrow> nat \<Rightarrow> bool \<Rightarrow> nat option) \<Rightarrow> nat \<Rightarrow> nat \<Rightarrow> nat \<Rightarrow> bool \<Rightarrow> bytes \<Rightarrow> 'w SmSock \<Rightarrow>
     (RecvEnd \<times> bytes \<times> 'w SmSock) option" where
  "recv_frame os ask fd totalReceived expectedLength lengthReceived pRsp s =
     (if totalReceived < expectedLength then
        (case ask totalReceived expectedLength lengthReceived of
           None \<Rightarrow> Some (NoRoom, pRsp, s)
         | Some n \<Rightarrow>
             (case os_recv os (Some fd) n (sk_world s) of (r, w) \<Rightarrow>
                (case r of
                   Inl e \<Rightarrow>
                     if e = EINTR
                     then recv_frame os ask fd totalReceived expectedLength lengthReceived pRsp
                            (s\<lparr>sk_errno := Some e, sk_world := w\<rparr>)
                     else Some (RecvFailed, pRsp, s\<lparr>sk_errno := Some e, sk_world := w\<rparr>)
                 | Inr data \<Rightarrow>
                     if data = [] then
                       if sk_errno s = Some EINTR
                       then recv_frame os ask fd totalReceived expectedLength lengthReceived pRsp
                              (s\<lparr>sk_world := w\<rparr>)
                       else Some (RecvFailed, pRsp, s\<lparr>sk_world := w\<rparr>)
                     else if REMOTE_JC_SHELL_HEADER_LEN \<le> totalReceived + length data \<and> \<not> lengthReceived
                     then recv_frame os ask fd (totalReceived + length data)
                            (expectedLength + be16 (memcpy pRsp totalReceived data ! 2)
                               (memcpy pRsp totalReceived data ! 3))
                            True (memcpy pRsp totalReceived data) (s\<lparr>sk_world := w\<rparr>)
                     else recv_frame os ask fd (totalReceived + length data) expectedLength lengthReceived
                            (memcpy pRsp totalReceived data) (s\<lparr>sk_world := w\<rparr>))))
      else Some (Received totalReceived, pRsp, s))"

definition close_ask :: "Jrcp \<Rightarrow> nat \<Rightarrow> nat \<Rightarrow> bool \<Rightarrow> nat option" where
  "close_ask jc totalReceived expectedLength lengthReceived =
     (let maxCommLength =
            (if \<not> lengthReceived then REMOTE_JC_SHELL_HEADER_LEN - totalReceived
             else expectedLength - totalReceived) in
      if MAX_BUF_SIZE jc - totalReceived < maxCommLength then None else Some maxCommLength)"

definition atr_ask :: "Jrcp \<Rightarrow> nat \<Rightarrow> nat \<Rightarrow> bool \<Rightarrow> nat option" where
  "atr_ask jc totalReceived expectedLength lengthReceived =
     (if MAX_BUF_SIZE jc - totalReceived < expectedLength then None else Some expectedLength)"

definition transceive_ask :: "Jrcp \<Rightarrow> nat \<Rightarrow> nat \<Rightarrow> bool \<Rightarrow> nat option" where
  "transceive_ask jc totalReceived expectedLength lengthReceived =
     Some (MAX_BUF_SIZE jc - totalReceived)"

definition lock_ask :: "nat \<Rightarrow> nat \<Rightarrow> nat \<Rightarrow> bool \<Rightarrow> nat option" where
  "lock_ask room totalReceived expectedLength lengthReceived =
     (let maxCommLength = expectedLength - totalReceived in
      if maxCommLength \<le> room - totalReceived then Some maxCommLength else None)"

subsection \<open>Operations on the descriptor\<close>

definition smComSocket_CloseFD :: "'w Os \<Rightarrow> Jrcp \<Rightarrow> nat \<Rightarrow> 'w SmSock \<Rightarrow> (u32 \<times> 'w SmSock) option" where
  "smComSocket_CloseFD os jc fd s =
     (case sk_send os fd [MTY_CLOSE jc, MYT_DEFAULT_NAD jc, 0, 0] s of (sent, s) \<Rightarrow>
        if \<not> sent then Some (SMCOM_SND_FAILED jc, s)
        else
          (case recv_frame os (close_ask jc) fd 0 REMOTE_JC_SHELL_HEADER_LEN False (sk_response s) s of
             None \<Rightarrow> None
           | Some (res, pRsp, s) \<Rightarrow>
               (let s = sk_close os fd (s\<lparr>sk_response := pRsp\<rparr>) in
                case res of
                  NoRoom \<Rightarrow> Some (SMCOM_RCV_FAILED jc, s)
                | RecvFailed \<Rightarrow> Some (SMCOM_RCV_FAILED jc, s)
                | Received _ \<Rightarrow> Some (0, s))))"

text \<open>\<open>pAtr\<close> and \<open>atrLen\<close> may be null; the result is the value returned, both of them after, the state.\<close>

definition smComSocket_GetATRFD :: "'w Os \<Rightarrow> Jrcp \<Rightarrow> nat \<Rightarrow> bytes option \<Rightarrow> u16 option \<Rightarrow> 'w SmSock \<Rightarrow>
    (u32 \<times> bytes option \<times> u16 option \<times> 'w SmSock) option" where
  "smComSocket_GetATRFD os jc fd pAtr atrLen s =
     (case (pAtr, atrLen) of
        (Some atr, Some len) \<Rightarrow>
          (case sk_send os fd [MTY_WAIT_FOR_CARD jc, MYT_DEFAULT_NAD jc, 0, 4, 0, 0, 1, 0] s of (sent, s) \<Rightarrow>
             if \<not> sent then Some (- 1, pAtr, atrLen, s)
             else
               (case recv_frame os (atr_ask jc) fd 0 REMOTE_JC_SHELL_HEADER_LEN False (sk_response s) s of
                  None \<Rightarrow> None
                | Some (res, pRsp, s) \<Rightarrow>
                    (let s = s\<lparr>sk_response := pRsp\<rparr> in
                     case res of
                       NoRoom \<Rightarrow> Some (0, pAtr, Some 0, s)
                     | RecvFailed \<Rightarrow> Some (0, pAtr, atrLen, sk_close os fd s)
                     | Received totalReceived \<Rightarrow>
                         (let n = totalReceived - 4 in
                          if unat len < n then Some (0, pAtr, Some 0, s)
                          else if MAX_BUF_SIZE jc - 4 < n then Some (0, pAtr, Some 0, s)
                          else Some (0, Some (memcpy atr 0 (take n (drop 4 pRsp))), Some (word_of_nat n), s)))))
      | _ \<Rightarrow> Some (0, pAtr, atrLen, s))"

text \<open>The command buffer with the header in front of the command.\<close>

definition jrcp_header :: "u16 \<Rightarrow> bytes" where
  "jrcp_header n =
     (let txLen = ucast n :: u32 in
      Header @ [ucast (drop_bit 8 (txLen AND 0xFF00)), ucast (txLen AND 0xFF)])"

definition smComSocket_TransceiveFD :: "'w Os \<Rightarrow> Jrcp \<Rightarrow> nat \<Rightarrow> apdu_t option \<Rightarrow> 'w SmSock \<Rightarrow>
    (u32 \<times> apdu_t option \<times> 'w SmSock) option" where
  "smComSocket_TransceiveFD os jc fd pApdu s =
     (case pApdu of
        None \<Rightarrow> Some (SMCOM_SND_FAILED jc, pApdu, s)
      | Some a \<Rightarrow>
          (let pCmd = memcpy (replicate (MAX_BUF_SIZE jc) 0) 0 (jrcp_header (buflen a));
               s = s\<lparr>sk_sockapdu := pCmd, sk_response := replicate (MAX_BUF_SIZE jc) 0\<rparr> in
           if \<not> unat (buflen a) \<le> MAX_BUF_SIZE jc - 4 then Some (SMCOM_SND_FAILED jc, pApdu, s)
           else
             (let pCmd = memcpy pCmd 4 (take (unat (buflen a)) (pBuf a));
                  a = a\<lparr>buflen := buflen a + 4\<rparr> in
              case sk_send os fd (take (unat (buflen a)) pCmd) (s\<lparr>sk_sockapdu := pCmd\<rparr>) of (sent, s) \<Rightarrow>
                if \<not> sent then Some (SMCOM_SND_FAILED jc, Some a, s)
                else
                  (case recv_frame os (transceive_ask jc) fd 0 REMOTE_JC_SHELL_HEADER_LEN False
                          (sk_response s) s of
                     None \<Rightarrow> None
                   | Some (res, pRsp, s) \<Rightarrow>
                       (let s = s\<lparr>sk_response := pRsp\<rparr> in
                        case res of
                          Received totalReceived \<Rightarrow>
                            (let retval = totalReceived - 4 in
                             if \<not> retval \<le> unat (rxlen a) then Some (SMCOM_SND_FAILED jc, Some a, s)
                             else if \<not> retval \<le> MAX_BUF_SIZE jc - 4 then Some (SMCOM_SND_FAILED jc, Some a, s)
                             else Some (SMCOM_OK jc,
                                    Some (a\<lparr>pBuf := memcpy (pBuf a) 0 (take retval (drop 4 pRsp)),
                                            rxlen := word_of_nat retval, offset := 0\<rparr>), s))
                        | _ \<Rightarrow> Some (SMCOM_RCV_FAILED jc, Some a, sk_close os fd s))))))"

text \<open>\<open>pRxLen\<close> points to 32 bits. The result has the buffer and the length after the call.\<close>

definition smComSocket_TransceiveRawFD :: "'w Os \<Rightarrow> Jrcp \<Rightarrow> nat \<Rightarrow> bytes option \<Rightarrow> u16 \<Rightarrow> bytes option \<Rightarrow>
    u32 option \<Rightarrow> 'w SmSock \<Rightarrow> (u32 \<times> bytes option \<times> u32 option \<times> 'w SmSock) option" where
  "smComSocket_TransceiveRawFD os jc fd pTx txLen pRx pRxLen s =
     (case (pTx, pRx, pRxLen) of
        (Some tx, Some rx, Some rxl) \<Rightarrow>
          (let pCmd = memcpy (replicate (MAX_BUF_SIZE jc) 0) 0 (jrcp_header txLen);
               s = s\<lparr>sk_sockapdu := pCmd, sk_response := replicate (MAX_BUF_SIZE jc) 0\<rparr> in
           if \<not> unat txLen \<le> MAX_BUF_SIZE jc - 4 then Some (SMCOM_COM_FAILED jc, pRx, pRxLen, s)
           else
             (let pCmd = memcpy pCmd 4 (take (unat txLen) tx); txLen = txLen + 4 in
              case sk_send os fd (take (unat txLen) pCmd) (s\<lparr>sk_sockapdu := pCmd\<rparr>) of (sent, s) \<Rightarrow>
                if \<not> sent then Some (SMCOM_SND_FAILED jc, pRx, pRxLen, s)
                else
                  (case recv_frame os (transceive_ask jc) fd 0 REMOTE_JC_SHELL_HEADER_LEN False
                          (sk_response s) s of
                     None \<Rightarrow> None
                   | Some (res, pRsp, s) \<Rightarrow>
                       (let s = s\<lparr>sk_response := pRsp\<rparr> in
                        case res of
                          Received totalReceived \<Rightarrow>
                            (let n = totalReceived - REMOTE_JC_SHELL_HEADER_LEN in
                             if \<not> n \<le> unat rxl then Some (SMCOM_COM_FAILED jc, pRx, pRxLen, s)
                             else if \<not> n \<le> MAX_BUF_SIZE jc - REMOTE_JC_SHELL_HEADER_LEN
                             then Some (SMCOM_COM_FAILED jc, pRx, pRxLen, s)
                             else Some (SMCOM_OK jc,
                                    Some (memcpy rx 0 (take n (drop REMOTE_JC_SHELL_HEADER_LEN pRsp))),
                                    Some (word_of_nat n), s))
                        | _ \<Rightarrow> Some (SMCOM_RCV_FAILED jc, pRx, pRxLen, sk_close os fd s)))))
      | _ \<Rightarrow> Some (SMCOM_COM_FAILED jc, pRx, pRxLen, s))"

text \<open>
  Both channel operations send four bytes and read four, into a buffer of their own, and return the
  last one; where the receiving fails they return 0. Their check that the bytes fit compares four
  less the bytes received with itself (\<open>lock_ask_fits\<close>), so the last branch is never taken.
\<close>

definition channel_op :: "'w Os \<Rightarrow> nat \<Rightarrow> u8 \<Rightarrow> 'w SmSock \<Rightarrow> (u32 \<times> 'w SmSock) option" where
  "channel_op os fd mty s =
     (case sk_send os fd [mty, 0, 0, 0] s of (sent, s) \<Rightarrow>
        if \<not> sent then Some (0, s)
        else
          (case recv_frame os (lock_ask 4) fd 0 REMOTE_JC_SHELL_HEADER_LEN True (replicate 4 0) s of
             None \<Rightarrow> None
           | Some (res, rsp, s) \<Rightarrow>
               (case res of
                  Received _ \<Rightarrow> Some (ucast (rsp ! 3), s)
                | RecvFailed \<Rightarrow> Some (0, sk_close os fd s)
                | NoRoom \<Rightarrow> Some (0, s))))"

definition smComSocket_LockChannelFD :: "'w Os \<Rightarrow> Jrcp \<Rightarrow> nat \<Rightarrow> 'w SmSock \<Rightarrow> (u32 \<times> 'w SmSock) option" where
  "smComSocket_LockChannelFD os jc fd s = channel_op os fd (MTY_LOCK jc) s"

definition smComSocket_UnlockChannelFD :: "'w Os \<Rightarrow> Jrcp \<Rightarrow> nat \<Rightarrow> 'w SmSock \<Rightarrow> (u32 \<times> 'w SmSock) option" where
  "smComSocket_UnlockChannelFD os jc fd s = channel_op os fd (MTY_UNLOCK jc) s"


subsection \<open>The session context\<close>

text \<open>
  \<open>smComSocket.c\<close>. A context holds the descriptor. The argument \<open>conn_ctx\<close> of \<open>Open\<close> is \<open>None\<close> for a null
  pointer and otherwise what it points to. Whether \<open>malloc\<close> succeeds and what \<open>smCom_Init\<close> of the
  middleware returns are arguments. The hints ask for \<open>AF_INET\<close>, so the socket is of the family of
  the first address, and a \<open>getaddrinfo\<close> that succeeds gives at least one.
\<close>

record SmComSocketCtx_t =
  ctx_fd :: nat

definition smComSocket_Transceive :: "'w Os \<Rightarrow> Jrcp \<Rightarrow> SmComSocketCtx_t \<Rightarrow> apdu_t option \<Rightarrow> 'w SmSock \<Rightarrow>
    (u32 \<times> apdu_t option \<times> 'w SmSock) option" where
  "smComSocket_Transceive os jc conn_ctx pApdu s = smComSocket_TransceiveFD os jc (ctx_fd conn_ctx) pApdu s"

definition smComSocket_TransceiveRaw :: "'w Os \<Rightarrow> Jrcp \<Rightarrow> SmComSocketCtx_t \<Rightarrow> bytes option \<Rightarrow> u16 \<Rightarrow>
    bytes option \<Rightarrow> u32 option \<Rightarrow> 'w SmSock \<Rightarrow> (u32 \<times> bytes option \<times> u32 option \<times> 'w SmSock) option" where
  "smComSocket_TransceiveRaw os jc conn_ctx pTx txLen pRx pRxLen s =
     smComSocket_TransceiveRawFD os jc (ctx_fd conn_ctx) pTx txLen pRx pRxLen s"

definition smComSocket_Open :: "'w Os \<Rightarrow> Jrcp \<Rightarrow> bool \<Rightarrow> u32 \<Rightarrow> SmComSocketCtx_t option option \<Rightarrow> string option \<Rightarrow>
    u16 \<Rightarrow> bytes option \<Rightarrow> u16 option \<Rightarrow> 'w SmSock \<Rightarrow>
    (u16 \<times> SmComSocketCtx_t option option \<times> bytes option \<times> u16 option \<times> 'w SmSock) option" where
  "smComSocket_Open os jc malloc_ok init_status conn_ctx pIpAddrString portNo pAtr atrLen s =
     (case (conn_ctx, pIpAddrString) of
        (Some _, Some host) \<Rightarrow>
          (case os_getaddrinfo os host (uint_text (unat portNo)) (sk_world s) of (res, w) \<Rightarrow>
             (case res of
                Some (ai # _) \<Rightarrow>
                  (case os_socket os ai w of
                     (Inl e, w) \<Rightarrow>
                       Some (ucast (SMCOM_COM_FAILED jc), conn_ctx, pAtr, atrLen,
                         s\<lparr>sk_errno := Some e, sk_world := w\<rparr>)
                   | (Inr fd, w) \<Rightarrow>
                       (case os_connect os fd ai w of
                          (Inl e, w) \<Rightarrow>
                            Some (ucast (SMCOM_COM_FAILED jc), conn_ctx, pAtr, atrLen,
                              sk_close os fd (s\<lparr>sk_errno := Some e, sk_world := w\<rparr>))
                        | (Inr _, w) \<Rightarrow>
                            (case smComSocket_GetATRFD os jc fd pAtr atrLen (s\<lparr>sk_world := w\<rparr>) of
                               None \<Rightarrow> None
                             | Some (rc, pAtr, atrLen, s) \<Rightarrow>
                                 if rc \<noteq> SMCOM_OK jc
                                 then Some (ucast (SMCOM_COM_FAILED jc), conn_ctx, pAtr, atrLen, sk_close os fd s)
                                 else if \<not> malloc_ok
                                 then Some (ucast (SMCOM_COM_FAILED jc), conn_ctx, pAtr, atrLen, sk_close os fd s)
                                 else Some (ucast init_status, Some (Some \<lparr>ctx_fd = fd\<rparr>), pAtr, atrLen, s))))
              | _ \<Rightarrow> Some (ucast (SMCOM_COM_FAILED jc), conn_ctx, pAtr, atrLen, s\<lparr>sk_world := w\<rparr>)))
      | _ \<Rightarrow> Some (ucast (SMCOM_COM_FAILED jc), conn_ctx, pAtr, atrLen, s))"

definition smComSocket_Close :: "'w Os \<Rightarrow> Jrcp \<Rightarrow> SmComSocketCtx_t option \<Rightarrow> 'w SmSock \<Rightarrow> (u16 \<times> 'w SmSock) option" where
  "smComSocket_Close os jc conn_ctx s =
     (case conn_ctx of
        None \<Rightarrow> Some (ucast (SMCOM_OK jc), s)
      | Some c \<Rightarrow>
          (case smComSocket_CloseFD os jc (ctx_fd c) s of
             None \<Rightarrow> None
           | Some (_, s) \<Rightarrow> Some (ucast (SMCOM_OK jc), s)))"

definition smComSocket_LockChannel :: "Jrcp \<Rightarrow> SmComSocketCtx_t option \<Rightarrow> u32" where
  "smComSocket_LockChannel jc conn_ctx = SMCOM_OK jc"

definition smComSocket_UnlockChannel :: "Jrcp \<Rightarrow> SmComSocketCtx_t option \<Rightarrow> u32" where
  "smComSocket_UnlockChannel jc conn_ctx = SMCOM_OK jc"

subsection \<open>Frames\<close>

lemma be16_nat: "be16 hi lo = 256 * unat hi + unat lo"
proof -
  have "(push_bit 8 (ucast hi) :: u32) AND ucast lo = 0"
    by (rule bit_word_eqI) (auto simp: bit_simps dest: bit_imp_le_length)
  then have "(push_bit 8 (ucast hi) OR ucast lo :: u32) = push_bit 8 (ucast hi) + ucast lo"
    by (simp add: disjunctive_add_eq_or)
  also have "\<dots> = word_of_nat (256 * unat hi + unat lo)" by (simp add: push_bit_eq_mult)
  finally have "be16 hi lo = unat (word_of_nat (256 * unat hi + unat lo) :: u32)"
    by (simp add: be16_def)
  moreover have "256 * unat hi + unat lo < 2 ^ LENGTH(32)"
    using unsigned_less [of hi, where ?'a = nat] unsigned_less [of lo, where ?'a = nat] by simp
  ultimately show ?thesis by (simp only: unat_of_nat mod_less)
qed

text \<open>A frame with the body \<open>body\<close>.\<close>

definition jrcp_frame :: "u8 \<Rightarrow> u8 \<Rightarrow> bytes \<Rightarrow> bytes" where
  "jrcp_frame mty nad body =
     [mty, nad, word_of_nat (length body div 256), word_of_nat (length body)] @ body"

lemma length_jrcp_frame [simp]: "length (jrcp_frame mty nad body) = length body + 4"
  by (simp add: jrcp_frame_def)

lemma drop_jrcp_frame [simp]: "drop 4 (jrcp_frame mty nad body) = body"
  by (simp add: jrcp_frame_def)

lemma be16_frame:
  assumes "length body < 65536"
  shows "be16 (jrcp_frame mty nad body ! 2) (jrcp_frame mty nad body ! 3) = length body"
proof -
  have "length body div 256 < 256" using assms by (simp add: less_mult_imp_div_less)
  then show ?thesis
    by (simp add: jrcp_frame_def be16_nat unat_of_nat take_bit_eq_mod)
qed

lemma length_jrcp_header [simp]: "length (jrcp_header n) = 4"
  by (simp add: jrcp_header_def Header_def Let_def)

lemma header_high: "(ucast (drop_bit 8 ((ucast (n :: u16) :: u32) AND 0xFF00)) :: u8) = ucast (drop_bit 8 n)"
proof (rule bit_word_eqI)
  fix i
  assume "i < LENGTH(8)"
  then have "i \<in> {0, 1, 2, 3, 4, 5, 6, 7}" by auto
  then show "bit (ucast (drop_bit 8 ((ucast (n :: u16) :: u32) AND 0xFF00)) :: u8) i =
      bit (ucast (drop_bit 8 n) :: u8) i"
    by (auto simp: bit_simps)
qed

lemma header_low: "(ucast ((ucast (n :: u16) :: u32) AND 0xFF) :: u8) = ucast n"
proof (rule bit_word_eqI)
  fix i
  assume "i < LENGTH(8)"
  then have "i \<in> {0, 1, 2, 3, 4, 5, 6, 7}" by auto
  then show "bit (ucast ((ucast (n :: u16) :: u32) AND 0xFF) :: u8) i = bit (ucast n :: u8) i"
    by (auto simp: bit_simps)
qed

lemma jrcp_header_frame:
  assumes "length body = unat n"
  shows "jrcp_header n @ body = jrcp_frame 1 0 body"
proof -
  have "unat n div 256 = unat (drop_bit 8 n)"
    using unat_drop_bit_eq [of 8 n] by (simp add: drop_bit_eq_div)
  then have "(word_of_nat (length body div 256) :: u8) = ucast (drop_bit 8 n)" using assms by simp
  then show ?thesis
    unfolding jrcp_header_def Let_def header_high header_low
    by (simp add: jrcp_frame_def Header_def assms)
qed

subsection \<open>Receiving a frame\<close>

text \<open>
  What the loop is asked to do: \<open>ask\<close> fits the buffer, and where something follows the frame it asks
  for no more than the frame still lacks.
\<close>

definition asks_for :: "(nat \<Rightarrow> nat \<Rightarrow> bool \<Rightarrow> nat option) \<Rightarrow> nat \<Rightarrow> nat \<Rightarrow> bool \<Rightarrow> bool" where
  "asks_for ask room len exact \<longleftrightarrow>
     (\<forall>t e known. t < e \<longrightarrow> e \<le> len \<longrightarrow> (known \<or> e = 4) \<longrightarrow>
        (\<exists>n. ask t e known = Some n \<and> 0 < n \<and> t + n \<le> room \<and> (exact \<longrightarrow> n \<le> e - t)))"

lemma asks_forE:
  assumes "asks_for ask room len exact" "t < e" "e \<le> len" "known \<or> e = 4"
  obtains n where "ask t e known = Some n" "0 < n" "t + n \<le> room" "exact \<Longrightarrow> n \<le> e - t"
  using assms unfolding asks_for_def by blast

lemma close_asks: "len \<le> MAX_BUF_SIZE jc \<Longrightarrow> asks_for (close_ask jc) (MAX_BUF_SIZE jc) len True"
  by (auto simp: asks_for_def close_ask_def REMOTE_JC_SHELL_HEADER_LEN_def Let_def)

lemma transceive_asks: "len \<le> MAX_BUF_SIZE jc \<Longrightarrow> asks_for (transceive_ask jc) (MAX_BUF_SIZE jc) len False"
  by (auto simp: asks_for_def transceive_ask_def)

lemma lock_asks: "asks_for (lock_ask 4) 4 4 True"
  by (auto simp: asks_for_def lock_ask_def Let_def)

lemma lock_ask_fits: "t < 4 \<Longrightarrow> lock_ask 4 t 4 known = Some (4 - t)"
  by (simp add: lock_ask_def)

context posix
begin

text \<open>
  A frame \<open>f\<close> that the peer delivers, in whatever pieces and with whatever interruptions, is
  received whole; the value of \<open>errno\<close> does not matter, since \<open>recv\<close> never returns 0 before the end.
\<close>

lemma recv_frame_receives:
  assumes "connected (Some fd) (sk_world s)" "t \<le> length f" "length f \<le> length buf"
    and "take t buf @ inbound (sk_world s) = f @ tail" "exact \<or> tail = []"
    and "asks_for ask (length buf) (length f) exact" "4 \<le> length f"
    and "known \<and> e = length f \<or> \<not> known \<and> e = 4 \<and> t < 4 \<and> length f = 4 + be16 (f ! 2) (f ! 3)"
  shows "\<exists>buf' s'. recv_frame os ask fd t e known buf s = Some (Received (length f), buf', s') \<and>
    length buf' = length buf \<and> take (length f) buf' = f \<and>
    connected (Some fd) (sk_world s') \<and> inbound (sk_world s') = tail \<and>
    outbound (sk_world s') = outbound (sk_world s) \<and> sk_sockapdu s' = sk_sockapdu s \<and>
    sk_response s' = sk_response s"
  using assms
proof (induction "(length f - t, patience (sk_world s))" arbitrary: t e known buf s
    rule: wf_induct_rule [OF wf_lex_prod [OF wf_less_than wf_less_than]])
  case 1
  note IH = 1(1) and prems = 1(2-)
  show ?case
  proof (cases "t < e")
    case False
    then have "known" "t = length f" "e = length f" using prems(2,7,8) by auto
    with prems(3,4) show ?thesis
      using prems(1) by (auto simp: recv_frame.simps)
  next
    case True
    have "e \<le> length f" "known \<or> e = 4" using prems(7,8) by auto
    with True prems(6) obtain n where n: "ask t e known = Some n" "0 < n" "t + n \<le> length buf"
      "exact \<Longrightarrow> n \<le> e - t" by (auto elim: asks_forE)
    obtain r w where r: "os_recv os (Some fd) n (sk_world s) = (r, w)" by fastforce
    note law = recv_law [OF prems(1) r]
    show ?thesis
    proof (cases r)
      case (Inl err)
      with law have w: "err = EINTR" "patience w < patience (sk_world s)" "inbound w = inbound (sk_world s)"
        "outbound w = outbound (sk_world s)" "connected (Some fd) w" by auto
      from IH [where t = t and s = "s\<lparr>sk_errno := Some EINTR, sk_world := w\<rparr>" and buf = buf and e = e and known = known] prems w
      show ?thesis
        using True n r Inl by (simp add: recv_frame.simps [of os ask fd t e known buf s])
    next
      case (Inr data)
      have len: "length (inbound (sk_world s)) = length f + length tail - t"
        using arg_cong [OF prems(4), of length] prems(2,3) by simp
      then have "inbound (sk_world s) \<noteq> []" using True \<open>e \<le> length f\<close> by auto
      with law Inr n(2) have d: "length data \<le> n" "inbound (sk_world s) = data @ inbound w" "data \<noteq> []"
        "outbound w = outbound (sk_world s)" "connected (Some fd) w" by auto
      let ?t = "t + length data" and ?buf = "memcpy buf t data" and ?s = "s\<lparr>sk_world := w\<rparr>"
      have fit: "?t \<le> length buf" using d(1) n(3) by simp
      have t: "?t \<le> length f"
      proof (cases exact)
        case True
        then show ?thesis using n(4) d(1) \<open>t < e\<close> \<open>e \<le> length f\<close> by simp
      next
        case False
        then show ?thesis using prems(5) len arg_cong [OF d(2), of length] prems(2) by simp
      qed
      have cont: "take ?t ?buf @ inbound w = f @ tail"
        using prems(4) d(2) fit by (simp add: take_memcpy)
      have pre: "take ?t ?buf = take ?t f"
        using arg_cong [OF cont, of "take ?t"] fit t by simp
      define e' known' where "e' = (if 4 \<le> ?t \<and> \<not> known then e + be16 (?buf ! 2) (?buf ! 3) else e)"
        and "known' = (4 \<le> ?t \<or> known)"
      have "4 \<le> ?t \<Longrightarrow> ?buf ! 2 = f ! 2 \<and> ?buf ! 3 = f ! 3"
        using pre nth_take [of 2 ?t ?buf] nth_take [of 2 ?t f] nth_take [of 3 ?t ?buf] nth_take [of 3 ?t f]
        by simp
      then have k: "known' \<and> e' = length f \<or>
          \<not> known' \<and> e' = 4 \<and> ?t < 4 \<and> length f = 4 + be16 (f ! 2) (f ! 3)"
        using prems(8) by (auto simp: e'_def known'_def)
      have "recv_frame os ask fd t e known buf s = recv_frame os ask fd ?t e' known' ?buf ?s"
        using True n r Inr d(3)
        by (subst recv_frame.simps, cases "4 \<le> ?t"; cases known)
          (simp_all add: REMOTE_JC_SHELL_HEADER_LEN_def e'_def known'_def)
      moreover have "length f - ?t < length f - t" using d(3) t by (cases data) auto
      ultimately show ?thesis
        using IH [where t = ?t and s = ?s and buf = ?buf and e = e' and known = known'] d(4,5) t cont k prems(3,5,6,7) fit by simp
    qed
  qed
qed

end


subsection \<open>A link that takes commands whole\<close>

text \<open>
  The operations send once and do not look at how much was taken, so the link has to take a command
  whole and without interruption.
\<close>

locale card_link = posix os connected inbound outbound patience
  for os :: "'w Os" and connected inbound outbound patience +
  assumes send_whole: "connected fd w \<Longrightarrow> os_send os fd src w = (r, w') \<Longrightarrow> r = Inr (length src)"
begin

lemma sk_send_whole:
  assumes "connected (Some fd) (sk_world s)" "src \<noteq> []"
  shows "\<exists>w. sk_send os fd src s = (True, s\<lparr>sk_world := w\<rparr>) \<and> connected (Some fd) w \<and>
    inbound w = inbound (sk_world s) \<and> outbound w = outbound (sk_world s) @ src"
proof -
  obtain r w where r: "os_send os (Some fd) src (sk_world s) = (r, w)" by fastforce
  have "r = Inr (length src)" by (rule send_whole [OF assms(1) r])
  with send_law [OF assms r] r show ?thesis by (auto simp: sk_send_def)
qed

lemma exchange:
  assumes "connected (Some fd) (sk_world s)" "src \<noteq> []"
    and "inbound (sk_world s) = jrcp_frame mty nad rsp @ tail" "length rsp < 65536"
    and "length rsp + 4 \<le> length buf" "asks_for ask (length buf) (length rsp + 4) exact"
    and "exact \<or> tail = []"
  shows "\<exists>w buf' s'. sk_send os fd src s = (True, s\<lparr>sk_world := w\<rparr>) \<and>
    recv_frame os ask fd 0 REMOTE_JC_SHELL_HEADER_LEN False buf (s\<lparr>sk_world := w\<rparr>) =
      Some (Received (length rsp + 4), buf', s') \<and>
    length buf' = length buf \<and> take (length rsp) (drop 4 buf') = rsp \<and>
    connected (Some fd) (sk_world s') \<and> inbound (sk_world s') = tail \<and>
    outbound (sk_world s') = outbound (sk_world s) @ src \<and> sk_sockapdu s' = sk_sockapdu s"
proof -
  from sk_send_whole [OF assms(1,2)] obtain w where w: "sk_send os fd src s = (True, s\<lparr>sk_world := w\<rparr>)"
    "connected (Some fd) w" "inbound w = inbound (sk_world s)" "outbound w = outbound (sk_world s) @ src"
    by auto
  from recv_frame_receives [of fd "s\<lparr>sk_world := w\<rparr>" 0 "jrcp_frame mty nad rsp" buf tail exact ask False 4]
  obtain buf' s' where b: "recv_frame os ask fd 0 4 False buf (s\<lparr>sk_world := w\<rparr>) =
      Some (Received (length rsp + 4), buf', s')" "length buf' = length buf"
    "take (length rsp + 4) buf' = jrcp_frame mty nad rsp"
    "connected (Some fd) (sk_world s')" "inbound (sk_world s') = tail"
    "outbound (sk_world s') = outbound w" "sk_sockapdu s' = sk_sockapdu s"
    using w assms by (auto simp: be16_frame)
  have "take (length rsp) (drop 4 buf') = rsp"
    using arg_cong [OF b(3), of "drop 4"] by (simp add: drop_take)
  with b w show ?thesis by (auto simp: REMOTE_JC_SHELL_HEADER_LEN_def)
qed

text \<open>A command goes out as one frame, and the body of the answer ends up in front of the buffer.\<close>

lemma sent_frame:
  assumes "unat n + 4 \<le> m" "m < 65536" "unat n \<le> length body"
  shows "take (unat (n + 4)) (memcpy (memcpy (replicate m 0) 0 (jrcp_header n)) 4 (take (unat n) body)) =
    jrcp_frame 1 0 (take (unat n) body)"
proof -
  have n4: "unat (n + 4) = unat n + 4" using assms by (simp add: unat_word_ariths)
  have "memcpy (replicate m (0 :: u8)) 0 (jrcp_header n) = jrcp_header n @ replicate (m - 4) 0"
    by (simp add: memcpy_def)
  then have "memcpy (memcpy (replicate m 0) 0 (jrcp_header n)) 4 (take (unat n) body) =
      (jrcp_header n @ take (unat n) body) @ replicate (m - 4 - unat n) 0"
    using assms by (simp add: memcpy_def min_absorb2)
  moreover have "jrcp_header n @ take (unat n) body = jrcp_frame 1 0 (take (unat n) body)"
    using assms by (intro jrcp_header_frame) simp
  ultimately show ?thesis using assms n4 by (simp add: min_absorb2)
qed

lemma TransceiveFD_exchange:
  assumes "connected (Some fd) (sk_world s)" "inbound (sk_world s) = jrcp_frame mty nad rsp"
    and "unat (buflen a) + 4 \<le> MAX_BUF_SIZE jc" "MAX_BUF_SIZE jc < 65536"
    and "unat (buflen a) \<le> length (pBuf a)" "unat (rxlen a) \<le> length (pBuf a)"
    and "length rsp \<le> unat (rxlen a)" "length rsp + 4 \<le> MAX_BUF_SIZE jc"
  shows "\<exists>s'. smComSocket_TransceiveFD os jc fd (Some a) s =
      Some (SMCOM_OK jc, Some (a\<lparr>buflen := buflen a + 4, pBuf := memcpy (pBuf a) 0 rsp,
        rxlen := word_of_nat (length rsp), offset := 0\<rparr>), s') \<and>
    connected (Some fd) (sk_world s') \<and> inbound (sk_world s') = [] \<and>
    outbound (sk_world s') = outbound (sk_world s) @ jrcp_frame 1 0 (take (unat (buflen a)) (pBuf a))"
proof -
  let ?cmd = "memcpy (memcpy (replicate (MAX_BUF_SIZE jc) 0) 0 (jrcp_header (buflen a))) 4
      (take (unat (buflen a)) (pBuf a))"
  let ?s = "s\<lparr>sk_response := replicate (MAX_BUF_SIZE jc) 0, sk_sockapdu := ?cmd\<rparr>"
  have sent: "take (unat (buflen a + 4)) ?cmd = jrcp_frame 1 0 (take (unat (buflen a)) (pBuf a))"
    by (rule sent_frame [OF assms(3,4,5)])
  then have "take (unat (buflen a + 4)) ?cmd \<noteq> []" by (simp add: jrcp_frame_def)
  from exchange [of fd ?s, OF _ this, of mty nad rsp "[]" "replicate (MAX_BUF_SIZE jc) 0"
      "transceive_ask jc" False] assms transceive_asks [of "length rsp + 4" jc]
  obtain w buf' s' where x: "sk_send os fd (take (unat (buflen a + 4)) ?cmd) ?s = (True, ?s\<lparr>sk_world := w\<rparr>)"
    "recv_frame os (transceive_ask jc) fd 0 REMOTE_JC_SHELL_HEADER_LEN False
      (replicate (MAX_BUF_SIZE jc) 0) (?s\<lparr>sk_world := w\<rparr>) = Some (Received (length rsp + 4), buf', s')"
    "take (length rsp) (drop 4 buf') = rsp" "connected (Some fd) (sk_world s')"
    "inbound (sk_world s') = []"
    "outbound (sk_world s') = outbound (sk_world s) @ take (unat (buflen a + 4)) ?cmd"
    by auto
  have "\<not> MAX_BUF_SIZE jc - 4 < unat (buflen a)" "\<not> MAX_BUF_SIZE jc - 4 < length rsp"
    using assms(3,8) by simp_all
  with x assms(7) have "smComSocket_TransceiveFD os jc fd (Some a) s =
      Some (SMCOM_OK jc, Some (a\<lparr>buflen := buflen a + 4, pBuf := memcpy (pBuf a) 0 rsp,
        rxlen := word_of_nat (length rsp), offset := 0\<rparr>), s'\<lparr>sk_response := buf'\<rparr>)"
    by (simp add: smComSocket_TransceiveFD_def Let_def)
  with x sent show ?thesis by auto
qed

lemma TransceiveRawFD_exchange:
  assumes "connected (Some fd) (sk_world s)" "inbound (sk_world s) = jrcp_frame mty nad rsp"
    and "unat n + 4 \<le> MAX_BUF_SIZE jc" "MAX_BUF_SIZE jc < 65536" "unat n \<le> length tx"
    and "length rsp \<le> unat rxl" "length rsp + 4 \<le> MAX_BUF_SIZE jc"
  shows "\<exists>s'. smComSocket_TransceiveRawFD os jc fd (Some tx) n (Some rx) (Some rxl) s =
      Some (SMCOM_OK jc, Some (memcpy rx 0 rsp), Some (word_of_nat (length rsp)), s') \<and>
    connected (Some fd) (sk_world s') \<and> inbound (sk_world s') = [] \<and>
    outbound (sk_world s') = outbound (sk_world s) @ jrcp_frame 1 0 (take (unat n) tx)"
proof -
  let ?cmd = "memcpy (memcpy (replicate (MAX_BUF_SIZE jc) 0) 0 (jrcp_header n)) 4 (take (unat n) tx)"
  let ?s = "s\<lparr>sk_response := replicate (MAX_BUF_SIZE jc) 0, sk_sockapdu := ?cmd\<rparr>"
  have sent: "take (unat (n + 4)) ?cmd = jrcp_frame 1 0 (take (unat n) tx)"
    by (rule sent_frame [OF assms(3,4,5)])
  then have "take (unat (n + 4)) ?cmd \<noteq> []" by (simp add: jrcp_frame_def)
  from exchange [of fd ?s, OF _ this, of mty nad rsp "[]" "replicate (MAX_BUF_SIZE jc) 0"
      "transceive_ask jc" False] assms transceive_asks [of "length rsp + 4" jc]
  obtain w buf' s' where x: "sk_send os fd (take (unat (n + 4)) ?cmd) ?s = (True, ?s\<lparr>sk_world := w\<rparr>)"
    "recv_frame os (transceive_ask jc) fd 0 REMOTE_JC_SHELL_HEADER_LEN False
      (replicate (MAX_BUF_SIZE jc) 0) (?s\<lparr>sk_world := w\<rparr>) = Some (Received (length rsp + 4), buf', s')"
    "take (length rsp) (drop 4 buf') = rsp" "connected (Some fd) (sk_world s')"
    "inbound (sk_world s') = []"
    "outbound (sk_world s') = outbound (sk_world s) @ take (unat (n + 4)) ?cmd"
    by auto
  have "\<not> MAX_BUF_SIZE jc - 4 < unat n" "\<not> MAX_BUF_SIZE jc - 4 < length rsp"
    using assms(3,7) by simp_all
  with x assms(6) have "smComSocket_TransceiveRawFD os jc fd (Some tx) n (Some rx) (Some rxl) s =
      Some (SMCOM_OK jc, Some (memcpy rx 0 rsp), Some (word_of_nat (length rsp)),
        s'\<lparr>sk_response := buf'\<rparr>)"
    by (simp add: smComSocket_TransceiveRawFD_def Let_def REMOTE_JC_SHELL_HEADER_LEN_def)
  with x sent show ?thesis by auto
qed

lemma CloseFD_exchange:
  assumes "connected (Some fd) (sk_world s)" "inbound (sk_world s) = jrcp_frame mty nad rsp @ tail"
    and "length (sk_response s) = MAX_BUF_SIZE jc" "length rsp + 4 \<le> MAX_BUF_SIZE jc" "length rsp < 65536"
  shows "\<exists>s' w. smComSocket_CloseFD os jc fd s = Some (0, s') \<and> sk_world s' = os_close os fd w \<and>
    inbound w = tail \<and> outbound w = outbound (sk_world s) @ [MTY_CLOSE jc, MYT_DEFAULT_NAD jc, 0, 0]"
proof -
  from exchange [OF assms(1) _ assms(2,5), of "[MTY_CLOSE jc, MYT_DEFAULT_NAD jc, 0, 0]" "sk_response s"
      "close_ask jc" True] assms(3,4) close_asks [of "length rsp + 4" jc]
  obtain w buf' s' where x: "sk_send os fd [MTY_CLOSE jc, MYT_DEFAULT_NAD jc, 0, 0] s = (True, s\<lparr>sk_world := w\<rparr>)"
    "recv_frame os (close_ask jc) fd 0 REMOTE_JC_SHELL_HEADER_LEN False (sk_response s) (s\<lparr>sk_world := w\<rparr>) =
      Some (Received (length rsp + 4), buf', s')" "inbound (sk_world s') = tail"
    "outbound (sk_world s') = outbound (sk_world s) @ [MTY_CLOSE jc, MYT_DEFAULT_NAD jc, 0, 0]"
    by auto
  then show ?thesis
    by (intro exI [of _ "sk_close os fd (s'\<lparr>sk_response := buf'\<rparr>)"] exI [of _ "sk_world s'"])
      (simp add: smComSocket_CloseFD_def sk_close_def Let_def)
qed

lemma channel_op_exchange:
  assumes "connected (Some fd) (sk_world s)" "inbound (sk_world s) = [r0, r1, r2, r3] @ tail"
  shows "\<exists>s'. channel_op os fd mty s = Some (ucast r3, s') \<and> inbound (sk_world s') = tail \<and>
    outbound (sk_world s') = outbound (sk_world s) @ [mty, 0, 0, 0]"
proof -
  from sk_send_whole [OF assms(1), of "[mty, 0, 0, 0]"] obtain w where
    w: "sk_send os fd [mty, 0, 0, 0] s = (True, s\<lparr>sk_world := w\<rparr>)" "connected (Some fd) w"
    "inbound w = inbound (sk_world s)" "outbound w = outbound (sk_world s) @ [mty, 0, 0, 0]"
    by auto
  obtain f :: bytes where f: "f = [r0, r1, r2, r3]" "length f = 4" by simp
  from recv_frame_receives [of fd "s\<lparr>sk_world := w\<rparr>" 0 f "replicate 4 0" tail True
      "lock_ask 4" True 4] w f(2) assms lock_asks
  obtain buf' s' where b: "recv_frame os (lock_ask 4) fd 0 4 True (replicate 4 0) (s\<lparr>sk_world := w\<rparr>) =
      Some (Received 4, buf', s')" "length buf' = 4" "take 4 buf' = f"
    "inbound (sk_world s') = tail" "outbound (sk_world s') = outbound w"
    unfolding f(1) [symmetric] append_Cons append_Nil by (auto simp: f(1) [symmetric])
  then have "buf' ! 3 = r3" by (simp add: f(1))
  with b w show ?thesis by (auto simp: channel_op_def REMOTE_JC_SHELL_HEADER_LEN_def)
qed

end

subsection \<open>A card server that hesitates\<close>

text \<open>The loopback of \<open>HostTcp\<close> with commands taken whole; answers come in pieces, after interruptions.\<close>

definition card_loopback :: "Loopback Os" where
  "card_loopback = loopback\<lparr>os_send := (\<lambda>fd src w. (Inr (length src), w\<lparr>lb_out := lb_out w @ src\<rparr>))\<rparr>"

interpretation card: card_link card_loopback "\<lambda>_ _. True" lb_in lb_out lb_interrupts
  by unfold_locales
    (auto simp: card_loopback_def loopback_def lb_step_def min_def Cons_eq_append_conv split: if_splits)

subsection \<open>Any peer\<close>

text \<open>
  Nothing is assumed of the peer here but that \<open>recv\<close> gives no more than it is asked for: the
  buffers keep their lengths, so nothing is written behind their ends.
\<close>

definition recv_bounded :: "'w Os \<Rightarrow> bool" where
  "recv_bounded os \<longleftrightarrow> (\<forall>fd n w data w'. os_recv os fd n w = (Inr data, w') \<longrightarrow> length data \<le> n)"

definition asks_within :: "(nat \<Rightarrow> nat \<Rightarrow> bool \<Rightarrow> nat option) \<Rightarrow> nat \<Rightarrow> bool" where
  "asks_within ask room \<longleftrightarrow>
     (\<forall>t e known n. t \<le> room \<longrightarrow> t < e \<longrightarrow> ask t e known = Some n \<longrightarrow> t + n \<le> room)"

lemma transceive_asks_within: "asks_within (transceive_ask jc) (MAX_BUF_SIZE jc)"
  by (simp add: asks_within_def transceive_ask_def)

lemma atr_asks_within: "asks_within (atr_ask jc) (MAX_BUF_SIZE jc)"
  by (auto simp: asks_within_def atr_ask_def split: if_splits)

lemma close_asks_within: "asks_within (close_ask jc) (MAX_BUF_SIZE jc)"
  by (auto simp: asks_within_def close_ask_def Let_def split: if_splits)

lemma recv_frame_within:
  assumes "recv_frame os ask fd t e known buf s = Some y"
    and "recv_bounded os" "asks_within ask (length buf)" "t \<le> length buf"
  shows "case y of (res, buf', s') \<Rightarrow> length buf' = length buf \<and> sk_sockapdu s' = sk_sockapdu s \<and>
      sk_response s' = sk_response s \<and> (\<forall>k. res = Received k \<longrightarrow> e \<le> k \<and> k \<le> length buf)"
proof -
  have "recv_bounded os \<longrightarrow> asks_within ask (length buf) \<longrightarrow> t \<le> length buf \<longrightarrow>
    (case y of (res, buf', s') \<Rightarrow> length buf' = length buf \<and> sk_sockapdu s' = sk_sockapdu s \<and>
      sk_response s' = sk_response s \<and> (\<forall>k. res = Received k \<longrightarrow> e \<le> k \<and> k \<le> length buf))"
  proof (rule recv_frame.raw_induct [OF _ assms(1)], intro impI, goal_cases)
  case (1 f os ask fd t e known buf s y)
  show ?case
  proof (cases "t < e")
    case False
    with 1 show ?thesis by auto
  next
    case True
    show ?thesis
    proof (cases "ask t e known")
      case None
      with 1 True show ?thesis by auto
    next
      case (Some n)
      obtain r w where r: "os_recv os (Some fd) n (sk_world s) = (r, w)" by fastforce
      have fit: "t + n \<le> length buf" using 1(4,5) Some True by (auto simp: asks_within_def)
      show ?thesis
      proof (cases r)
        case (Inl err)
        with 1 True Some r show ?thesis by (fastforce split: if_splits)
      next
        case (Inr data)
        then have "length data \<le> n" using 1(3) r unfolding recv_bounded_def by blast
        then have len: "t + length data \<le> length buf" using fit by simp
        show ?thesis
        proof (cases "data = []")
          case True
          with 1 \<open>t < e\<close> Some r Inr show ?thesis by (fastforce split: if_splits)
        next
          case False
          with 1(2) \<open>t < e\<close> Some r Inr obtain e' known' where
            "f os ask fd (t + length data) e' known' (memcpy buf t data) (s\<lparr>sk_world := w\<rparr>) = Some y" "e \<le> e'"
            by (auto split: if_splits)
          with 1(1) [OF this(1)] 1(3,4) len show ?thesis by auto
        qed
      qed
    qed
  qed
  qed
  with assms(2-4) show ?thesis by blast
qed

text \<open>A peer that has closed, seen with \<open>errno\<close> still \<open>EINTR\<close> from an earlier call: the loop goes on.\<close>

lemma recv_frame_spins:
  assumes "t < e" "ask t e known = Some n" "os_recv os (Some fd) n w = (Inr [], w)"
    and "sk_errno s = Some EINTR" "sk_world s = w"
  shows "recv_frame os ask fd t e known buf s = None"
proof (rule ccontr)
  assume "recv_frame os ask fd t e known buf s \<noteq> None"
  then obtain y where y: "recv_frame os ask fd t e known buf s = Some y" by blast
  have "t < e \<longrightarrow> ask t e known = Some n \<longrightarrow> os_recv os (Some fd) n (sk_world s) = (Inr [], sk_world s) \<longrightarrow>
      sk_errno s = Some EINTR \<longrightarrow> False"
  proof (rule recv_frame.raw_induct [OF _ y], intro impI, goal_cases)
    case (1 f os ask fd t e known buf s y)
    then have "f os ask fd t e known buf (s\<lparr>sk_world := sk_world s\<rparr>) = Some y" by simp
    from 1(1) [OF this] 1(3-6) show ?case by simp
  qed
  with assms show False by blast
qed

lemma GetATRFD_status:
  "smComSocket_GetATRFD os jc fd pAtr atrLen s = Some (rc, pAtr', atrLen', s') \<Longrightarrow> rc \<in> {0, - 1}"
  by (auto simp: smComSocket_GetATRFD_def Let_def split: option.splits prod.splits if_splits RecvEnd.splits)

subsection \<open>Properties\<close>


definition jrcp_example :: Jrcp where
  "jrcp_example =
     \<lparr>MAX_BUF_SIZE = 900, SMCOM_OK = 0x9000, SMCOM_SND_FAILED = 0x7010, SMCOM_RCV_FAILED = 0x7011,
      SMCOM_COM_FAILED = 0x7012, MTY_WAIT_FOR_CARD = 0, MTY_CLOSE = 3, MTY_LOCK = 5, MTY_UNLOCK = 6,
      MYT_DEFAULT_NAD = 0\<rparr>"

definition smsock_example :: "bytes \<Rightarrow> nat \<Rightarrow> Loopback SmSock" where
  "smsock_example answer interrupts =
     \<lparr>sk_sockapdu = replicate 900 0, sk_response = replicate 900 0, sk_errno = None,
      sk_world = \<lparr>lb_in = answer, lb_out = [], lb_interrupts = interrupts\<rparr>\<rparr>"


text \<open>
  C12: against any peer, and whatever happens on the connection, a \<open>TransceiveFD\<close> that returns has
  kept the length of the two static buffers and of the caller's, so that it wrote behind the end of
  none of them; \<open>rxlen\<close> grows in no case, and anything but \<open>SMCOM_OK\<close> leaves the caller's buffer
  as it was.
\<close>

theorem transceive_in_bounds:
  assumes "smComSocket_TransceiveFD os jc fd (Some a) s = Some (rc, a', s')"
    and "recv_bounded os" "4 \<le> MAX_BUF_SIZE jc" "unat (buflen a) \<le> length (pBuf a)"
    and "unat (rxlen a) \<le> length (pBuf a)" "MAX_BUF_SIZE jc < 65536"
  shows "length (sk_sockapdu s') = MAX_BUF_SIZE jc \<and> length (sk_response s') = MAX_BUF_SIZE jc \<and>
    (\<exists>b. a' = Some b \<and> length (pBuf b) = length (pBuf a) \<and> unat (rxlen b) \<le> unat (rxlen a) \<and>
      (pBuf b \<noteq> pBuf a \<or> rxlen b \<noteq> rxlen a \<longrightarrow> rc = SMCOM_OK jc))"
proof (cases "unat (buflen a) \<le> MAX_BUF_SIZE jc - 4")
  case False
  with assms show ?thesis by (auto simp: smComSocket_TransceiveFD_def Let_def)
next
  case True
  let ?cmd = "memcpy (memcpy (replicate (MAX_BUF_SIZE jc) 0) 0 (jrcp_header (buflen a))) 4
      (take (unat (buflen a)) (pBuf a))"
  let ?s = "s\<lparr>sk_response := replicate (MAX_BUF_SIZE jc) 0, sk_sockapdu := ?cmd\<rparr>"
  have cmd: "length ?cmd = MAX_BUF_SIZE jc" using True assms(3,4) by simp
  obtain sent s1 where snd: "sk_send os fd (take (unat (buflen a + 4)) ?cmd) ?s = (sent, s1)" by fastforce
  then have s1: "sk_sockapdu s1 = ?cmd" "sk_response s1 = replicate (MAX_BUF_SIZE jc) 0"
    by (auto simp: sk_send_def split: prod.splits sum.splits)
  show ?thesis
  proof (cases sent)
    case False
    with assms(1) True snd s1 cmd show ?thesis by (auto simp: smComSocket_TransceiveFD_def Let_def)
  next
    case sent: True
    with assms(1) True snd s1 obtain res buf s2 where
      rf: "recv_frame os (transceive_ask jc) fd 0 REMOTE_JC_SHELL_HEADER_LEN False
        (replicate (MAX_BUF_SIZE jc) 0) s1 = Some (res, buf, s2)"
      by (auto simp: smComSocket_TransceiveFD_def Let_def split: option.splits)
    from recv_frame_within [OF rf assms(2)] transceive_asks_within [of jc]
    have b: "length buf = MAX_BUF_SIZE jc" "sk_sockapdu s2 = ?cmd"
      "\<And>k. res = Received k \<Longrightarrow> 4 \<le> k \<and> k \<le> MAX_BUF_SIZE jc"
      using s1 by (auto simp: REMOTE_JC_SHELL_HEADER_LEN_def)
    have u: "\<And>k. k \<le> unat (rxlen a) \<Longrightarrow> unat (word_of_nat k :: u16) = k"
      by (metis of_nat_inverse order_le_less_trans unsigned_less)
    show ?thesis
      using assms(1,5) True snd sent s1 rf b u cmd
      by (cases res) (auto simp: smComSocket_TransceiveFD_def Let_def sk_close_def min_absorb2
          simp del: of_nat_diff split: if_splits)
  qed
qed

lemma transceive_in_bounds_example:
  "recv_bounded card_loopback"
  by (auto simp: recv_bounded_def card_loopback_def loopback_def min_def split: if_splits)

theorem transceive_in_bounds_witness:
  "\<exists>rc s' b. smComSocket_TransceiveFD card_loopback jrcp_example 4
      (Some \<lparr>pBuf = [1, 2, 3], buflen = 2, rxlen = 3, offset = 0\<rparr>)
      (smsock_example (jrcp_frame 1 0 [9, 9, 9, 9]) 1) = Some (rc, Some b, s') \<and>
    length (sk_response s') = 900 \<and> length (pBuf b) = 3 \<and>
    (if rc = 0x9000 then True else pBuf b = [1, 2, 3])"
proof -
  let ?a = "\<lparr>pBuf = [1, 2, 3], buflen = 2, rxlen = 3, offset = 0\<rparr>"
  let ?s = "smsock_example (jrcp_frame 1 0 [9, 9, 9, 9]) 1"
  let ?c = "memcpy (memcpy (replicate 900 0) 0 (jrcp_header 2)) 4 [1, 2]"
  have "asks_for (transceive_ask jrcp_example) (length (replicate 900 (0 :: u8))) 8 False"
    using transceive_asks [of 8 jrcp_example] by (simp add: jrcp_example_def)
  from card.exchange [where s = "?s\<lparr>sk_response := replicate 900 0, sk_sockapdu := ?c\<rparr>" and fd = 4
      and src = "take 6 ?c" and mty = 1 and nad = 0 and rsp = "[9, 9, 9, 9]" and tail = "[]"
      and buf = "replicate 900 0" and ask = "transceive_ask jrcp_example" and exact = False] this
  obtain w buf' s1 where x: "sk_send card_loopback 4 (take 6 ?c)
      (?s\<lparr>sk_response := replicate 900 0, sk_sockapdu := ?c\<rparr>) =
      (True, ?s\<lparr>sk_response := replicate 900 0, sk_sockapdu := ?c, sk_world := w\<rparr>)"
    "recv_frame card_loopback (transceive_ask jrcp_example) 4 0 REMOTE_JC_SHELL_HEADER_LEN False
      (replicate 900 0) (?s\<lparr>sk_response := replicate 900 0, sk_sockapdu := ?c, sk_world := w\<rparr>) =
      Some (Received 8, buf', s1)"
    by (auto simp: smsock_example_def memcpy_def jrcp_header_def Header_def)
  have "MAX_BUF_SIZE jrcp_example = 900" by (simp add: jrcp_example_def)
  with x have "smComSocket_TransceiveFD card_loopback jrcp_example 4 (Some ?a) ?s =
      Some (SMCOM_SND_FAILED jrcp_example, Some (?a\<lparr>buflen := 6\<rparr>), s1\<lparr>sk_response := buf'\<rparr>)"
    by (simp add: smComSocket_TransceiveFD_def Let_def)
  from transceive_in_bounds [OF this transceive_in_bounds_example] this show ?thesis
    by (simp add: jrcp_example_def)
qed

text \<open>
  C19: when the peer has closed the connection and an earlier call has left \<open>EINTR\<close> in \<open>errno\<close>, a
  \<open>TransceiveFD\<close> whose command is still accepted never returns: \<open>recv\<close> gives 0 without setting
  \<open>errno\<close>, and the loop takes that for an interruption.
\<close>

theorem transceive_spins_at_eof:
  assumes "unat (buflen a) \<le> MAX_BUF_SIZE jc - 4" "sk_errno s = Some EINTR"
    and "\<And>src. os_send os (Some fd) src (sk_world s) = (Inr (length src), w)"
    and "\<And>n. os_recv os (Some fd) n w = (Inr [], w)"
  shows "smComSocket_TransceiveFD os jc fd (Some a) s = None"
proof -
  have "recv_frame os (transceive_ask jc) fd 0 REMOTE_JC_SHELL_HEADER_LEN False buf (s'\<lparr>sk_world := w\<rparr>) = None"
    if "sk_errno s' = Some EINTR" for buf s'
    using recv_frame_spins [of 0 REMOTE_JC_SHELL_HEADER_LEN "transceive_ask jc" False _ os fd w
        "s'\<lparr>sk_world := w\<rparr>" buf] assms(4) that
    by (simp add: transceive_ask_def REMOTE_JC_SHELL_HEADER_LEN_def)
  with assms(1-3) show ?thesis
    by (simp add: smComSocket_TransceiveFD_def Let_def sk_send_def)
qed

theorem transceive_spins_at_eof_witness:
  "smComSocket_TransceiveFD
     (loopback\<lparr>os_send := (\<lambda>fd src w. (Inr (length src), w)), os_recv := (\<lambda>fd n w. (Inr [], w))\<rparr>)
     jrcp_example 4 (Some \<lparr>pBuf = [1, 2, 3], buflen = 2, rxlen = 3, offset = 0\<rparr>)
     (smsock_example [] 0\<lparr>sk_errno := Some EINTR\<rparr>) = None"
  by (rule transceive_spins_at_eof) (simp_all add: jrcp_example_def)

text \<open>
  C20: \<open>smComSocket_GetATRFD\<close> returns 0 or \<open>-1\<close>, \<open>smComSocket_Open\<close> compares that with \<open>SMCOM_OK\<close>.
  Where \<open>SMCOM_OK\<close> is neither of the two, no connection is ever opened: whatever the peer does,
  \<open>Open\<close> reports \<open>SMCOM_COM_FAILED\<close> and leaves the context as it was.
\<close>

theorem open_never_succeeds:
  assumes "SMCOM_OK jc \<noteq> 0" "SMCOM_OK jc \<noteq> - 1"
    and "smComSocket_Open os jc malloc_ok init_status conn_ctx ip port pAtr atrLen s =
      Some (rc, conn_ctx', pAtr', atrLen', s')"
  shows "rc = ucast (SMCOM_COM_FAILED jc) \<and> conn_ctx' = conn_ctx"
  using assms
  by (auto simp: smComSocket_Open_def split: option.splits prod.splits sum.splits list.splits if_splits
      dest!: GetATRFD_status)

theorem open_never_succeeds_witness:
  "\<exists>rc ctx atr n s'. smComSocket_Open card_loopback jrcp_example True 0x9000 (Some None) (Some ''127.0.0.1'') 8050
      None (Some 33) (smsock_example [] 0) = Some (rc, ctx, atr, n, s') \<and>
    rc = 0x7012 \<and> ctx = Some None"
proof -
  obtain rc ctx atr n s' where r: "smComSocket_Open card_loopback jrcp_example True 0x9000 (Some None)
      (Some ''127.0.0.1'') 8050 None (Some 33) (smsock_example [] 0) = Some (rc, ctx, atr, n, s')"
    by (simp add: smComSocket_Open_def smComSocket_GetATRFD_def card_loopback_def loopback_def
        smsock_example_def jrcp_example_def)
  from open_never_succeeds [OF _ _ this] r show ?thesis by (auto simp: jrcp_example_def)
qed

end
