(* ===== verification/I2cSim.thy ===== *)
theory I2cSim
  imports HostTcp
begin

section \<open>I2cSim: the I2C bus of the secure element over TCP\<close>

text \<open>
  \<open>ports/se05x/i2c_sim.c\<close>, which takes the place of the I2C driver when the element is a simulator
  behind a TCP port. The environment and the system calls are the fields of the record \<open>Pal\<close>: a call
  that returns a negative number gives \<open>None\<close>, \<open>pal_poll\<close> tells whether \<open>poll\<close> reported input.
  Strings are C strings; \<open>atoi\<close> is read as a number without bounds, the C function being undefined
  beyond \<open>int\<close>. The diagnostics on \<open>stderr\<close> are left out.
\<close>

datatype i2c_error_t = I2C_OK | I2C_FAILED

record 'w Pal =
  pal_getenv :: "string \<Rightarrow> string option"
  pal_calloc :: bool
  pal_socket :: "'w \<Rightarrow> int \<times> 'w"
  pal_inet_pton :: "string \<Rightarrow> nat option"
  pal_connect :: "int \<Rightarrow> nat \<Rightarrow> nat \<Rightarrow> 'w \<Rightarrow> bool \<times> 'w"
  pal_read :: "int \<Rightarrow> nat \<Rightarrow> 'w \<Rightarrow> bytes option \<times> 'w"
  pal_write :: "int \<Rightarrow> bytes \<Rightarrow> 'w \<Rightarrow> nat option \<times> 'w"
  pal_poll :: "int \<Rightarrow> nat \<Rightarrow> 'w \<Rightarrow> bool \<times> 'w"
  pal_close :: "int \<Rightarrow> 'w \<Rightarrow> 'w"

record SimConn_t =
  sockfd :: int

definition DEFAULT_HOST :: string where "DEFAULT_HOST = ''127.0.0.1''"
definition DEFAULT_PORT :: int where "DEFAULT_PORT = 8050"

subsection \<open>Transfers\<close>



function write_all :: "'w Pal \<Rightarrow> int \<Rightarrow> bytes \<Rightarrow> nat \<Rightarrow> 'w \<Rightarrow> bool \<times> 'w" where
  "write_all pal fd buf tot w =
     (if tot < length buf then
        (case pal_write pal fd (drop tot buf) w of
           (None, w) \<Rightarrow> (False, w)
         | (Some n, w) \<Rightarrow> if n = 0 then (False, w) else write_all pal fd buf (tot + n) w)
      else (True, w))"
  by pat_completeness auto
termination
  by (relation "measure (\<lambda>(pal, fd, buf, tot, w). length buf - tot)") auto

declare write_all.simps [simp del]

subsection \<open>The endpoint\<close>

fun strrchr :: "string \<Rightarrow> char \<Rightarrow> nat option" where
  "strrchr [] c = None"
| "strrchr (x # xs) c =
     (case strrchr xs c of Some i \<Rightarrow> Some (Suc i) | None \<Rightarrow> if x = c then Some 0 else None)"

definition c_isspace :: "char \<Rightarrow> bool" where
  "c_isspace c = (c = CHR '' '' \<or> 9 \<le> (of_char c :: nat) \<and> (of_char c :: nat) \<le> 13)"

fun atoi_digits :: "string \<Rightarrow> int \<Rightarrow> int" where
  "atoi_digits [] v = v"
| "atoi_digits (c # cs) v =
     (if is_digit_char c then atoi_digits cs (v * 10 + int (of_char c - 48)) else v)"

definition atoi :: "string \<Rightarrow> int" where
  "atoi s =
     (case dropWhile c_isspace s of
        [] \<Rightarrow> 0
      | c # cs \<Rightarrow>
          if c = CHR ''-'' then - atoi_digits cs 0
          else if c = CHR ''+'' then atoi_digits cs 0
          else atoi_digits (c # cs) 0)"

text \<open>The result is the value returned and what the two output arguments hold afterwards.\<close>

definition parse_hostport :: "string \<Rightarrow> string \<Rightarrow> nat \<Rightarrow> int \<Rightarrow> bool \<times> string \<times> int" where
  "parse_hostport s host_out host_sz port_out =
     (case strrchr s CHR '':'' of
        None \<Rightarrow> (False, host_out, port_out)
      | Some hlen \<Rightarrow>
          if hlen = 0 \<or> host_sz \<le> hlen then (False, host_out, port_out)
          else
            (let port = atoi (drop (hlen + 1) s) in
             (0 < port \<and> port < 65536, take hlen s, port)))"

text \<open>An environment variable or name that is present and not empty.\<close>

definition given :: "string option \<Rightarrow> string option" where
  "given v = (case v of Some s \<Rightarrow> if s = [] then None else Some s | None \<Rightarrow> None)"

definition sim_endpoint :: "'w Pal \<Rightarrow> string option \<Rightarrow> string \<times> int" where
  "sim_endpoint pal pDevName =
     (case given (pal_getenv pal ''EX_SSS_BOOT_SSS_PORT'') of
        Some ep \<Rightarrow> snd (parse_hostport ep DEFAULT_HOST 128 DEFAULT_PORT)
      | None \<Rightarrow>
          (case given pDevName of
             Some d \<Rightarrow> snd (parse_hostport d DEFAULT_HOST 128 DEFAULT_PORT)
           | None \<Rightarrow>
               (case given (pal_getenv pal ''SE050_SIM_HOST'') of Some h \<Rightarrow> take 127 h | None \<Rightarrow> DEFAULT_HOST,
                case given (pal_getenv pal ''SE050_SIM_PORT'') of Some p \<Rightarrow> atoi p | None \<Rightarrow> DEFAULT_PORT)))"

text \<open>\<open>(uint16_t)port\<close>.\<close>

definition port16 :: "int \<Rightarrow> nat" where
  "port16 p = nat (p mod 65536)"

definition axI2CInit :: "'w Pal \<Rightarrow> SimConn_t option \<Rightarrow> string option \<Rightarrow> 'w \<Rightarrow>
    i2c_error_t \<times> SimConn_t option \<times> 'w" where
  "axI2CInit pal conn_ctx pDevName w =
     (case sim_endpoint pal pDevName of (host, port) \<Rightarrow>
        if \<not> pal_calloc pal then (I2C_FAILED, conn_ctx, w)
        else
          (case pal_socket pal w of (fd, w) \<Rightarrow>
             if fd < 0 then (I2C_FAILED, conn_ctx, w)
             else
               (case pal_inet_pton pal host of
                  None \<Rightarrow> (I2C_FAILED, conn_ctx, pal_close pal fd w)
                | Some addr \<Rightarrow>
                    (case pal_connect pal fd addr (port16 port) w of (connected, w) \<Rightarrow>
                       if \<not> connected then (I2C_FAILED, conn_ctx, pal_close pal fd w)
                       else (I2C_OK, Some \<lparr>sockfd = fd\<rparr>, w)))))"

definition axI2CTerm :: "'w Pal \<Rightarrow> SimConn_t option \<Rightarrow> 'w \<Rightarrow> 'w" where
  "axI2CTerm pal conn_ctx w =
     (case conn_ctx of None \<Rightarrow> w | Some c \<Rightarrow> pal_close pal (sockfd c) w)"

definition axI2CWrite :: "'w Pal \<Rightarrow> SimConn_t option \<Rightarrow> bytes \<Rightarrow> 'w \<Rightarrow> i2c_error_t \<times> 'w" where
  "axI2CWrite pal conn_ctx tx w =
     (case conn_ctx of
        None \<Rightarrow> (I2C_FAILED, w)
      | Some c \<Rightarrow>
          if sockfd c < 0 then (I2C_FAILED, w)
          else
            (case write_all pal (sockfd c) tx 0 w of (all, w) \<Rightarrow>
               (if all then I2C_OK else I2C_FAILED, w)))"


definition axI2CWriteByte :: "'w Pal \<Rightarrow> SimConn_t option \<Rightarrow> bytes \<Rightarrow> 'w \<Rightarrow> i2c_error_t \<times> 'w" where
  "axI2CWriteByte pal conn_ctx tx w = axI2CWrite pal conn_ctx (take 1 tx) w"


subsection \<open>A simulator that answers\<close>


subsection \<open>Printed endpoints\<close>

lemma strrchr_None: "strrchr s c = None \<longleftrightarrow> c \<notin> set s"
  by (induction s) (auto split: option.splits)

lemma strrchr_append [simp]: "c \<notin> set ys \<Longrightarrow> strrchr (xs @ c # ys) c = Some (length xs)"
  by (induction xs) (auto simp: strrchr_None [THEN iffD2])

lemma atoi_digits_append:
  "\<forall>c \<in> set s. is_digit_char c \<Longrightarrow> atoi_digits (s @ t) v = atoi_digits t (atoi_digits s v)"
  by (induction s arbitrary: v) auto

lemma uint_digits_are_digits: "c \<in> set (uint_digits v) \<Longrightarrow> is_digit_char c"
proof (induction v rule: uint_digits.induct)
  case (1 v)
  then show ?case by (subst (asm) (2) uint_digits.simps) (auto split: if_splits)
qed

lemma atoi_digits_uint: "atoi_digits (rev (uint_digits v)) 0 = int v"
proof (induction v rule: uint_digits.induct)
  case (1 v)
  show ?case
  proof (cases "v = 0")
    case False
    have "int (v div 10) * 10 + int (v mod 10) = int v" by presburger
    with 1 False show ?thesis
      by (subst uint_digits.simps) (simp add: atoi_digits_append uint_digits_are_digits)
  qed (simp add: uint_digits.simps)
qed

lemma uint_text_digits: "c \<in> set (uint_text v) \<Longrightarrow> is_digit_char c"
  by (auto simp: uint_text_def uint_tmp_def is_digit_char_def dest: uint_digits_are_digits split: if_splits)

lemma atoi_uint_text: "atoi (uint_text v) = int v"
proof -
  obtain c cs where u: "uint_text v = c # cs" by (cases "uint_text v") auto
  then have "is_digit_char c" using uint_text_digits [of c v] by simp
  then have "\<not> c_isspace c" "c \<noteq> CHR ''-''" "c \<noteq> CHR ''+''"
    by (auto simp: is_digit_char_def c_isspace_def)
  moreover have "atoi_digits (uint_text v) 0 = int v"
    using atoi_digits_uint [of v] by (auto simp: uint_text_def uint_tmp_def is_digit_char_def)
  ultimately show ?thesis using u by (simp add: atoi_def)
qed

lemma no_colon_in_port: "CHR '':'' \<notin> set (uint_text v)"
  using uint_text_digits [of "CHR '':''" v] by (auto simp: is_digit_char_def)

lemma parse_hostport_text:
  "parse_hostport (h @ CHR '':'' # uint_text v) host_out host_sz port_out =
     (if h = [] \<or> host_sz \<le> length h then (False, host_out, port_out)
      else (0 < v \<and> v < 65536, h, int v))"
  using no_colon_in_port [of v] by (auto simp: parse_hostport_def atoi_uint_text)

subsection \<open>A simulator in pieces\<close>

text \<open>A connection that takes three bytes at a time and gives two.\<close>

definition sim_example :: "string option \<Rightarrow> (bytes \<times> bytes) Pal" where
  "sim_example ep =
     \<lparr>pal_getenv = (\<lambda>v. if v = ''EX_SSS_BOOT_SSS_PORT'' then ep else None), pal_calloc = True,
      pal_socket = (\<lambda>w. (5, w)),
      pal_inet_pton = (\<lambda>h. if h = ''10.0.0.7'' then Some 0x0A000007 else None),
      pal_connect = (\<lambda>fd addr port w. (True, w)),
      pal_read = (\<lambda>fd n w. (Some (take (min 2 n) (fst w)), (drop (min 2 n) (fst w), snd w))),
      pal_write = (\<lambda>fd src w. (Some (min 3 (length src)), (fst w, snd w @ take 3 src))),
      pal_poll = (\<lambda>fd ms w. (fst w \<noteq> [], w)),
      pal_close = (\<lambda>fd w. w)\<rparr>"


subsection \<open>Properties\<close>

text \<open>
  A printed endpoint reads back as itself: host, colon and decimal port parse to that host and
  that port, for every host of 1 to 127 characters, colons among them, and every port of 1 to 65535.
\<close>

theorem hostport_roundtrip:
  assumes "h \<noteq> []" "length h < 128" "0 < v" "v < 65536"
  shows "parse_hostport (h @ '':'' @ uint_text v) host_out 128 port_out = (True, h, int v)"
  using assms by (simp add: parse_hostport_text)

theorem hostport_roundtrip_witness:
  "parse_hostport ''::1:8050'' DEFAULT_HOST 128 DEFAULT_PORT = (True, ''::1'', 8050)"
proof -
  have "uint_text 8050 = ''8050''" 
    by (simp add: uint_text_def uint_tmp_def uint_digits.simps, code_simp)
  with hostport_roundtrip [of "''::1''" 8050 DEFAULT_HOST DEFAULT_PORT] show ?thesis by simp
qed



text \<open>
  An endpoint of \<open>EX_SSS_BOOT_SSS_PORT\<close> that is not valid because its port is out of range is
  reported as ignored, and used all the same: the host of the variable replaces the default, and
  the connection goes to its port modulo 65536.
\<close>

theorem invalid_endpoint_used:
  assumes "pal_getenv pal ''EX_SSS_BOOT_SSS_PORT'' = Some (h @ '':'' @ uint_text v)"
    and "h \<noteq> []" "length h < 128" "v = 0 \<or> 65536 \<le> v" "v < 2 ^ 31"
    and "pal_calloc pal" "pal_socket pal w = (fd, w1)" "0 \<le> fd" "pal_inet_pton pal h = Some addr"
    and "pal_connect pal fd addr (v mod 65536) w1 = (True, w2)"
  shows "fst (parse_hostport (h @ '':'' @ uint_text v) DEFAULT_HOST 128 DEFAULT_PORT) = False \<and>
    axI2CInit pal conn_ctx pDevName w = (I2C_OK, Some \<lparr>sockfd = fd\<rparr>, w2)"
proof -
  have "nat (int v mod 65536) = v mod 65536" by (simp add: nat_mod_distrib)
  with assms show ?thesis
    by (auto simp: axI2CInit_def sim_endpoint_def given_def parse_hostport_text port16_def)
qed

theorem invalid_endpoint_used_witness:
  "axI2CInit (sim_example (Some ''10.0.0.7:70000'')) None None ([], []) = (I2C_OK, Some \<lparr>sockfd = 5\<rparr>, ([], []))"
proof -
  have "uint_text 70000 = ''70000''"
    by (simp add: uint_text_def uint_tmp_def uint_digits.simps, code_simp)
  then show ?thesis
    using invalid_endpoint_used [of "sim_example (Some ''10.0.0.7:70000'')" "''10.0.0.7''" 70000 "([], [])"
        5 "([], [])" "0x0A000007" "([], [])" None None]
    by (simp add: sim_example_def)
qed

end
