(* ===== verification/AsioTcp.thy ===== *)
theory AsioTcp
  imports HostTcp
begin

section \<open>AsioTcp: the socket over Boost.Asio\<close>

text \<open>
  \<open>ports/asio/asio_tcp.hpp\<close> and \<open>asio_tcp.cpp\<close>. The calls of Boost.Asio are the fields of a record
  \<open>Basio\<close>; they act on a world \<open>'w\<close>, which stands for the \<open>io_context\<close>, the socket in it and the
  network. An \<open>error_code\<close> that is set is its message; \<open>basio::error::eof\<close> is a case of its own.
\<close>

datatype AsioRead = AsioGot bytes | AsioEof | AsioError string

record ('e, 'w) Basio =
  as_resolve :: "string \<Rightarrow> string \<Rightarrow> 'w \<Rightarrow> (string + 'e) \<times> 'w"
  as_connect :: "'e \<Rightarrow> 'w \<Rightarrow> string option \<times> 'w"
  as_write :: "bytes \<Rightarrow> 'w \<Rightarrow> string option \<times> 'w"
  as_read_some :: "nat \<Rightarrow> 'w \<Rightarrow> AsioRead \<times> 'w"
  as_is_open :: "'w \<Rightarrow> bool"
  as_shutdown :: "'w \<Rightarrow> 'w"
  as_close :: "'w \<Rightarrow> 'w"

definition Asio_Connect :: "('e, 'w) Basio \<Rightarrow> string \<Rightarrow> nat \<Rightarrow> 'w \<Rightarrow> Status \<times> 'w" where
  "Asio_Connect io host port w =
     (case as_resolve io host (uint_text port) w of
        (Inl msg, w) \<Rightarrow> (Fail net_Category net_ResolveFailed msg, w)
      | (Inr endpoints, w) \<Rightarrow>
          (case as_connect io endpoints w of
             (Some msg, w) \<Rightarrow> (Fail net_Category net_ConnectFailed msg, w)
           | (None, w) \<Rightarrow> (Ok, w)))"

definition Asio_Send :: "('e, 'w) Basio \<Rightarrow> bytes \<Rightarrow> 'w \<Rightarrow> Status \<times> 'w" where
  "Asio_Send io src w =
     (case as_write io src w of
        (Some msg, w) \<Rightarrow> (Fail net_Category net_SendFailed msg, w)
      | (None, w) \<Rightarrow> (Ok, w))"

definition Asio_Recv :: "('e, 'w) Basio \<Rightarrow> bytes \<Rightarrow> 'w \<Rightarrow> nat Result \<times> bytes \<times> 'w" where
  "Asio_Recv io dst w =
     (case as_read_some io (length dst) w of (got, w) \<Rightarrow>
        (case got of
           AsioEof \<Rightarrow> (Inr 0, dst, w)
         | AsioError msg \<Rightarrow> (Fail net_Category net_RecvFailed msg, dst, w)
         | AsioGot data \<Rightarrow> (Inr (length data), memcpy dst 0 data, w)))"

definition Asio_Close :: "('e, 'w) Basio \<Rightarrow> 'w \<Rightarrow> 'w" where
  "Asio_Close io w = (if as_is_open io w then as_close io (as_shutdown io w) else w)"

text \<open>
  What is relied on of a connection without faults: \<open>basio::write\<close> returns when everything is
  written, \<open>read_some\<close> gives at least one byte, at most what it is asked for, or \<open>eof\<close> at the end.
\<close>

locale asio =
  fixes io :: "('e, 'w) Basio"
    and connected :: "'w \<Rightarrow> bool"
    and inbound :: "'w \<Rightarrow> bytes"
    and outbound :: "'w \<Rightarrow> bytes"
  assumes write_law: "connected w \<Longrightarrow> as_write io src w = (ec, w') \<Longrightarrow>
      ec = None \<and> connected w' \<and> inbound w' = inbound w \<and> outbound w' = outbound w @ src"
    and read_some_law: "connected w \<Longrightarrow> as_read_some io n w = (got, w') \<Longrightarrow>
      connected w' \<and> outbound w' = outbound w \<and>
      (case got of
         AsioError msg \<Rightarrow> False
       | AsioEof \<Rightarrow> inbound w = [] \<and> inbound w' = []
       | AsioGot data \<Rightarrow> length data \<le> n \<and> (data = [] \<longrightarrow> n = 0) \<and> inbound w = data @ inbound w')"

sublocale asio \<subseteq> tcp: socket "\<lambda>dst s. Some (Asio_Recv io dst s)" connected inbound
    "\<lambda>src s. Some (Asio_Send io src s)" outbound
proof (unfold_locales, goal_cases)
  case (1 r dst n dst' r')
  then obtain got where g: "as_read_some io (length dst) r = (got, r')"
    by (auto simp: Asio_Recv_def split: prod.splits AsioRead.splits)
  with read_some_law [OF 1(1) g] 1(2-) show ?case
    by (cases got) (auto simp: Asio_Recv_def memcpy_def)
next
  case (2 r dst)
  obtain got w where g: "as_read_some io (length dst) r = (got, w)" by fastforce
  with read_some_law [OF 2 g] show ?case by (cases got) (auto simp: Asio_Recv_def)
next
  case (3 s dst)
  show ?case by simp
next
  case (4 s dst)
  obtain got w where g: "as_read_some io (length dst) s = (got, w)" by fastforce
  with read_some_law [OF 4 g] show ?case by (cases got) (auto simp: Asio_Recv_def Fail_def)
next
  case (5 s src)
  obtain ec w where "as_write io src s = (ec, w)" by fastforce
  with write_law [OF 5 this] show ?case by (auto simp: Asio_Send_def)
qed

context asio
begin

lemma get_over_asio:
  assumes "connected s" "length reqbuf = 1024" "length (request_bytes req) \<le> 1024"
  shows "\<exists>buf' s'. Client_Do (\<lambda>src s. Some (Asio_Send io src s)) (\<lambda>dst s. Some (Asio_Recv io dst s)) s req
      recv_buf reqbuf =
      Some (ParseResponse (take (length recv_buf) (inbound s)), buf', s') \<and>
    outbound s' = outbound s @ request_bytes req"
  by (rule tcp.Client_Do_total [OF assms])

end

subsection \<open>A loopback\<close>

record AsioLoop =
  al_open :: bool
  al_in :: bytes
  al_out :: bytes

definition asio_loop :: "(unit, AsioLoop) Basio" where
  "asio_loop =
     \<lparr>as_resolve = (\<lambda>h p w. (if h = [] then Inl ''Host not found'' else Inr (), w)),
      as_connect = (\<lambda>_ w. (None, w\<lparr>al_open := True\<rparr>)),
      as_write = (\<lambda>src w. (None, w\<lparr>al_out := al_out w @ src\<rparr>)),
      as_read_some = (\<lambda>n w.
        if al_in w = [] then (AsioEof, w)
        else (AsioGot (take (min 5 n) (al_in w)), w\<lparr>al_in := drop (min 5 n) (al_in w)\<rparr>)),
      as_is_open = al_open, as_shutdown = (\<lambda>w. w), as_close = (\<lambda>w. w\<lparr>al_open := False\<rparr>)\<rparr>"

interpretation asio_loop: asio asio_loop "\<lambda>_. True" al_in al_out
  by unfold_locales (auto simp: asio_loop_def min_def split: if_splits)

subsection \<open>Properties\<close>

text \<open>
  Over a connection without faults an http exchange through the Boost.Asio socket does what it does
  through every socket of the interface: it sends the request and parses the whole answer.
\<close>

theorem http_over_asio:
  assumes "asio io connected inbound outbound"
    and "connected s" "length reqbuf = 1024" "length (request_bytes req) \<le> 1024"
  shows "\<exists>buf' s'. Client_Do (\<lambda>src s. Some (Asio_Send io src s)) (\<lambda>dst s. Some (Asio_Recv io dst s)) s req
      recv_buf reqbuf =
      Some (ParseResponse (take (length recv_buf) (inbound s)), buf', s') \<and>
    outbound s' = outbound s @ request_bytes req"
  by (rule asio.get_over_asio [OF assms])

theorem http_over_asio_witness:
  "\<exists>buf' s'. Client_Do (\<lambda>src s. Some (Asio_Send asio_loop src s)) (\<lambda>dst s. Some (Asio_Recv asio_loop dst s))
      \<lparr>al_open = True, al_in = response_bytes 204 ''No Content'' [] [], al_out = []\<rparr>
      (Request_init\<lparr>rq_host := ''h''\<rparr>) (replicate 256 0) (replicate 1024 0) =
    Some (ParseResponse (take 256 (response_bytes 204 ''No Content'' [] [])), buf', s') \<and>
    al_out s' = request_bytes (Request_init\<lparr>rq_host := ''h''\<rparr>)"
proof -
  have "length (replicate 1024 (0 :: u8)) = 1024"
    "length (request_bytes (Request_init\<lparr>rq_host := ''h''\<rparr>)) \<le> 1024"
    by (simp_all add: request_bytes_def Request_init_def CRLF_simps)
  from http_over_asio [OF asio_loop.asio_axioms _ this, of
      "\<lparr>al_open = True, al_in = response_bytes 204 ''No Content'' [] [], al_out = []\<rparr>" "replicate 256 0"]
  show ?thesis by (simp only: length_replicate) simp
qed

text \<open>
  \<open>Connect\<close> fails only with \<open>ResolveFailed\<close>, when no endpoint was asked for a connection, or with
  \<open>ConnectFailed\<close>; every call reports the message of the library, and a failed one tells its step.
\<close>

theorem asio_outcomes:
  "(case Asio_Connect io host port w of (st, w') \<Rightarrow>
      err_code st = Some net_ResolveFailed \<longleftrightarrow> isl (fst (as_resolve io host (uint_text port) w))) \<and>
   err_code (fst (Asio_Connect io host port w)) \<in> {None, Some net_ResolveFailed, Some net_ConnectFailed} \<and>
   err_code (fst (Asio_Send io src w)) \<in> {None, Some net_SendFailed} \<and>
   err_code (fst (Asio_Recv io dst w)) \<in> {None, Some net_RecvFailed}"
  by (auto simp: Asio_Connect_def Asio_Send_def Asio_Recv_def Fail_def net_ResolveFailed_def
      net_ConnectFailed_def split: prod.splits sum.splits option.splits AsioRead.splits)

end
