(* ===== verification/ExampleLog.thy ===== *)
theory ExampleLog
  imports Http Log Cli
begin

section \<open>ExampleLog: what the example programs log\<close>

text \<open>
  The programs of \<open>examples/\<close> log through the \<open>StderrLogSink\<close> of the host and the macros of
  \<open>log.hpp\<close>. The text \<open>vsnprintf\<close> formats is built here from the conversions the programs use.
\<close>

text \<open>\<open>%s\<close> and \<open>%.*s\<close> stop at a zero; \<open>%d\<close>.\<close>

definition pct_s :: "string \<Rightarrow> string" where
  "pct_s s = takeWhile (\<lambda>c. c \<noteq> CHR 0x00) s"

definition pct_d :: "int \<Rightarrow> string" where
  "pct_d n = (if n < 0 then ''-'' @ uint_text (nat (- n)) else uint_text (nat n))"

text \<open>A line of a level in the state \<open>g\<close> of the log, and in the state the programs start with.\<close>

definition log_info :: "unit LogState \<Rightarrow> string \<Rightarrow> string \<Rightarrow> string" where
  "log_info g s err = LOG_INFO StderrLogSink_Write g (Some s) err"

definition log_warn :: "unit LogState \<Rightarrow> string \<Rightarrow> string \<Rightarrow> string" where
  "log_warn g s err = LOG_WARN StderrLogSink_Write g (Some s) err"

definition log_error :: "unit LogState \<Rightarrow> string \<Rightarrow> string \<Rightarrow> string" where
  "log_error g s err = LOG_ERROR StderrLogSink_Write g (Some s) err"

definition ex_log :: "unit LogState" where
  "ex_log = SetSink (Some ()) log_initial"

definition ex_info :: "string \<Rightarrow> string \<Rightarrow> string" where
  "ex_info = log_info ex_log"

definition ex_error :: "string \<Rightarrow> string \<Rightarrow> string" where
  "ex_error = log_error ex_log"

definition quoted :: "string \<Rightarrow> string" where
  "quoted s = CHR 0x22 # s @ [CHR 0x22]"

lemma log_lines_of:
  assumes "g_sink g = Some ()" "LInfo \<le> g_level g"
  shows "log_info g s err = err @ ''[INFO] '' @ pct_s (take 127 s) @ NL"
    and "log_warn g s err = err @ ''[WARN] '' @ pct_s (take 127 s) @ NL"
    and "log_error g s err = err @ ''[ERROR] '' @ pct_s (take 127 s) @ NL"
proof -
  have "LWarn \<le> g_level g" "LError \<le> g_level g" using assms(2) by (simp_all add: less_eq_Level_def)
  then show "log_info g s err = err @ ''[INFO] '' @ pct_s (take 127 s) @ NL"
    "log_warn g s err = err @ ''[WARN] '' @ pct_s (take 127 s) @ NL"
    "log_error g s err = err @ ''[ERROR] '' @ pct_s (take 127 s) @ NL"
    using assms
    by (simp_all add: log_info_def log_warn_def log_error_def log_macro_defs Logf_passes config_defs
        StderrLogSink_Write_def level_tag_def pct_s_def NL_def)
qed

lemma ex_lines:
  "ex_info s err = err @ ''[INFO] '' @ pct_s (take 127 s) @ NL"
  "ex_error s err = err @ ''[ERROR] '' @ pct_s (take 127 s) @ NL"
  by (simp_all add: ex_info_def ex_error_def log_lines_of ex_log_def SetSink_def log_initial_def less_eq_Level_def)

lemma pct_s_id: "CHR 0x00 \<notin> set s \<Longrightarrow> pct_s s = s"
  by (auto simp: pct_s_def takeWhile_eq_all_conv)

end
