(* ===== verification/ExampleCore.thy ===== *)
theory ExampleCore
  imports ExampleLog Democli HostKv Events Hmac
begin

section \<open>ExampleCore: the example programs without a network\<close>

text \<open>
  \<open>examples/\<close>: \<open>result_error\<close>, \<open>event_loop\<close>, \<open>io_copy\<close>, \<open>kv_persist\<close>, \<open>log_uart\<close>, \<open>sha256_stream\<close>,
  \<open>update_fsm\<close> and \<open>cli_minimal\<close>, composed of the models of the components the way the programs are.
  A program takes what its environment supplies and gives its exit status and the text on its error
  stream; uninitialised memory is an argument.
\<close>

subsection \<open>result\_error\<close>

definition ParseCategory :: Category where
  [category_defs]: "ParseCategory = \<lparr>cat_name = ''parse''\<rparr>"

definition BadDigit :: Code where "BadDigit = 1"
definition Overflow :: Code where "Overflow = 2"

fun ParseU32_loop :: "string \<Rightarrow> u32 \<Rightarrow> u32 Result" where
  "ParseU32_loop [] v = Inr v"
| "ParseU32_loop (c # s) v =
     (if \<not> is_digit_char c then Fail ParseCategory BadDigit ''non-digit character''
      else ParseU32_loop s (v * 10 + word_of_nat (of_char c - 48)))"

definition ParseU32 :: "string \<Rightarrow> u32 Result" where
  "ParseU32 s = (if s = [] then Fail ParseCategory BadDigit ''empty input'' else ParseU32_loop s 0)"

definition Try :: "string \<Rightarrow> string \<Rightarrow> string" where
  "Try s err =
     (case ParseU32 s of
        Inr v \<Rightarrow> ex_info (''ok:    '' @ quoted (pct_s s) @ '' -> '' @ uint_text (unat v)) err
      | Inl e \<Rightarrow>
          ex_error (''error: '' @ quoted (pct_s s) @ '' -> ['' @
            (case category e of Some c \<Rightarrow> cat_name c | None \<Rightarrow> []) @ ''/'' @ pct_d (code e) @ ''] '' @
            pct_s (message e)) err)"

definition result_error_main :: "string \<Rightarrow> int \<times> string" where
  "result_error_main err = (0, Try ''12x4'' (Try '''' (Try ''42'' err)))"

subsection \<open>event\_loop\<close>

datatype ex_callback = OnImmediate | OnTick

text \<open>The environment of the loop is the counter \<open>g_ticks\<close> and the error stream.\<close>

type_synonym ex_loop = "(ex_callback, SimulatedClock, int \<times> string) EventLoop"

fun ex_call :: "ex_callback \<Rightarrow> ex_loop \<Rightarrow> ex_loop" where
  "ex_call OnImmediate l =
     l\<lparr>ev_env := (fst (ev_env l), ex_info ''immediate callback ran'' (snd (ev_env l)))\<rparr>"
| "ex_call OnTick l =
     (let n = fst (ev_env l) + 1 in
      l\<lparr>ev_env := (n, ex_info (''tick '' @ pct_d n @ '' fired'') (snd (ev_env l)))\<rparr>)"

definition event_loop_setup :: "string \<Rightarrow> ex_loop" where
  "event_loop_setup err =
     (let l = \<lparr>ev_clock = \<lparr>sim_now = \<lparr>t_ms = 0\<rparr>\<rparr>, ev_immediate = [], ev_timers = [], ev_running = False,
               ev_env = (0, err)\<rparr>;
          l = snd (Events.Post OnImmediate l);
          l = snd (PostAfter SimulatedClock_Now (Seconds 1) OnTick l);
          l = snd (PostAfter SimulatedClock_Now (Seconds 3) OnTick l) in
      snd (PostAfter SimulatedClock_Now (Seconds 2) OnTick l))"

definition event_loop_main :: "string \<Rightarrow> (int \<times> ex_loop) option" where
  "event_loop_main err =
     (let l = event_loop_setup err;
          l = l\<lparr>ev_env := (fst (ev_env l), ex_info
                (''running loop with '' @ uint_text (pending_timers l) @ '' timers...'') (snd (ev_env l)))\<rparr> in
      case Run ex_call SimulatedClock_Now SimulatedClock_SleepUntil l of
        None \<Rightarrow> None
      | Some l \<Rightarrow>
          Some (0, l\<lparr>ev_env := (fst (ev_env l), ex_info
            (''loop idle after '' @ pct_d (fst (ev_env l)) @ '' ticks'') (snd (ev_env l)))\<rparr>))"

subsection \<open>io\_copy\<close>

definition io_copy_msg :: string where
  "io_copy_msg = ''stream me through fixed buffers without a heap''"

definition io_copy_main :: "bytes \<Rightarrow> bytes \<Rightarrow> string \<Rightarrow> (int \<times> string) option" where
  "io_copy_main out_buf scratch err =
     (case io_Copy SpanReader_Read (TeeWriter_Write SpanWriter_Write CountingWriter_Write)
             (sr_new (bytes_of io_copy_msg)) (sw_new out_buf, cw_new) scratch of
        None \<Rightarrow> None
      | Some (Inl e, _) \<Rightarrow> Some (1, ex_error (''copy failed: '' @ pct_s (message e)) err)
      | Some (Inr copied, _, _, dest, counter) \<Rightarrow>
          (let err = ex_info (''copied '' @ uint_text copied @ '' bytes (counter saw '' @
                       uint_text (cw_count counter) @ '')'') err in
           Some (0, ex_info (''dest: '' @ pct_s (chars_of (take (sw_written dest) (sw_buffer dest)))) err)))"

subsection \<open>kv\_persist\<close>

definition kv_demo_path :: string where
  "kv_demo_path = ''/tmp/etlx_kv_demo.bin''"

definition kv_first_boot ::
    "(Key \<Rightarrow> Key \<Rightarrow> bool) \<Rightarrow> commit_env \<Rightarrow> fs \<Rightarrow> string \<Rightarrow> bool \<times> fs \<times> string" where
  "kv_first_boot lt env fs err =
     (let kv = FileKv_new lt fs kv_demo_path;
          kv = snd (MemoryKv_SetString lt ''artifact'' ''device-image-1.1.0'' kv);
          kv = snd (MemoryKv_SetString lt ''update_state'' ''ArtifactInstall_Enter'' kv) in
      case FileKv_Commit env kv fs of
        (Inl e, fss) \<Rightarrow> (False, last fss, ex_error (''commit failed: '' @ pct_s (message e)) err)
      | (Inr _, fss) \<Rightarrow> (True, last fss, ex_info (''committed '' @ uint_text (kv_size kv) @ '' entries'') err))"

definition kv_second_boot :: "(Key \<Rightarrow> Key \<Rightarrow> bool) \<Rightarrow> fs \<Rightarrow> bytes \<Rightarrow> string \<Rightarrow> int \<times> string" where
  "kv_second_boot lt fs buf err =
     (case MemoryKv_GetStringInto (FileKv_new lt fs kv_demo_path) ''update_state'' buf of
        (Inl e, _) \<Rightarrow> (1, ex_error (''state lost across reboot: '' @ pct_s (message e)) err)
      | (Inr v, _) \<Rightarrow> (0, ex_info (''resumed update_state = '' @ pct_s v) err))"

definition kv_persist_main ::
    "(Key \<Rightarrow> Key \<Rightarrow> bool) \<Rightarrow> commit_env \<Rightarrow> fs \<Rightarrow> bytes \<Rightarrow> string \<Rightarrow> int \<times> fs \<times> string" where
  "kv_persist_main lt env fs buf err =
     (case kv_first_boot lt env (fs(kv_demo_path := None)) err of
        (committed, fs, err) \<Rightarrow>
          if \<not> committed then (1, fs, err)
          else (case kv_second_boot lt fs buf err of (rc, err) \<Rightarrow> (rc, fs, err)))"

subsection \<open>log\_uart\<close>

text \<open>The sink keeps the last line; the second component of the state is what was printed.\<close>

definition FakeUartSink_Write :: "unit \<Rightarrow> Level \<Rightarrow> string \<Rightarrow> string \<times> string \<Rightarrow> string \<times> string" where
  "FakeUartSink_Write sink level line w =
     (fixed_string 128 line,
      snd w @ ''<uart level='' @ pct_d (level_int level) @ ''> '' @ pct_s line @ NL)"

definition log_uart_main :: "string \<Rightarrow> int \<times> string" where
  "log_uart_main out =
     (let g = SetLevel LInfo (SetSink (Some ()) log_initial);
          w = LOG_INFO FakeUartSink_Write g (Some (''boot ok, hw='' @ ''qemu-aarch64'')) ([], out);
          w = LOG_WARN FakeUartSink_Write g (Some (''battery at '' @ pct_d 17 @ ''%'')) w;
          w = LOG_DEBUG FakeUartSink_Write g (Some ''this is dropped: runtime level is Info'') w in
      (0, snd w @ ''captured last line: '' @ pct_s (fst w) @ NL))"

subsection \<open>sha256\_stream\<close>

definition hex_digits :: string where
  "hex_digits = ''0123456789abcdef''"

text \<open>The string has room for 65 characters; \<open>push_back\<close> on a full one is dropped.\<close>

definition Hex :: "bytes \<Rightarrow> string" where
  "Hex d =
     fixed_string 65
       (concat (map (\<lambda>b. [hex_digits ! unat (drop_bit 4 b), hex_digits ! unat (b AND 0x0F)]) d))"

definition sha_msg :: bytes where
  "sha_msg = bytes_of ''the quick brown fox jumps over the lazy dog''"

definition sha_key :: bytes where
  "sha_key = bytes_of ''shared-secret''"

definition sha256_stream_main ::
    "u32 list \<Rightarrow> bytes \<Rightarrow> bytes \<Rightarrow> bytes \<Rightarrow> string \<Rightarrow> (int \<times> string) option" where
  "sha256_stream_main junk_state junk junk_okey scratch err =
     (case HashStream SpanReader_Read sha_Update sha_Final (sr_new sha_msg) (sha_new junk_state junk) scratch of
        None \<Rightarrow> None
      | Some (Inl e, _) \<Rightarrow> Some (1, ex_error (''hash failed: '' @ pct_s (message e)) err)
      | Some (Inr digest, _) \<Rightarrow>
          (let err = ex_info (''sha256 = '' @ Hex digest) err in
           case hmac_Tag junk_state junk junk_okey sha_key sha_msg of
             None \<Rightarrow> None
           | Some tag \<Rightarrow>
               (let err = ex_info (''hmac   = '' @ Hex tag) err in
                case hmac_Verify junk_state junk junk_okey \<lparr>hv_key = sha_key\<rparr> sha_msg tag of
                  None \<Rightarrow> None
                | Some ok \<Rightarrow>
                    Some (if is_ok ok then 0 else 1,
                      ex_info (''verify = '' @ (if is_ok ok then ''ok'' else ''FAILED'')) err))))"

subsection \<open>update\_fsm\<close>

text \<open>\<open>%-26s\<close>.\<close>

definition pct_26s :: "string \<Rightarrow> string" where
  "pct_26s s = s @ replicate (26 - length s) CHR '' ''"

definition Show :: "string \<Rightarrow> UpdateFsm \<Rightarrow> string \<Rightarrow> string" where
  "Show what fsm err = ex_info (pct_26s what @ '' -> '' @ fsm_state_name fsm) err"

definition update_fsm_main :: "receive \<Rightarrow> string \<Rightarrow> int \<times> string \<times> UpdateFsm \<times> UpdateFsm" where
  "update_fsm_main recv err =
     (let fsm = UpdateFsm_new;
          err = Show ''initial'' fsm err;
          fsm = snd (fsm_Commit recv fsm);
          err = Show ''Commit (too early, ignored)'' fsm err;
          fsm = snd (fsm_Start recv fsm); err = Show ''Start'' fsm err;
          fsm = snd (fsm_Step recv fsm); err = Show ''Step'' fsm err;
          fsm = snd (fsm_Step recv fsm); err = Show ''Step'' fsm err;
          fsm = snd (fsm_Step recv fsm); err = Show ''Step'' fsm err;
          fsm = snd (fsm_Commit recv fsm); err = Show ''Commit'' fsm err;
          err = ex_info ''--- second run: rollback path ---'' err;
          fsm2 = snd (fsm_Abort recv (snd (fsm_Step recv (snd (fsm_Start recv UpdateFsm_new))))) in
      (0, Show ''Abort during Verify'' fsm2 err, fsm, fsm2))"

subsection \<open>cli\_minimal\<close>

definition minimal_app :: CliApp where
  "minimal_app =
     \<lparr>app_name = ''minimal'', app_short_description = ''a two-command demo of the etlx CLI model'',
      app_long_description = [],
      app_commands =
        [\<lparr>cc_name = ''greet'', cc_description = ''Print a greeting'',
          cc_argument = Some \<lparr>ca_name = ''name'', ca_mandatory = False\<rparr>,
          cc_options = [\<lparr>co_long_option = ''--loud'', co_description = ''Shout the greeting'', co_parameter = []\<rparr>]\<rparr>,
         \<lparr>cc_name = ''version'', cc_description = ''Print the version'', cc_argument = None, cc_options = []\<rparr>]\<rparr>"

text \<open>The loop over the options: the flag and the name, or the error.\<close>

function minimal_loop :: "CmdlineOptionsIterator \<Rightarrow> bool \<Rightarrow> string \<Rightarrow> (bool \<times> string) Result" where
  "minimal_loop it loud name =
     (case Cli.Next it of
        (Inl e, it') \<Rightarrow> Inl e
      | (Inr None, it') \<Rightarrow> Inr (loud, name)
      | (Inr (Some ov), it') \<Rightarrow>
          if ov_is_argument ov then minimal_loop it' loud (ov_value ov)
          else if ov_option ov = ''--loud'' then minimal_loop it' True name
          else minimal_loop it' loud name)"
  by pat_completeness auto
termination
  by (relation "measure (\<lambda>(it, _). length (it_argv it) - it_index it)")
    (auto dest: Next_some_decreases dest!: sym [of _ "Cli.Next _"])

declare minimal_loop.simps [simp del]

text \<open>\<open>argv\<close> is the command line with the name of the program in front.\<close>

definition cli_minimal_main ::
    "(bytes \<Rightarrow> 'f \<Rightarrow> nat \<times> 'f) \<Rightarrow> string list \<Rightarrow> 'f \<Rightarrow> string \<Rightarrow> int \<times> 'f \<times> string" where
  "cli_minimal_main fwrite argv out err =
     (if length argv < 2 then (0, snd (PrintCliHelp (FileWriter_Write fwrite) minimal_app out), err)
      else
        (case FindCommand minimal_app (argv ! 1) of
           None \<Rightarrow>
             (let err = ex_error (''unknown command: '' @ pct_s (argv ! 1)) err in
              (1, snd (PrintCliHelp (FileWriter_Write fwrite) minimal_app out), err))
         | Some cmd \<Rightarrow>
             (case minimal_loop (iterator_new (drop 2 argv) cmd) False ''there'' of
                Inl e \<Rightarrow> (1, out, ex_error (''parse error: '' @ pct_s (message e)) err)
              | Inr (loud, name) \<Rightarrow>
                  if argv ! 1 = ''version'' then (0, out, ex_info ''minimal 1.0.0'' err)
                  else (0, out, ex_info ((if loud then ''HELLO, '' @ pct_s name @ ''!''
                                          else ''hello, '' @ pct_s name)) err))))"

subsection \<open>What the programs do\<close>

text \<open>\<open>log_uart\<close>: both lines pass the threshold, the third does not, and the buffer holds the last one.\<close>

theorem log_uart_output:
  "log_uart_main [] =
    (0, ''<uart level=3> boot ok, hw=qemu-aarch64'' @ NL @ ''<uart level=2> battery at 17%'' @ NL @
        ''captured last line: battery at 17%'' @ NL)"
proof -
  have "pct_d 17 = ''17''" "pct_d 3 = ''3''" "pct_d 2 = ''2''"
    by (simp_all add: pct_d_def uint_text_def uint_tmp_def uint_digits.simps, code_simp+)
  then show ?thesis
    by (simp add: log_uart_main_def FakeUartSink_Write_def log_macro_defs Logf_line SetLevel_def
        SetSink_def log_initial_def config_defs fixed_string_def pct_s_def Let_def)
qed

text \<open>
  \<open>io_copy\<close>: whatever the buffers hold at the start, the program ends with 0 and reports the length
  of the message twice and the message itself.
\<close>

theorem io_copy_output:
  assumes "length out_buf = 64" "length scratch = 8"
  shows "io_copy_main out_buf scratch [] = Some (0,
    ''[INFO] copied 46 bytes (counter saw 46)'' @ NL @
    ''[INFO] dest: stream me through fixed buffers without a heap'' @ NL)"
proof -
  have len: "length (bytes_of io_copy_msg) = 46" by (simp add: io_copy_msg_def)
  have "scratch \<noteq> []" "length (bytes_of io_copy_msg) \<le> length out_buf" using assms len by auto
  from span_tee_copies [OF this] obtain scratch' r w c where
    run: "io_Copy SpanReader_Read (TeeWriter_Write SpanWriter_Write CountingWriter_Write)
        (sr_new (bytes_of io_copy_msg)) (sw_new out_buf, cw_new) scratch =
        Some (Inr 46, scratch', r, (w, c))"
    and w: "sw_content w = bytes_of io_copy_msg" "sw_written w = 46" "cw_count c = 46"
    unfolding len by (auto simp: wrap_size_id)
  have "chars_of (take (sw_written w) (sw_buffer w)) = io_copy_msg"
    using w by (simp add: sw_content_def sw_written_def)
  moreover have "uint_text 46 = ''46''"
    by (simp add: uint_text_def uint_tmp_def uint_digits.simps, code_simp)
  ultimately show ?thesis
    unfolding io_copy_main_def run
    by (simp add: w ex_lines pct_s_id io_copy_msg_def NL_def pct_s_def)
qed

theorem io_copy_output_witness:
  "io_copy_main (replicate 64 7) (replicate 8 9) [] = Some (0,
    ''[INFO] copied 46 bytes (counter saw 46)'' @ NL @
    ''[INFO] dest: stream me through fixed buffers without a heap'' @ NL)"
  by (rule io_copy_output) simp_all

text \<open>
  \<open>sha256_stream\<close>: whatever its uninitialised members hold, the program ends with 0, having reported
  the digest of the message, its tag and that the tag verifies.
\<close>

theorem sha256_stream_verifies:
  assumes "length junk = 64" "length scratch = 8"
  shows "sha256_stream_main junk_state junk junk_okey scratch [] = Some (0,
    ex_info ''verify = ok''
      (ex_info (''hmac   = '' @ Hex (rfc_hmac sha_key sha_msg))
        (ex_info (''sha256 = '' @ Hex (sha256 sha_msg)) [])))"
proof -
  have "scratch \<noteq> []" using assms(2) by auto
  with sha_stream.stream_digest [OF sr_new_simps(1) sha_new_live(1) [OF assms(1)] this, of sha_msg junk_state]
  obtain s' r' h' where "HashStream SpanReader_Read sha_Update sha_Final (sr_new sha_msg)
      (sha_new junk_state junk) scratch = Some (Inr (sha256 sha_msg), s', r', h')"
    by (auto simp: sha_new_live(2) [OF assms(1)] sha_digest_start)
  moreover have "hmac_Verify junk_state junk junk_okey \<lparr>hv_key = sha_key\<rparr> sha_msg
      (rfc_hmac sha_key sha_msg) = Some Ok"
    by (simp add: hmac_Verify_def hmac_Tag_rfc [OF assms(1)])
  ultimately show ?thesis
    by (simp add: sha256_stream_main_def hmac_Tag_rfc [OF assms(1)] Let_def)
qed

theorem sha256_stream_verifies_witness:
  "map_option fst (sha256_stream_main [] (replicate 64 1) [] (replicate 8 2) []) = Some 0"
  by (subst sha256_stream_verifies) simp_all

lemma state_names:
  "fsm_state_name \<lparr>fsm_state = IdleId\<rparr> = ''Idle''"
  "fsm_state_name \<lparr>fsm_state = DownloadId\<rparr> = ''Download''"
  "fsm_state_name \<lparr>fsm_state = VerifyId\<rparr> = ''Verify''"
  "fsm_state_name \<lparr>fsm_state = InstallId\<rparr> = ''Install''"
  "fsm_state_name \<lparr>fsm_state = AwaitCommitId\<rparr> = ''AwaitCommit''"
  "fsm_state_name \<lparr>fsm_state = DoneId\<rparr> = ''Done''"
  "fsm_state_name \<lparr>fsm_state = FailedId\<rparr> = ''Failed''"
  by (simp_all add: fsm_state_name_def StateName_def state_ids_def)

text \<open>
  \<open>update_fsm\<close>: with the dispatch the library documents, the early commit leaves the machine idle,
  the five events bring it to \<open>Done\<close>, and the second machine fails on the abort.
\<close>

theorem update_fsm_shows:
  assumes "fsm_base recv"
  shows "case update_fsm_main recv [] of (rc, err, fsm, fsm2) \<Rightarrow>
    rc = 0 \<and> fsm_state fsm = DoneId \<and> fsm_state fsm2 = FailedId \<and>
    err = ''[INFO] initial                    -> Idle'' @ NL @
      ''[INFO] Commit (too early, ignored) -> Idle'' @ NL @
      ''[INFO] Start                      -> Download'' @ NL @
      ''[INFO] Step                       -> Verify'' @ NL @
      ''[INFO] Step                       -> Install'' @ NL @
      ''[INFO] Step                       -> AwaitCommit'' @ NL @
      ''[INFO] Commit                     -> Done'' @ NL @
      ''[INFO] --- second run: rollback path ---'' @ NL @
      ''[INFO] Abort during Verify        -> Failed'' @ NL"
proof -
  have moves: "recv state_list m s = (case state_list s m of None \<Rightarrow> s | Some t \<Rightarrow> t)" for m s
    using fsm_base.recv_moves [OF assms] fsm_base.recv_stays [OF assms]
    by (auto split: option.split)
  show ?thesis
    by (simp add: update_fsm_main_def Show_def fsm_defs moves UpdateFsm_new_def Let_def ex_lines
        pct_26s_def state_names pct_s_def NL_def eval_nat_numeral)
qed

theorem update_fsm_shows_witness:
  "fsm_state (fst (snd (snd (update_fsm_main dispatch [])))) = DoneId"
  using update_fsm_shows [OF etl_fsm.fsm_base_axioms] by (simp split: prod.splits)

text \<open>
  \<open>ParseU32\<close> of \<open>result_error\<close> fails exactly on the empty text and on texts that are not all
  digits, with \<open>BadDigit\<close>; every other text gives its decimal value modulo \<open>2 ^ 32\<close>, so that a number
  out of range is not reported, although the error \<open>Overflow\<close> is declared for it.
\<close>

definition decimal :: "string \<Rightarrow> nat" where
  "decimal s = foldl (\<lambda>v c. v * 10 + (of_char c - 48)) 0 s"

lemma foldl_digits_mod:
  "(word_of_nat (foldl (\<lambda>v c. v * 10 + (of_char c - 48)) (n mod 2 ^ 32) s) :: u32) =
    word_of_nat (foldl (\<lambda>v c. v * 10 + (of_char c - 48)) n s)"
proof (induction s rule: rev_induct)
  case Nil
  then show ?case by (simp add: word_of_nat_eq_iff take_bit_eq_mod)
next
  case (snoc c s)
  then show ?case by simp
qed

lemma ParseU32_loop_value:
  "ParseU32_loop s v =
     (if list_all is_digit_char s
      then Inr (word_of_nat (foldl (\<lambda>v c. v * 10 + (of_char c - 48)) (unat v) s))
      else Fail ParseCategory BadDigit ''non-digit character'')"
proof (induction s arbitrary: v)
  case (Cons c s)
  have "unat (v * 10 + word_of_nat (of_char c - 48)) = (unat v * 10 + (of_char c - 48)) mod 2 ^ 32"
    by (simp add: unat_word_ariths unat_of_nat take_bit_eq_mod mod_simps)
  with Cons.IH foldl_digits_mod show ?case by simp
qed simp

theorem parse_u32_value:
  "ParseU32 s =
     (if s = [] then Fail ParseCategory BadDigit ''empty input''
      else if list_all is_digit_char s then Inr (word_of_nat (decimal s))
      else Fail ParseCategory BadDigit ''non-digit character'') \<and>
   err_code (ParseU32 s) \<noteq> Some Overflow"
  by (simp add: ParseU32_def ParseU32_loop_value decimal_def BadDigit_def Overflow_def)

lemma result_error_output:
  "result_error_main [] =
    (0, ''[INFO] ok:    '' @ quoted ''42'' @ '' -> 42'' @ NL @
        ''[ERROR] error: '' @ quoted '''' @ '' -> [parse/1] empty input'' @ NL @
        ''[ERROR] error: '' @ quoted ''12x4'' @ '' -> [parse/1] non-digit character'' @ NL)"
proof -
  have "uint_text 42 = ''42''" "uint_text 1 = ''1''"
    by (simp_all add: uint_text_def uint_tmp_def uint_digits.simps, code_simp+)
  then show ?thesis
    by (simp add: result_error_main_def Try_def ParseU32_def is_digit_char_def ex_lines pct_s_def quoted_def
        NL_def Fail_def error_Make_def fixed_string_def config_defs BadDigit_def pct_d_def
        ParseCategory_def)
qed

text \<open>
  \<open>event_loop\<close> returns: the immediate callback runs first, then the three ticks in the order of
  their deadlines, the simulated clock stands at three seconds, nothing is left in the loop, and
  the text on the error stream is this one.
\<close>

theorem event_loop_output:
  "\<exists>l. event_loop_main [] = Some (0, l) \<and> loop_idle l \<and> sim_now (ev_clock l) = \<lparr>t_ms = 3000\<rparr> \<and>
    ev_env l = (3,
      ''[INFO] running loop with 3 timers...'' @ NL @
      ''[INFO] immediate callback ran'' @ NL @
      ''[INFO] tick 1 fired'' @ NL @ ''[INFO] tick 2 fired'' @ NL @ ''[INFO] tick 3 fired'' @ NL @
      ''[INFO] loop idle after 3 ticks'' @ NL)"
proof -
  have "uint_text 3 = ''3''" "pct_d 1 = ''1''" "pct_d 2 = ''2''" "pct_d 3 = ''3''"
    by (simp_all add: pct_d_def uint_text_def uint_tmp_def uint_digits.simps, code_simp+)
  then show ?thesis
    by (simp add: event_loop_main_def event_loop_setup_def Events.Post_def PostAfter_def
        SimulatedClock_Now_def SimulatedClock_SleepUntil_def time_defs config_defs pending_timers_def
        Run_def run_loop.simps RunOnce_def fire_timers.simps EarliestTimer_def erase_at_def
        loop_idle_def ex_lines pct_s_def NL_def eval_nat_numeral upt_rec Let_def)
qed

lemma first_boot_store:
  "\<exists>kv. snd (MemoryKv_SetString lt ''update_state'' ''ArtifactInstall_Enter''
      (snd (MemoryKv_SetString lt ''artifact'' ''device-image-1.1.0''
        (FileKv_new lt (fs(kv_demo_path := None)) kv_demo_path)))) = kv \<and>
    kv_wf kv \<and> fk_path kv = kv_demo_path \<and> kv_abs kv =
      [''artifact'' \<mapsto> bytes_of ''device-image-1.1.0'', ''update_state'' \<mapsto> bytes_of ''ArtifactInstall_Enter'']"
proof -
  have path: "fixed_string 256 kv_demo_path = kv_demo_path" by (simp add: fixed_string_def kv_demo_path_def)
  let ?s0 = "\<lparr>kv_map = [], fk_path = kv_demo_path\<rparr>"
  have new: "FileKv_new lt (fs(kv_demo_path := None)) kv_demo_path = ?s0"
    by (simp add: FileKv_new_def path FileKv_Load_def Let_def)
  have s0: "kv_wf ?s0" "kv_abs ?s0 = Map.empty" by (simp_all add: kv_wf_def kv_abs_def)
  obtain s1 where s1: "MemoryKv_SetString lt ''artifact'' ''device-image-1.1.0'' ?s0 = (Ok, s1)" "kv_wf s1"
    "kv_abs s1 = [''artifact'' \<mapsto> bytes_of ''device-image-1.1.0'']"
    using MemoryKv_Set_ok [OF s0(1), of "''artifact''" "bytes_of ''device-image-1.1.0''" lt] s0(2)
    by (auto simp: MemoryKv_SetString_def kv_fits_def kv_room_def config_defs)
  obtain s2 where s2: "MemoryKv_SetString lt ''update_state'' ''ArtifactInstall_Enter'' s1 = (Ok, s2)" "kv_wf s2"
    "kv_abs s2 = (kv_abs s1)(''update_state'' \<mapsto> bytes_of ''ArtifactInstall_Enter'')"
    using MemoryKv_Set_ok [OF s1(2), of "''update_state''" "bytes_of ''ArtifactInstall_Enter''" lt] s1(3)
    by (auto simp: MemoryKv_SetString_def kv_fits_def kv_room_def config_defs)
  have "fk_path s2 = kv_demo_path"
    using MemoryKv_Set_frame [of lt "''artifact''" "bytes_of ''device-image-1.1.0''" ?s0]
      MemoryKv_Set_frame [of lt "''update_state''" "bytes_of ''ArtifactInstall_Enter''" s1] s1(1) s2(1)
    by (simp add: MemoryKv_SetString_def)
  with new s1 s2 show ?thesis by simp
qed

text \<open>
  \<open>kv_persist\<close>: when the commit succeeds, the second store, loaded from the file alone, gives back
  the state that the first one had staged, and the program ends with 0; when the commit fails the
  program ends with 1 and no second store is opened.
\<close>

theorem kv_persist_resumes:
  assumes "length buf = 128"
  shows "case kv_persist_main lt env fs buf [] of (rc, fs', err) \<Rightarrow>
    if ce_open env \<and> ce_flush env \<and> ce_rename env
    then rc = 0 \<and> err = ''[INFO] committed 2 entries'' @ NL @
        ''[INFO] resumed update_state = ArtifactInstall_Enter'' @ NL
    else rc = 1 \<and> fs' kv_demo_path = None"
proof -
  let ?fs = "fs(kv_demo_path := None)"
  obtain kv where kv: "snd (MemoryKv_SetString lt ''update_state'' ''ArtifactInstall_Enter''
      (snd (MemoryKv_SetString lt ''artifact'' ''device-image-1.1.0''
        (FileKv_new lt ?fs kv_demo_path)))) = kv"
    "kv_wf kv" "fk_path kv = kv_demo_path" "kv_abs kv =
      [''artifact'' \<mapsto> bytes_of ''device-image-1.1.0'', ''update_state'' \<mapsto> bytes_of ''ArtifactInstall_Enter'']"
    using first_boot_store by blast
  obtain st tr where c: "FileKv_Commit env kv ?fs = (st, tr)" by fastforce
  have ok: "path_ok (fk_path kv)" by (simp add: path_ok_def kv kv_demo_path_def)
  have st: "is_ok st \<longleftrightarrow> ce_open env \<and> ce_flush env \<and> ce_rename env"
    using c by (auto simp: FileKv_Commit_def Let_def Fail_def split: if_splits)
  note last = Commit_final [OF ok c]
  show ?thesis
  proof (cases "is_ok st")
    case False
    then obtain e where "st = Inl e" by (cases st) auto
    with c kv last False st show ?thesis
      by (simp add: kv_persist_main_def kv_first_boot_def Let_def)
  next
    case True
    then have st': "st = Inr ()" by (cases st) auto
    let ?t = "\<lparr>kv_map = [], fk_path = kv_demo_path\<rparr>"
    have "last tr (fk_path ?t) = Some (kv_file_bytes (kv_map kv))" using last True kv by simp
    from Load_file_bytes [of kv "last tr" ?t lt, OF kv(2)] this obtain t' where
      t': "FileKv_Load lt (last tr) ?t = (Ok, t')" "kv_wf t'" "kv_abs t' = kv_abs kv" by auto
    have new: "FileKv_new lt (last tr) kv_demo_path = t'"
      using t'(1) by (simp add: FileKv_new_def fixed_string_def kv_demo_path_def)
    have "MemoryKv_GetStringInto t' ''update_state'' buf =
        (Inr ''ArtifactInstall_Enter'', memcpy buf 0 (bytes_of ''ArtifactInstall_Enter''))"
      using memory_kv.get_found [OF t'(2), of "''update_state''" "bytes_of ''ArtifactInstall_Enter''" buf]
        t'(3) kv(4) assms
      by (simp add: MemoryKv_GetStringInto_def memcpy_def)
    then have second: "kv_second_boot lt (last tr) buf err =
        (0, ex_info (''resumed update_state = ArtifactInstall_Enter'') err)" for err
      by (simp add: kv_second_boot_def new pct_s_def)
    have "dom (kv_abs kv) = {''artifact'', ''update_state''}" using kv(4) by auto
    moreover have "kv_size kv = card (dom (kv_abs kv))"
      using kv(2) distinct_card [of "map fst (kv_map kv)"]
      by (simp add: kv_wf_def kv_abs_def kv_size_def dom_map_of_conv_image_fst)
    ultimately have "kv_size kv = 2" by simp
    moreover have "uint_text 2 = ''2''"
      by (simp add: uint_text_def uint_tmp_def uint_digits.simps, code_simp)
    ultimately show ?thesis using c kv st' st True second
      by (simp add: kv_persist_main_def kv_first_boot_def Let_def ex_lines pct_s_def NL_def)
  qed
qed

theorem kv_persist_resumes_witness:
  "fst (kv_persist_main (\<lambda>_ _. False)
     \<lparr>ce_open = True, ce_flush = True, ce_partial = 0, ce_rename = True\<rparr> Map.empty (replicate 128 0) []) = 0"
  using kv_persist_resumes [where buf = "replicate 128 0" and lt = "\<lambda>_ _. False" and fs = Map.empty
      and env = "\<lparr>ce_open = True, ce_flush = True, ce_partial = 0, ce_rename = True\<rparr>"]
  by (simp split: prod.splits)

text \<open>
  \<open>cli_minimal\<close>: with no argument the help; with an unknown command an error, the help and exit
  status 1; and any sequence of names and \<open>--loud\<close> after \<open>greet\<close> greets the last name, loudly when
  the flag occurs.
\<close>

definition greet_cmd :: CliCommand where
  "greet_cmd = hd (app_commands minimal_app)"

fun greet_words :: "string list \<Rightarrow> bool \<Rightarrow> string \<Rightarrow> bool \<times> string" where
  "greet_words [] loud name = (loud, name)"
| "greet_words (w # ws) loud name =
     (if w = ''--loud'' then greet_words ws True name else greet_words ws loud w)"

lemma find_loud:
  "it_command it = greet_cmd \<Longrightarrow> FindOption it ''--loud'' =
    Some \<lparr>co_long_option = ''--loud'', co_description = ''Shout the greeting'', co_parameter = []\<rparr>"
  by (simp add: FindOption_def greet_cmd_def minimal_app_def)

lemma minimal_loop_words:
  assumes "list_all (\<lambda>w. w = ''--loud'' \<or> \<not> StartsWithDashDash w) ws"
  shows "minimal_loop \<lparr>it_argv = pre @ ws, it_command = greet_cmd, it_index = length pre, it_args_only = False\<rparr>
      loud name = Inr (greet_words ws loud name)"
  using assms
proof (induction ws arbitrary: pre loud name)
  case Nil
  then show ?case by (simp add: minimal_loop.simps Cli.Next_def)
next
  case (Cons w ws)
  have step: "minimal_loop \<lparr>it_argv = pre @ w # ws, it_command = greet_cmd,
      it_index = Suc (length pre), it_args_only = False\<rparr> l n = Inr (greet_words ws l n)" for l n
    using Cons.IH [of "pre @ [w]" l n] Cons.prems by simp
  show ?case
  proof (cases "w = ''--loud''")
    case True
    then show ?thesis
      by (subst minimal_loop.simps)
        (simp add: Cli.Next_def Next_token_def StartsWithDashDash_def find_loud OptionValue_init_def
          Let_def step [unfolded True])
  next
    case False
    with Cons.prems have "\<not> StartsWithDashDash w" by simp
    moreover have "w \<noteq> ''--''" using calculation by (auto simp: StartsWithDashDash_def)
    ultimately show ?thesis
      using False step by (subst minimal_loop.simps) (simp add: Cli.Next_def Next_token_def OptionValue_init_def)
  qed
qed

theorem cli_minimal_greets:
  assumes "list_all (\<lambda>w. w = ''--loud'' \<or> \<not> StartsWithDashDash w) ws"
  shows "cli_minimal_main fwrite (prog # ''greet'' # ws) out err =
    (case greet_words ws False ''there'' of
       (loud, name) \<Rightarrow> (0, out, ex_info (if loud then ''HELLO, '' @ pct_s name @ ''!''
                                   else ''hello, '' @ pct_s name) err))"
proof -
  have "FindCommand minimal_app ''greet'' = Some greet_cmd"
    by (simp add: FindCommand_def minimal_app_def greet_cmd_def)
  with minimal_loop_words [OF assms, of "[]" False "''there''"] show ?thesis
    by (simp add: cli_minimal_main_def iterator_new_def split: prod.split)
qed

theorem cli_minimal_greets_witness:
  "cli_minimal_main (dev_fwrite) [''prog'', ''greet'', ''bob'', ''--loud'', ''world''] d [] =
    (0, d, ''[INFO] HELLO, world!'' @ NL)"
  using cli_minimal_greets [of "[''bob'', ''--loud'', ''world'']" dev_fwrite "''prog''" d "[]"]
  by (simp add: StartsWithDashDash_def ex_lines pct_s_def)

end
