(* ===== verification/Listener.thy ===== *)
theory Listener
  imports HostTcp
begin

section \<open>Listener: how the examples start their loopback server\<close>

text \<open>
  \<open>tcp_http_get\<close>, \<open>mtls_client\<close> and \<open>se_mtls_client\<close> open a listening socket on the loopback address, let
  the system choose its port and hand the descriptor to a thread that serves one connection. None of
  the results is looked at. The calls are the fields of a record; a descriptor is an \<open>int\<close>, and the
  port is what \<open>ntohs\<close> makes of the address after \<open>getsockname\<close>, which leaves it as it was when it fails.
\<close>

record 'w Listen =
  ls_socket :: "'w \<Rightarrow> int \<times> 'w"
  ls_bind :: "int \<Rightarrow> nat \<Rightarrow> 'w \<Rightarrow> int \<times> 'w"
  ls_listen :: "int \<Rightarrow> nat \<Rightarrow> 'w \<Rightarrow> int \<times> 'w"
  ls_getsockname :: "int \<Rightarrow> nat \<Rightarrow> 'w \<Rightarrow> nat \<times> 'w"
  ls_close :: "int \<Rightarrow> 'w \<Rightarrow> 'w"

definition listen_loopback :: "'w Listen \<Rightarrow> 'w \<Rightarrow> int \<times> nat \<times> 'w" where
  "listen_loopback ls w =
     (case ls_socket ls w of (listen_fd, w) \<Rightarrow>
        let port = 0;
            w = snd (ls_bind ls listen_fd port w);
            w = snd (ls_listen ls listen_fd 1 w) in
        (case ls_getsockname ls listen_fd port w of (port, w) \<Rightarrow> (listen_fd, port, w)))"

end
