(* ===== verification/ExampleNet.thy ===== *)
theory ExampleNet
  imports ExampleLog JsonView Tls Listener
begin

section \<open>ExampleNet: the example programs that read JSON and talk over a network\<close>

text \<open>
  \<open>examples/\<close>: \<open>json_config\<close>, \<open>http_get\<close>, \<open>mtls_client\<close> and the client of \<open>tcp_http_get\<close>, over any transport.
  The loopback servers that two of them start in a thread of their own are in \<open>LoopHttp\<close> and \<open>TlsServer\<close>.
  \<open>None\<close> is not returning, or an overflow the language leaves undefined.
\<close>

subsection \<open>json\_config\<close>

definition kManifest :: string where
  "kManifest =
     ''{'' @ ''  \"artifact_name\": \"device-image-1.1.0\",'' @ ''  \"version\": 3,'' @
     ''  \"compatible\": [\"rpi4\", \"imx8\"],'' @ ''  \"signed\": true'' @ ''}''"

text \<open>The loop over \<open>compatible\<close>: \<open>list\<close> has room for 64 characters.\<close>

definition compatible_list :: "Json \<Rightarrow> string" where
  "compatible_list compatible =
     foldl (\<lambda>list i.
         let e = AsString (Json_elem compatible i);
             list = (if i \<noteq> 0 then fixed_string 64 (list @ '', '') else list) in
         fixed_string 64 (list @ e))
       [] [0..<Json_size compatible]"

definition json_config_report :: "Json \<Rightarrow> string \<Rightarrow> (int \<times> string) option" where
  "json_config_report doc err =
     (let name = AsString (Json_key doc ''artifact_name'');
          is_signed = AsBool (Json_key doc ''signed'') in
      case AsInt (Json_key doc ''version'') of
        None \<Rightarrow> None
      | Some version \<Rightarrow>
          (let err = ex_info (''artifact_name = '' @ pct_s name) err;
               err = (case version of Inr v \<Rightarrow> ex_info (''version       = '' @ pct_d v) err | Inl _ \<Rightarrow> err);
               err = (case is_signed of
                        Inr b \<Rightarrow> ex_info (''signed        = '' @ (if b then ''yes'' else ''no'')) err
                      | Inl _ \<Rightarrow> err);
               compatible = Json_key doc ''compatible'';
               list = compatible_list compatible in
           Some (0, ex_info (''compatible    = '' @ uint_text (Json_size compatible) @ '' entries: '' @ pct_s list) err)))"

definition json_config_main :: "Token list \<Rightarrow> string \<Rightarrow> (int \<times> string) option" where
  "json_config_main tokens err =
     (case ParseToView kManifest tokens of
        None \<Rightarrow> None
      | Some (Inl e, _) \<Rightarrow> Some (1, ex_error (''parse error: '' @ pct_s (message e)) err)
      | Some (Inr doc, _) \<Rightarrow> json_config_report doc err)"

subsection \<open>http\_get\<close>

text \<open>
  \<open>CannedSocket\<close> replays a response; \<open>cs_sent\<close> is a ghost of what it was sent, which it drops.
\<close>

record CannedSocket =
  cs_data :: bytes
  cs_pos :: nat
  cs_sent :: bytes

definition CannedSocket_new :: "bytes \<Rightarrow> CannedSocket" where
  "CannedSocket_new response = \<lparr>cs_data = response, cs_pos = 0, cs_sent = []\<rparr>"

definition canned_Send :: "bytes \<Rightarrow> CannedSocket \<Rightarrow> Status \<times> CannedSocket" where
  "canned_Send src s = (Ok, s\<lparr>cs_sent := cs_sent s @ src\<rparr>)"

definition canned_Recv :: "bytes \<Rightarrow> CannedSocket \<Rightarrow> nat Result \<times> bytes \<times> CannedSocket" where
  "canned_Recv dst s =
     (let n = min (length dst) (length (cs_data s) - cs_pos s) in
      (Inr n, memcpy dst 0 (take n (drop (cs_pos s) (cs_data s))), s\<lparr>cs_pos := cs_pos s + n\<rparr>))"

interpretation canned: socket "\<lambda>dst s. Some (canned_Recv dst s)" "\<lambda>s. cs_pos s \<le> length (cs_data s)"
    "\<lambda>s. drop (cs_pos s) (cs_data s)" "\<lambda>src s. Some (canned_Send src s)" cs_sent
  by unfold_locales
    (auto simp: canned_Recv_def canned_Send_def Let_def memcpy_def min_def add.commute split: if_splits)

definition kResponse_body :: string where
  "kResponse_body = ''{\"artifact_name\":\"img-1.2.0\",\"version\":7}''"

definition kResponse :: bytes where
  "kResponse =
     bytes_of (''HTTP/1.1 200 OK'' @ CRLF @ ''Content-Type: application/json'' @ CRLF @
       ''Content-Length: 44'' @ CRLF @ ''Connection: close'' @ CRLF @ CRLF @ kResponse_body)"

definition http_get_report :: "Token list \<Rightarrow> Response \<Rightarrow> string \<Rightarrow> (int \<times> string) option" where
  "http_get_report tokens resp err =
     (let err = ex_info (''status: '' @ pct_d (rs_status resp) @ '' '' @ pct_s (rs_reason resp)) err;
          err = ex_info (''content-type: '' @ pct_s (GetHeader resp ''Content-Type'')) err in
      case ParseToView (chars_of (rs_body resp)) tokens of
        None \<Rightarrow> None
      | Some (Inl e, _) \<Rightarrow> Some (1, ex_error (''json error: '' @ pct_s (message e)) err)
      | Some (Inr doc, _) \<Rightarrow>
          (case AsInt (Json_key doc ''version'') of
             None \<Rightarrow> None
           | Some ver \<Rightarrow>
               (let err = ex_info (''manifest artifact_name = '' @
                      pct_s (AsString (Json_key doc ''artifact_name''))) err in
                Some (0, case ver of
                    Inr v \<Rightarrow> ex_info (''manifest version       = '' @ pct_d v) err
                  | Inl _ \<Rightarrow> err))))"

definition http_get_main :: "bytes \<Rightarrow> bytes \<Rightarrow> Token list \<Rightarrow> string \<Rightarrow> (int \<times> string) option" where
  "http_get_main recv_buf reqbuf tokens err =
     (case Client_Get (\<lambda>src s. Some (canned_Send src s)) (\<lambda>dst s. Some (canned_Recv dst s))
             (CannedSocket_new kResponse) ''device.example.com'' ''/manifest.json'' recv_buf reqbuf of
        None \<Rightarrow> None
      | Some (Inl e, _) \<Rightarrow> Some (1, ex_error (''http error: '' @ pct_s (message e)) err)
      | Some (Inr resp, _) \<Rightarrow> http_get_report tokens resp err)"

subsection \<open>The client of tcp\_http\_get\<close>

text \<open>What the server of the example sends, and the client over the \<open>Connect\<close>, \<open>Send\<close> and \<open>Recv\<close> of a socket.\<close>

definition kResp_body :: string where
  "kResp_body = ''{\"status\":\"up\",\"build\":42}''"

definition kResp :: bytes where
  "kResp =
     bytes_of (''HTTP/1.1 200 OK'' @ CRLF @ ''Content-Type: application/json'' @ CRLF @
       ''Content-Length: 27'' @ CRLF @ ''Connection: close'' @ CRLF @ CRLF @ kResp_body)"

definition tcp_http_get_client ::
    "(string \<Rightarrow> nat \<Rightarrow> 's \<Rightarrow> Status \<times> 's) \<Rightarrow> (bytes \<Rightarrow> 's \<Rightarrow> (Status \<times> 's) option) \<Rightarrow>
     (bytes \<Rightarrow> 's \<Rightarrow> (nat Result \<times> bytes \<times> 's) option) \<Rightarrow> nat \<Rightarrow> bytes \<Rightarrow> bytes \<Rightarrow> 's \<Rightarrow> string \<Rightarrow>
     (int \<times> 's \<times> string) option" where
  "tcp_http_get_client connect send recv port buf reqbuf sock err =
     (case connect ''127.0.0.1'' port sock of
        (Inl e, sock) \<Rightarrow> Some (1, sock, ex_error (''connect failed: '' @ pct_s (message e)) err)
      | (Inr _, sock) \<Rightarrow>
          (case Client_Get send recv sock ''127.0.0.1'' ''/health'' buf reqbuf of
             None \<Rightarrow> None
           | Some (Inl e, _, sock) \<Rightarrow> Some (1, sock, ex_error (''http error: '' @ pct_s (message e)) err)
           | Some (Inr resp, _, sock) \<Rightarrow>
               Some (0, sock,
                 ex_info (''body:   '' @ pct_s (chars_of (rs_body resp)))
                   (ex_info (''status: '' @ pct_d (rs_status resp) @ '' '' @ pct_s (rs_reason resp)) err))))"

subsection \<open>What the programs do\<close>

text \<open>\<open>json_config\<close> finds the four fields of its manifest and reports them.\<close>

theorem json_config_output:
  "json_config_main (replicate 32 Token_init) [] = Some (0,
    ''[INFO] artifact_name = device-image-1.1.0'' @ NL @ ''[INFO] version       = 3'' @ NL @
    ''[INFO] signed        = yes'' @ NL @ ''[INFO] compatible    = 2 entries: rpi4, imx8'' @ NL)"
  by code_simp

text \<open>The headers of the two canned responses, and what parsing the responses gives.\<close>

definition example_headers :: "string \<Rightarrow> HeaderList" where
  "example_headers len =
     [\<lparr>h_name = ''Content-Type'', h_value = ''application/json''\<rparr>,
      \<lparr>h_name = ''Content-Length'', h_value = len\<rparr>, \<lparr>h_name = ''Connection'', h_value = ''close''\<rparr>]"

definition example_response :: "nat \<Rightarrow> string \<Rightarrow> Response" where
  "example_response len body =
     \<lparr>rs_status = 200, rs_reason = ''OK'', rs_headers = example_headers (uint_text len),
      rs_body = bytes_of body, rs_content_length = Some len\<rparr>"

lemma status_text_200: "status_text 200 = ''200''"
  by code_simp

lemma example_lengths: "uint_text 44 = ''44''" "uint_text 27 = ''27''"
  by (simp add: uint_text_def uint_tmp_def uint_digits.simps, code_simp)+

lemma find_length:
  "find_header (example_headers l) ''Content-Length'' = Some \<lparr>h_name = ''Content-Length'', h_value = l\<rparr>"
proof -
  have "\<not> IEqual ''Content-Type'' ''Content-Length''" "IEqual ''Content-Length'' ''Content-Length''"
    by code_simp+
  then show ?thesis by (simp add: find_header_def example_headers_def)
qed

lemma ParseResponse_example:
  assumes "l = uint_text len" "l \<noteq> []" "trimmed l" "CR \<notin> set l" "len < 2 ^ 64" "length body \<le> len"
  shows "ParseResponse (response_bytes 200 ''OK'' (example_headers l) (bytes_of body)) =
    Inr (example_response len body)"
proof -
  have "list_all header_ok (example_headers l)" using assms(3,4)
    by (simp add: example_headers_def header_ok_def trimmed_def blank_front_def blank_back_def CR_def)
  then have "ParseResponse (response_bytes 200 ''OK'' (example_headers l) (bytes_of body)) =
      Inr (set_body (bytes_of body) (Response_init\<lparr>rs_status := int 200, rs_reason := ''OK'',
        rs_headers := example_headers l\<rparr>))"
    by (intro ParseResponse_render)
      (simp_all add: example_headers_def trimmed_def blank_front_def blank_back_def CR_def config_defs)
  moreover have "wrap_size len = len" using assms(5) by (simp add: wrap_size_id)
  ultimately show ?thesis
    using assms by (simp add: set_body_def GetHeader_def find_length length_loop_text Response_init_def
        example_response_def)
qed

lemma canned_responses:
  "kResponse = response_bytes 200 ''OK'' (example_headers ''44'') (bytes_of kResponse_body)"
  "kResp = response_bytes 200 ''OK'' (example_headers ''27'') (bytes_of kResp_body)"
  by (simp_all add: kResponse_def kResp_def response_bytes_def example_headers_def status_line_def
      status_text_200 header_text_def CRLF_simps)

lemma ParseResponse_canned:
  "ParseResponse kResponse = Inr (example_response 44 kResponse_body)"
  "ParseResponse kResp = Inr (example_response 27 kResp_body)"
  unfolding canned_responses
  by (rule ParseResponse_example;
      simp add: example_lengths trimmed_def blank_front_def blank_back_def CR_def kResponse_body_def kResp_body_def)+

lemma http_get_report_canned:
  "http_get_report (replicate 16 Token_init) (example_response 44 kResponse_body) [] = Some (0,
    ''[INFO] status: 200 OK'' @ NL @ ''[INFO] content-type: application/json'' @ NL @
    ''[INFO] manifest artifact_name = img-1.2.0'' @ NL @ ''[INFO] manifest version       = 7'' @ NL)"
  by code_simp

text \<open>
  \<open>http_get\<close>: whatever the two buffers hold, the program takes the response, whose body is three bytes
  shorter than it announces, finds the fields of the manifest in it and ends with 0.
\<close>

theorem http_get_output:
  assumes "length recv_buf = 512" and "length reqbuf = 1024"
  shows "http_get_main recv_buf reqbuf (replicate 16 Token_init) [] = Some (0,
    ''[INFO] status: 200 OK'' @ NL @ ''[INFO] content-type: application/json'' @ NL @
    ''[INFO] manifest artifact_name = img-1.2.0'' @ NL @ ''[INFO] manifest version       = 7'' @ NL)"
proof -
  let ?req = "Request_init\<lparr>rq_method := Get, rq_host := ''device.example.com'', rq_path := ''/manifest.json''\<rparr>"
  have "cs_pos (CannedSocket_new kResponse) \<le> length (cs_data (CannedSocket_new kResponse))"
    "length (request_bytes ?req) \<le> 1024" "length kResponse \<le> 512"
    by (simp_all add: CannedSocket_new_def request_bytes_def Request_init_def CRLF_simps kResponse_def kResponse_body_def)
  with canned.Client_Do_total [of "CannedSocket_new kResponse" reqbuf ?req recv_buf] assms
  obtain buf s where "Client_Do (\<lambda>src s. Some (canned_Send src s)) (\<lambda>dst s. Some (canned_Recv dst s))
      (CannedSocket_new kResponse) ?req recv_buf reqbuf =
      Some (Inr (example_response 44 kResponse_body), buf, s)"
    by (auto simp: CannedSocket_new_def ParseResponse_canned)
  then show ?thesis by (simp add: http_get_main_def Client_Get_def http_get_report_canned)
qed

theorem http_get_output_witness:
  "map_option fst (http_get_main (replicate 512 3) (replicate 1024 4) (replicate 16 Token_init) []) = Some 0"
  by (subst http_get_output) simp_all

definition tcp_http_get_request :: bytes where
  "tcp_http_get_request =
     bytes_of (''GET /health HTTP/1.1'' @ CRLF @ ''Host: 127.0.0.1'' @ CRLF @ ''Connection: close'' @ CRLF @ CRLF)"

definition tcp_http_get_output :: string where
  "tcp_http_get_output = ''[INFO] status: 200 OK'' @ NL @ ''[INFO] body:   '' @ kResp_body @ NL"

lemma tcp_http_get_request:
  "request_bytes (Request_init\<lparr>rq_method := Get, rq_host := ''127.0.0.1'', rq_path := ''/health''\<rparr>) =
    tcp_http_get_request"
  by (simp add: request_bytes_def Request_init_def tcp_http_get_request_def)

lemma tcp_http_get_lengths:
  "0 < length tcp_http_get_request" "length tcp_http_get_request \<le> 512" "length kResp \<le> 512"
  by (simp_all add: tcp_http_get_request_def CRLF_simps kResp_def kResp_body_def)

text \<open>The client, once its request is out and the answer of the example is there to be received.\<close>

lemma tcp_http_get_client_answered:
  assumes "receiver recv sinv incoming outgoing"
    and "connect ''127.0.0.1'' port sock = (Ok, s)" and "send tcp_http_get_request s = Some (Ok, s1)"
    and "sinv s1" and "incoming s1 = kResp" and "length buf = 512" and "length reqbuf = 1024"
  shows "\<exists>s'. tcp_http_get_client connect send recv port buf reqbuf sock [] =
      Some (0, s', tcp_http_get_output) \<and> sinv s' \<and> outgoing s' = outgoing s1"
proof -
  let ?req = "Request_init\<lparr>rq_method := Get, rq_host := ''127.0.0.1'', rq_path := ''/health''\<rparr>"
  have "send (request_bytes ?req) s = Some (Ok, s1)" "length (request_bytes ?req) \<le> 1024"
    using assms(3) tcp_http_get_lengths by (simp_all add: tcp_http_get_request)
  from receiver.Client_Do_receives [where send = send, OF assms(1) this(1) assms(4,7) this(2), of buf]
    assms(5,6) tcp_http_get_lengths(3)
  obtain buf' s' where "Client_Do send recv s ?req buf reqbuf = Some (Inr (example_response 27 kResp_body), buf', s')"
    "sinv s'" "outgoing s' = outgoing s1"
    by (auto simp: ParseResponse_canned)
  moreover have "uint_text 200 = ''200''"
    by (simp add: uint_text_def uint_tmp_def uint_digits.simps, code_simp)
  ultimately show ?thesis using assms(2)
    by (simp add: tcp_http_get_client_def Client_Get_def example_response_def ex_lines pct_d_def pct_s_def
        tcp_http_get_output_def kResp_body_def NL_def)
qed

text \<open>
  The client of \<open>tcp_http_get\<close>, over any socket that keeps the contract and whose peer sends the response
  of the example, in whatever pieces: it returns 0 with the status and the body on the error stream.
\<close>

theorem tcp_http_get_client_output:
  assumes "socket recv sinv incoming send outgoing"
    and "connect ''127.0.0.1'' port sock = (Ok, s)" and "sinv s" and "incoming s = kResp"
    and "length buf = 512" and "length reqbuf = 1024"
  shows "\<exists>s'. tcp_http_get_client connect send recv port buf reqbuf sock [] =
      Some (0, s', tcp_http_get_output) \<and> outgoing s' = outgoing s @ tcp_http_get_request"
proof -
  from assms(1) have r: "receiver recv sinv incoming outgoing" by (rule socket.axioms(1))
  from socket.send_total [OF assms(1,3), of tcp_http_get_request] obtain s1 where
    s1: "send tcp_http_get_request s = Some (Ok, s1)" "sinv s1" "incoming s1 = incoming s"
      "outgoing s1 = outgoing s @ tcp_http_get_request"
    by blast
  have "incoming s1 = kResp" using s1(3) assms(4) by simp
  from tcp_http_get_client_answered [where send = send and connect = connect and incoming = incoming and s = s,
      OF r assms(2) s1(1,2) this assms(5,6)] s1(4)
  show ?thesis by auto
qed

theorem tcp_http_get_client_output_witness:
  "\<exists>s'. tcp_http_get_client (\<lambda>host port s. (Ok, s)) (\<lambda>src s. Some (mock_Send src s))
      (\<lambda>dst s. Some (mock_Recv dst s)) 8080 (replicate 512 0)
      (replicate 1024 0) \<lparr>cm_data = kResp, cm_pos = 0, cm_sent = []\<rparr> [] =
    Some (0, s', tcp_http_get_output)"
  using tcp_http_get_client_output [OF mock.socket_axioms, where connect = "\<lambda>host port s. (Ok, s)"
      and sock = "\<lparr>cm_data = kResp, cm_pos = 0, cm_sent = []\<rparr>" and port = 8080
      and s = "\<lparr>cm_data = kResp, cm_pos = 0, cm_sent = []\<rparr>"
      and buf = "replicate 512 0" and reqbuf = "replicate 1024 0"]
  by auto

subsection \<open>The client of mtls\_client\<close>

text \<open>
  The exchange both TLS examples have after the handshake, with the state \<open>g\<close> of their log: the result of \<open>Send\<close> is dropped, and
  whatever \<open>Recv\<close> gives, the socket is closed. It gives whether something was echoed.
\<close>

definition tls_echo ::
    "unit LogState \<Rightarrow> ('k, 'w) TlsEnv \<Rightarrow> string \<Rightarrow> bytes \<Rightarrow> ('k, 'w) TlsSocket \<Rightarrow> string \<Rightarrow>
     (int \<times> ('k, 'w) TlsSocket \<times> string) option" where
  "tls_echo g env msg buf tls err =
     (case Tls_Send env (bytes_of msg) tls of
        None \<Rightarrow> None
      | Some (_, tls) \<Rightarrow>
          (case Tls_Recv env buf tls of
             None \<Rightarrow> None
           | Some (n, buf, tls) \<Rightarrow>
               (case n of
                  Inr k \<Rightarrow>
                    if k > 0 then
                      Some (0, Tls_Close env tls, log_info g (''server echoed: '' @ pct_s (chars_of (take k buf))) err)
                    else Some (1, Tls_Close env tls, err)
                | Inl e \<Rightarrow> Some (1, Tls_Close env tls, err))))"

definition mtls_config :: "string \<Rightarrow> string \<Rightarrow> string \<Rightarrow> TlsConfig" where
  "mtls_config kCaCertPem kClientCertPem kClientKeyPem =
     \<lparr>ca_cert_pem = kCaCertPem, client_cert_pem = kClientCertPem, client_key_pem = kClientKeyPem,
      server_name = ''localhost'', skip_verify = False\<rparr>"

definition mtls_client ::
    "('k, 'w) TlsEnv \<Rightarrow> string \<Rightarrow> string \<Rightarrow> string \<Rightarrow> nat \<Rightarrow> bytes \<Rightarrow> 'w \<Rightarrow> string \<Rightarrow>
     (int \<times> ('k, 'w) TlsSocket \<times> string) option" where
  "mtls_client env kCaCertPem kClientCertPem kClientKeyPem port buf w err =
     (case Configure env (mtls_config kCaCertPem kClientCertPem kClientKeyPem) (TlsSocket_new w) of
        (Inl e, tls) \<Rightarrow> Some (1, tls, ex_error (''configure failed: '' @ pct_s (message e)) err)
      | (Inr _, tls) \<Rightarrow>
          (case Tls_Connect env ''127.0.0.1'' port tls of
             None \<Rightarrow> None
           | Some (Inl e, tls) \<Rightarrow> Some (1, tls, ex_error (''handshake failed: '' @ pct_s (message e)) err)
           | Some (Inr _, tls) \<Rightarrow>
               tls_echo ex_log env ''GET /manifest over mTLS'' buf tls
                 (ex_info ''mutual TLS handshake OK (presented client cert)'' err)))"

text \<open>
  The frame both TLS examples have: a listening socket, a thread that serves it, the client, and the end of
  \<open>main\<close>, which waits for the thread, closes the listening socket and lets the destructors run. \<open>thread\<close> is
  the start of the thread and \<open>join\<close> the waiting for it, which may never end.
\<close>

definition with_server ::
    "'w Listen \<Rightarrow> (int \<Rightarrow> 'w \<Rightarrow> 'w) \<Rightarrow> ('w \<Rightarrow> 'w option) \<Rightarrow>
     (nat \<Rightarrow> 'w \<Rightarrow> (int \<times> ('k, 'w) TlsSocket \<times> string) option) \<Rightarrow> ('w \<Rightarrow> 'w) \<Rightarrow> 'w \<Rightarrow>
     (int \<times> ('k, 'w) TlsSocket \<times> string) option" where
  "with_server ls thread join client destructors w =
     (case listen_loopback ls w of (listen_fd, port, w) \<Rightarrow>
        (case client port (thread listen_fd w) of
           None \<Rightarrow> None
         | Some (rc, tls, err) \<Rightarrow>
             (case join (tl_world tls) of
                None \<Rightarrow> None
              | Some w \<Rightarrow> Some (rc, tls\<lparr>tl_world := destructors (ls_close ls listen_fd w)\<rparr>, err))))"

definition mtls_main ::
    "('k, 'w) TlsEnv \<Rightarrow> 'w Listen \<Rightarrow> (int \<Rightarrow> 'w \<Rightarrow> 'w) \<Rightarrow> ('w \<Rightarrow> 'w option) \<Rightarrow> string \<Rightarrow> string \<Rightarrow> string \<Rightarrow>
     bytes \<Rightarrow> 'w \<Rightarrow> string \<Rightarrow> (int \<times> ('k, 'w) TlsSocket \<times> string) option" where
  "mtls_main env ls thread join kCaCertPem kClientCertPem kClientKeyPem buf w err =
     with_server ls thread join
       (\<lambda>port w. mtls_client env kCaCertPem kClientCertPem kClientKeyPem port buf w err) (tr_Close env) w"

lemma with_server_Some:
  assumes "with_server ls thread join client destructors w = Some (rc, tls, err)"
  shows "\<exists>fd port w1 tls1 w2. listen_loopback ls w = (fd, port, w1) \<and>
    client port (thread fd w1) = Some (rc, tls1, err) \<and> join (tl_world tls1) = Some w2 \<and>
    tls = tls1\<lparr>tl_world := destructors (ls_close ls fd w2)\<rparr>"
  using assms by (auto simp: with_server_def split: prod.splits option.splits)

text \<open>Sending and receiving leave the noted calls and the flag of the handshake as they are.\<close>

lemma tls_send_loop_keeps:
  assumes "tls_send_loop env src sent s = Some rs"
  shows "tl_calls (snd rs) = tl_calls s \<and> tl_handshaked (snd rs) = tl_handshaked s"
  by (rule tls_send_loop.raw_induct [OF _ assms], goal_cases)
    (force simp: Let_def split: if_splits prod.splits)

lemma Tls_Recv_keeps:
  assumes "Tls_Recv env dst s = Some rs"
  shows "tl_calls (snd (snd rs)) = tl_calls s \<and> tl_handshaked (snd (snd rs)) = tl_handshaked s"
  by (rule Tls_Recv.raw_induct [OF _ assms], goal_cases)
    (force simp: Let_def split: if_splits prod.splits)

lemma Tls_Close_calls:
  "tl_calls (Tls_Close env s) = tl_calls s @ (if tl_handshaked s then [CloseNotify] else [])"
  "\<not> tl_handshaked (Tls_Close env s)"
  by (simp_all add: Tls_Close_def Let_def)

lemma tls_echo_calls:
  assumes "tls_echo g env msg buf tls err = Some (rc, tls', err')"
  shows "tl_calls tls' = tl_calls tls @ (if tl_handshaked tls then [CloseNotify] else [])"
    and "\<not> tl_handshaked tls'"
proof -
  from assms obtain st tls1 n buf2 tls2 where
    "Tls_Send env (bytes_of msg) tls = Some (st, tls1)" "Tls_Recv env buf tls1 = Some (n, buf2, tls2)"
    and t: "tls' = Tls_Close env tls2"
    by (auto simp: tls_echo_def split: option.splits sum.splits if_splits)
  from tls_send_loop_keeps [OF this(1) [unfolded Tls_Send_def]] Tls_Recv_keeps [OF this(2)]
  have "tl_calls tls2 = tl_calls tls" "tl_handshaked tls2 = tl_handshaked tls" by simp_all
  then show "tl_calls tls' = tl_calls tls @ (if tl_handshaked tls then [CloseNotify] else [])"
    "\<not> tl_handshaked tls'"
    by (simp_all add: t Tls_Close_calls)
qed

lemma handshaked_calls:
  assumes "Configure env cfg s = (Inr u, s1)" "Tls_Connect env host port s1 = Some (Inr v, s2)"
    "tls_echo g env msg buf s2 err = Some (rc, s3, err')" "tl_calls s = []"
  shows "\<exists>n. tl_calls s3 = config_calls cfg (tl_external_key s) @ [SetHostname (sni cfg host), SetBio] @
      replicate (Suc n) Handshake @ [CloseNotify]"
  using Configure_calls [OF assms(1)] Connect_calls [OF assms(2)] tls_echo_calls(1) [OF assms(3)] assms(4)
  by (auto simp: sni_def)

text \<open>
  \<open>mtls_client\<close>: when the program ends with 0 the server was verified against the CA under the name
  \<open>localhost\<close>, the client's certificate and key were given, and only then came the handshakes; the
  connection was closed with a notification.
\<close>

theorem mtls_client_mutual:
  assumes "mtls_client env ca cert key port buf w err = Some (0, tls, err')"
    and "cert \<noteq> []" and "key \<noteq> []"
  shows "\<exists>n. tl_calls tls = [DrbgSeed, ConfigDefaults, ConfRng, ParseCa ca, ConfCaChain,
      ConfAuthmode VERIFY_REQUIRED, ParseOwnCert cert, ParseKey key, ConfOwnCert None, SslSetup,
      SetHostname ''localhost'', SetBio] @ replicate (Suc n) Handshake @ [CloseNotify]"
proof -
  let ?cfg = "mtls_config ca cert key"
  from assms(1) obtain u s1 v s2 where
    "Configure env ?cfg (TlsSocket_new w) = (Inr u, s1)"
    "Tls_Connect env ''127.0.0.1'' port s1 = Some (Inr v, s2)"
    "tls_echo ex_log env ''GET /manifest over mTLS'' buf s2
       (ex_info ''mutual TLS handshake OK (presented client cert)'' err) = Some (0, tls, err')"
    unfolding mtls_client_def by (auto split: prod.splits sum.splits option.splits)
  from handshaked_calls [OF this] assms(2,3) show ?thesis
    by (auto simp: TlsSocket_new_def config_calls_def verify_calls_def client_calls_def mtls_config_def sni_def)
qed

lemma clear_echo:
  assumes "cm_data (tl_world s) = [104, 105]" "cm_pos (tl_world s) = 0"
  shows "\<exists>tls err'. tls_echo g clear_env msg (replicate 128 0) s err = Some (0, tls, err')"
proof -
  have "cm_pos (tl_world s) \<le> length (cm_data (tl_world s))" using assms by simp
  from clear.tls_send_loop_sends [OF this, of 0 "bytes_of msg"] assms obtain s1 where
    s1: "Tls_Send clear_env (bytes_of msg) s = Some (Ok, s1)"
    "cm_pos (tl_world s1) \<le> length (cm_data (tl_world s1))"
    "drop (cm_pos (tl_world s1)) (cm_data (tl_world s1)) = [104, 105]"
    by (auto simp: Tls_Send_def)
  from clear.Tls_Recv_receives [OF s1(2), of "replicate 128 0"] s1(3) obtain n dst s2 where
    "Tls_Recv clear_env (replicate 128 0) s1 = Some (Inr n, dst, s2)" "0 < n"
    by auto
  with s1(1) show ?thesis by (simp add: tls_echo_def)
qed

theorem mtls_client_mutual_witness:
  "\<exists>tls err' n. mtls_client clear_env ''CA'' ''CERT'' ''KEY'' 443 (replicate 128 0)
      \<lparr>cm_data = [104, 105], cm_pos = 0, cm_sent = []\<rparr> [] = Some (0, tls, err') \<and>
    tl_calls tls = [DrbgSeed, ConfigDefaults, ConfRng, ParseCa ''CA'', ConfCaChain,
      ConfAuthmode VERIFY_REQUIRED, ParseOwnCert ''CERT'', ParseKey ''KEY'', ConfOwnCert None, SslSetup,
      SetHostname ''localhost'', SetBio] @ replicate (Suc n) Handshake @ [CloseNotify]"
proof -
  let ?w = "\<lparr>cm_data = [104, 105], cm_pos = 0, cm_sent = []\<rparr>"
  let ?cfg = "mtls_config ''CA'' ''CERT'' ''KEY''"
  obtain s1 where s1: "Configure clear_env ?cfg (TlsSocket_new ?w) = (Inr (), s1)" "tl_world s1 = ?w" "tl_configured s1"
    by (simp add: Configure_def mbed_ok_def mbed_def clear_env_def configure_verify_def
        configure_client_def TlsSocket_new_def mtls_config_def)
  then obtain s2 where s2: "Tls_Connect clear_env ''127.0.0.1'' 443 s1 = Some (Inr (), s2)" "tl_world s2 = ?w"
    by (simp add: Tls_Connect_def mbed_def clear_env_def handshake_loop.simps Let_def)
  have "cm_data (tl_world s2) = [104, 105]" "cm_pos (tl_world s2) = 0" using s2(2) by simp_all
  from clear_echo [OF this, where msg = "''GET /manifest over mTLS''" and g = ex_log
      and err = "ex_info ''mutual TLS handshake OK (presented client cert)'' []"]
  obtain tls err' where "mtls_client clear_env ''CA'' ''CERT'' ''KEY'' 443 (replicate 128 0) ?w [] =
      Some (0, tls, err')"
    using s1(1) s2(1) by (auto simp: mtls_client_def)
  moreover from mtls_client_mutual [OF this] obtain n where
    "tl_calls tls = [DrbgSeed, ConfigDefaults, ConfRng, ParseCa ''CA'', ConfCaChain,
      ConfAuthmode VERIFY_REQUIRED, ParseOwnCert ''CERT'', ParseKey ''KEY'', ConfOwnCert None, SslSetup,
      SetHostname ''localhost'', SetBio] @ replicate (Suc n) Handshake @ [CloseNotify]"
    by auto
  ultimately show ?thesis by blast
qed

end
