(* ===== verification/LoopHttp.thy ===== *)
theory LoopHttp
  imports ExampleNet
begin

section \<open>LoopHttp: tcp\_http\_get with its server\<close>

text \<open>
  \<open>examples/tcp_http_get\<close> as a whole: the main thread, which is the client of \<open>ExampleNet\<close>, and the thread
  that runs \<open>RunHttpServer\<close>. The server is a step function over its program points; a step that has to
  wait is \<open>None\<close>. The record \<open>Host\<close> is the system below both: one listening socket, one connection with
  the bytes in flight in each direction, and the point the server has reached. \<open>ho_sched\<close> is the
  interleaving: before its next call is carried out, the main thread sees the server make that many
  steps. A call of the main thread that has to wait is interrupted (\<open>EINTR\<close>) while the server makes
  one step, and the socket calls it again. \<open>ho_got\<close> is a ghost of what the server has received.
\<close>

datatype ServerAt = AtAccept | AtRecv | AtSend | AtClose | Ended

record Host =
  ho_port :: nat
  ho_connect_err :: "Errno option"
  ho_accept_err :: "Errno option"
  ho_listening :: bool
  ho_pending :: bool
  ho_c2s :: bytes
  ho_s2c :: bytes
  ho_got :: bytes
  ho_client :: bool
  ho_server :: bool
  ho_reset :: bool
  ho_at :: ServerAt
  ho_sched :: "(nat \<times> nat) list"

subsection \<open>The calls of the server\<close>





subsection \<open>RunHttpServer\<close>



subsection \<open>The calls of the main thread\<close>






subsection \<open>The program\<close>


subsection \<open>The server makes progress\<close>






text \<open>The conversation once the request is out: what is still to come is what is in flight or not yet sent.\<close>

definition to_come :: "Host \<Rightarrow> bytes" where
  "to_come w = ho_s2c w @ (case ho_at w of AtClose \<Rightarrow> [] | Ended \<Rightarrow> [] | _ \<Rightarrow> kResp)"

definition asked :: "bytes \<Rightarrow> Host \<Rightarrow> bool" where
  "asked req w \<longleftrightarrow>
     ho_accept_err w = None \<and> \<not> ho_reset w \<and> ho_client w \<and> ho_got w @ ho_c2s w = req \<and>
     (ho_server w \<longleftrightarrow> ho_at w \<noteq> Ended) \<and>
     (case ho_at w of
        AtAccept \<Rightarrow> ho_pending w \<and> ho_c2s w \<noteq> [] \<and> length (ho_c2s w) \<le> 512
      | AtRecv \<Rightarrow> ho_c2s w \<noteq> [] \<and> length (ho_c2s w) \<le> 512
      | _ \<Rightarrow> ho_c2s w = [])"

lemma asked_sched [simp]: "asked req (w\<lparr>ho_sched := s\<rparr>) \<longleftrightarrow> asked req w" "to_come (w\<lparr>ho_sched := s\<rparr>) = to_come w"
  by (simp_all add: asked_def to_come_def split: ServerAt.split)




















subsection \<open>The whole program\<close>









end
