(* ===== verification/ExampleSe.thy ===== *)
theory ExampleSe
  imports ExampleNet SeKeys Scp03
begin

section \<open>ExampleSe: the example programs with a secure element\<close>

text \<open>
  \<open>examples/se_mtls_client\<close>, and what it shares with \<open>examples/se_quickstart\<close>. One world \<open>'w\<close> holds the element, the host's
  key store and the network. Both builds of \<open>Connection::Open\<close> are covered: \<open>scp03\<close> says whether the
  program was built with Platform SCP03.
\<close>

text \<open>\<open>%08x\<close>, and \<open>%02x\<close> of a byte.\<close>

definition pct_08x :: "u32 \<Rightarrow> string" where
  "pct_08x n = map (\<lambda>i. hex_digit (unat n div 16 ^ i mod 16)) [7, 6, 5, 4, 3, 2, 1, 0]"

definition pct_02x :: "u8 \<Rightarrow> string" where
  "pct_02x b = hex_byte b"

definition se_open :: "'w Boot \<Rightarrow> bool \<Rightarrow> string \<Rightarrow> 'w \<Rightarrow> Status \<times> 'w" where
  "se_open b scp03 port w =
     (if scp03 then Connection_Open b (Some port) True w else Connection_Open_sim b (Some port) True w)"

subsection \<open>se\_mtls\_client\<close>

definition se_mtls_log :: "unit LogState" where
  "se_mtls_log = SetLevel LInfo ex_log"

text \<open>
  The first half of \<open>main\<close>: whether the element's key is used, whether the connection to the element is
  open, the world and the error stream. \<open>setup_rc\<close> is the answer of \<open>mbedtls_pk_setup_rsa_alt\<close>.
\<close>

definition se_identity ::
    "'w Boot \<Rightarrow> bool \<Rightarrow> 'w Sss \<Rightarrow> int \<Rightarrow> string option \<Rightarrow> 'w \<Rightarrow> string \<Rightarrow> bool \<times> bool \<times> 'w \<times> string" where
  "se_identity b scp03 sss setup_rc se_port w err =
     (case se_port of
        None \<Rightarrow> (False, False, w,
          log_info se_mtls_log ''se_mtls_client: EX_SSS_BOOT_SSS_PORT not set; software fallback'' err)
      | Some port \<Rightarrow>
          (case se_open b scp03 port w of
             (Inl e, w) \<Rightarrow> (False, False, w,
               log_warn se_mtls_log (''se_mtls_client: SE open failed: '' @ pct_s (message e) @
                 ''; software fallback'') err)
           | (Inr _, w) \<Rightarrow>
               (case RsaKey_Open sss kRsaKeyId w of
                  (Inl e, w) \<Rightarrow> (False, True, w,
                    log_info se_mtls_log ''se_mtls_client: no provisioned SE key; software fallback'' err)
                | (Inr k, w) \<Rightarrow>
                    (case SetupOpaquePk setup_rc of
                       Inl e \<Rightarrow> (False, True, w,
                         log_warn se_mtls_log (''se_mtls_client: SetupOpaquePk: '' @ pct_s (message e) @
                           ''; software fallback'') err)
                     | Inr _ \<Rightarrow> (True, True, w,
                         log_info se_mtls_log (''se_mtls_client: SE-backed RSA key id=0x'' @
                           pct_08x kRsaKeyId) err)))))"

text \<open>The second half: the TLS client, with the element's key or with the one of the file.\<close>

definition se_mtls_client ::
    "('k, 'w) TlsEnv \<Rightarrow> 'k \<Rightarrow> bool \<Rightarrow> string \<Rightarrow> string \<Rightarrow> string \<Rightarrow> nat \<Rightarrow> bytes \<Rightarrow> 'w \<Rightarrow> string \<Rightarrow>
     (int \<times> ('k, 'w) TlsSocket \<times> string) option" where
  "se_mtls_client env opaque_pk using_se kCaCertPem kClientCertPem kClientKeyPem port buf w err =
     (let tls = TlsSocket_new w;
          tls = (if using_se then UseExternalKey opaque_pk tls else tls);
          cfg = mtls_config kCaCertPem kClientCertPem (if using_se then [] else kClientKeyPem) in
      (case Configure env cfg tls of
         (Inl e, tls) \<Rightarrow> Some (1, tls, log_error se_mtls_log (''configure: '' @ pct_s (message e)) err)
       | (Inr _, tls) \<Rightarrow>
           (case Tls_Connect env ''127.0.0.1'' port tls of
              None \<Rightarrow> None
            | Some (Inl e, tls) \<Rightarrow> Some (1, tls, log_error se_mtls_log (''handshake: '' @ pct_s (message e)) err)
            | Some (Inr _, tls) \<Rightarrow>
                tls_echo se_mtls_log env ''GET /manifest over SE-mTLS'' buf tls
                  (log_info se_mtls_log (''se_mtls_client: '' @
                     (if using_se then ''SE-backed mTLS'' else ''software mTLS'') @ '' handshake OK'') err))))"

text \<open>The program; the connection to the element is closed last.\<close>

definition se_mtls_main ::
    "('k, 'w) TlsEnv \<Rightarrow> 'w Listen \<Rightarrow> (int \<Rightarrow> 'w \<Rightarrow> 'w) \<Rightarrow> ('w \<Rightarrow> 'w option) \<Rightarrow> 'w Boot \<Rightarrow> bool \<Rightarrow> 'w Sss \<Rightarrow> int \<Rightarrow> 'k \<Rightarrow>
     string option \<Rightarrow> string \<Rightarrow> string \<Rightarrow> string \<Rightarrow> bytes \<Rightarrow> 'w \<Rightarrow> string \<Rightarrow> (int \<times> ('k, 'w) TlsSocket \<times> string) option" where
  "se_mtls_main env ls thread join b scp03 sss setup_rc opaque_pk se_port kCaCertPem kClientCertPem kClientKeyPem
     buf w err =
     (case se_identity b scp03 sss setup_rc se_port w err of (using_se, opened, w, err) \<Rightarrow>
        with_server ls thread join
          (\<lambda>port w. se_mtls_client env opaque_pk using_se kCaCertPem kClientCertPem kClientKeyPem port buf w err)
          (\<lambda>w. Connection_close b opened (tr_Close env w)) w)"

lemma se_identity_uses:
  "fst (se_identity b scp03 sss setup_rc se_port w err) \<longleftrightarrow>
    setup_rc = 0 \<and> (\<exists>p. se_port = Some p \<and> is_ok (fst (se_open b scp03 p w)) \<and>
       is_ok (fst (RsaKey_Open sss kRsaKeyId (snd (se_open b scp03 p w)))))"
proof (cases se_port)
  case None
  then show ?thesis by (simp add: se_identity_def)
next
  case (Some p)
  obtain st w1 where o: "se_open b scp03 p w = (st, w1)" by fastforce
  obtain k w2 where k: "RsaKey_Open sss kRsaKeyId w1 = (k, w2)" by fastforce
  show ?thesis
    by (cases st; cases k) (simp_all add: se_identity_def Some o k SetupOpaquePk_def SeFail_def Fail_def)
qed

lemma se_mtls_client_calls:
  assumes "se_mtls_client env pk using_se ca cert key port buf w err = Some (0, tls, err')"
    and "cert \<noteq> []" and "key \<noteq> []"
  shows "\<exists>n. tl_calls tls = [DrbgSeed, ConfigDefaults, ConfRng, ParseCa ca, ConfCaChain,
      ConfAuthmode VERIFY_REQUIRED, ParseOwnCert cert] @
      (if using_se then [ConfOwnCert (Some pk)] else [ParseKey key, ConfOwnCert None]) @
      [SslSetup, SetHostname ''localhost'', SetBio] @ replicate (Suc n) Handshake @ [CloseNotify]"
proof -
  let ?tls = "if using_se then UseExternalKey pk (TlsSocket_new w) else TlsSocket_new w"
  let ?cfg = "mtls_config ca cert (if using_se then [] else key)"
  from assms(1) obtain u s1 v s2 msg err2 where
    "Configure env ?cfg ?tls = (Inr u, s1)" "Tls_Connect env ''127.0.0.1'' port s1 = Some (Inr v, s2)"
    "tls_echo se_mtls_log env msg buf s2 err2 = Some (0, tls, err')"
    unfolding se_mtls_client_def by (auto simp: Let_def split: prod.splits sum.splits option.splits)
  from handshaked_calls [OF this] assms(2,3) show ?thesis
    by (auto simp: TlsSocket_new_def UseExternalKey_def config_calls_def verify_calls_def client_calls_def
        mtls_config_def sni_def)
qed

text \<open>
  C15: \<open>se_mtls_client\<close>: when the program ends with 0, the server was verified, and the client proved itself
  with the element's key when the connection, the key and the opaque context were all to be had, in
  which case no private key was parsed; otherwise with the key of the file.
\<close>

theorem se_mtls_client_identity:
  assumes "se_mtls_main env ls thread join b scp03 sss setup_rc pk se_port ca cert key buf w err = Some (0, tls, err')"
    and "cert \<noteq> []" and "key \<noteq> []"
  shows "\<exists>n using_se. tl_calls tls = [DrbgSeed, ConfigDefaults, ConfRng, ParseCa ca, ConfCaChain,
      ConfAuthmode VERIFY_REQUIRED, ParseOwnCert cert] @
      (if using_se then [ConfOwnCert (Some pk)] else [ParseKey key, ConfOwnCert None]) @
      [SslSetup, SetHostname ''localhost'', SetBio] @ replicate (Suc n) Handshake @ [CloseNotify] \<and>
    (using_se \<longleftrightarrow> setup_rc = 0 \<and> (\<exists>p. se_port = Some p \<and> is_ok (fst (se_open b scp03 p w)) \<and>
       is_ok (fst (RsaKey_Open sss kRsaKeyId (snd (se_open b scp03 p w))))))"
proof -
  obtain using_se opened w1 err1 where
    i: "se_identity b scp03 sss setup_rc se_port w err = (using_se, opened, w1, err1)"
    by (metis prod.exhaust)
  have cond: "using_se \<longleftrightarrow> setup_rc = 0 \<and> (\<exists>p. se_port = Some p \<and> is_ok (fst (se_open b scp03 p w)) \<and>
       is_ok (fst (RsaKey_Open sss kRsaKeyId (snd (se_open b scp03 p w)))))"
    using i se_identity_uses [of b scp03 sss setup_rc se_port w err] by simp
  from assms(1) obtain port w2 tls1 w3 where
    "se_mtls_client env pk using_se ca cert key port buf w2 err1 = Some (0, tls1, err')"
    "tls = tls1\<lparr>tl_world := w3\<rparr>"
    unfolding se_mtls_main_def by (auto simp: i dest!: with_server_Some)
  with se_mtls_client_calls [OF this(1) assms(2,3)] cond show ?thesis by auto
qed

text \<open>An element that has one key and nothing else.\<close>

definition one_key_sss :: "'w Sss" where
  "one_key_sss =
     no_sss\<lparr>sss_get_handle := \<lambda>h i w. (i = kRsaKeyId, h\<lparr>so_id := i\<rparr>, w),
            sss_get_key := \<lambda>h n w. ((True, [], 2048), w)\<rparr>"

text \<open>A network whose server has nothing to do.\<close>

definition quiet_listen :: "'w Listen" where
  "quiet_listen =
     \<lparr>ls_socket = (\<lambda>w. (3, w)), ls_bind = (\<lambda>fd port w. (0, w)), ls_listen = (\<lambda>fd n w. (0, w)),
      ls_getsockname = (\<lambda>fd port w. (443, w)), ls_close = (\<lambda>fd w. w)\<rparr>"

theorem se_mtls_client_identity_witness:
  "\<exists>tls err' n. se_mtls_main clear_env quiet_listen (\<lambda>fd w. w) Some quiet_boot True one_key_sss 0 7 (Some ''port'')
      ''CA'' ''CERT'' ''KEY'' (replicate 128 0) \<lparr>cm_data = [104, 105], cm_pos = 0, cm_sent = []\<rparr> [] =
      Some (0, tls, err') \<and>
    tl_calls tls = [DrbgSeed, ConfigDefaults, ConfRng, ParseCa ''CA'', ConfCaChain,
      ConfAuthmode VERIFY_REQUIRED, ParseOwnCert ''CERT'', ConfOwnCert (Some 7), SslSetup,
      SetHostname ''localhost'', SetBio] @ replicate (Suc n) Handshake @ [CloseNotify]"
proof -
  let ?w = "\<lparr>cm_data = [104, 105], cm_pos = 0, cm_sent = []\<rparr>"
  let ?cfg = "mtls_config ''CA'' ''CERT'' []"
  have open_ok: "se_open quiet_boot True ''port'' ?w = (Ok, ?w)"
    by (simp add: se_open_def Connection_Open_def Connection_Open_keys_def quiet_boot_def)
  have key: "is_ok (fst (RsaKey_Open one_key_sss kRsaKeyId ?w))" "snd (RsaKey_Open one_key_sss kRsaKeyId ?w) = ?w"
    by (simp_all add: RsaKey_Open_def KeyObject_Open_def one_key_sss_def no_sss_def Let_def)
  then obtain k where k: "RsaKey_Open one_key_sss kRsaKeyId ?w = (Inr k, ?w)"
    by (cases "RsaKey_Open one_key_sss kRsaKeyId ?w"; cases "fst (RsaKey_Open one_key_sss kRsaKeyId ?w)") auto
  then obtain err1 where i: "se_identity quiet_boot True one_key_sss 0 (Some ''port'') ?w [] = (True, True, ?w, err1)"
    by (simp add: se_identity_def open_ok SetupOpaquePk_def)
  obtain s1 where s1: "Configure clear_env ?cfg (UseExternalKey 7 (TlsSocket_new ?w)) = (Inr (), s1)"
    "tl_world s1 = ?w" "tl_configured s1"
    by (simp add: Configure_def mbed_ok_def mbed_def clear_env_def configure_verify_def
        configure_client_def TlsSocket_new_def mtls_config_def UseExternalKey_def)
  then obtain s2 where s2: "Tls_Connect clear_env ''127.0.0.1'' 443 s1 = Some (Inr (), s2)" "tl_world s2 = ?w"
    by (simp add: Tls_Connect_def mbed_def clear_env_def handshake_loop.simps Let_def)
  have "cm_data (tl_world s2) = [104, 105]" "cm_pos (tl_world s2) = 0" using s2(2) by simp_all
  from clear_echo [OF this, where msg = "''GET /manifest over SE-mTLS''" and g = se_mtls_log
      and err = "log_info se_mtls_log ''se_mtls_client: SE-backed mTLS handshake OK'' err1"]
  obtain tls1 err' where "se_mtls_client clear_env 7 True ''CA'' ''CERT'' ''KEY'' 443 (replicate 128 0) ?w err1 =
      Some (0, tls1, err')"
    using s1(1) s2(1) by (auto simp: se_mtls_client_def Let_def)
  then obtain tls where run: "se_mtls_main clear_env quiet_listen (\<lambda>fd w. w) Some quiet_boot True one_key_sss 0 7
      (Some ''port'') ''CA'' ''CERT'' ''KEY'' (replicate 128 0) ?w [] = Some (0, tls, err')"
    by (simp add: se_mtls_main_def i with_server_def listen_loopback_def quiet_listen_def)
  from se_mtls_client_identity [OF this] open_ok key(1) obtain n where
    "tl_calls tls = [DrbgSeed, ConfigDefaults, ConfRng, ParseCa ''CA'', ConfCaChain,
      ConfAuthmode VERIFY_REQUIRED, ParseOwnCert ''CERT'', ConfOwnCert (Some 7), SslSetup,
      SetHostname ''localhost'', SetBio] @ replicate (Suc n) Handshake @ [CloseNotify]"
    by auto
  with run show ?thesis by blast
qed

end
