(* ===== verification/TlsServer.thy ===== *)
theory TlsServer
  imports ExampleSe
begin

section \<open>TlsServer: the loopback server of the TLS examples\<close>

text \<open>
  \<open>RunServer\<close> of \<open>examples/mtls_client\<close> and of \<open>examples/se_mtls_client\<close>, which are the same function: a one-shot
  echo server that demands a client certificate. It is a step function over its program points, so that
  the other thread can act between any two calls. The calls of the system and of mbedTLS are the fields
  of a record; a call that waits is \<open>None\<close> for as long as it does. \<open>sr_trace\<close> is a ghost: what the server
  has done, in order. The results of the set-up calls are dropped, as in the code.
\<close>

datatype ServerCall =
    SvDrbgSeed | SvConfigDefaults | SvConfRng | SvParseCert string | SvParseKey string | SvConfOwnCert
  | SvParseCa string | SvConfCaChain | SvConfAuthmode AuthMode | SvSetup | SvSetBio

datatype ServerEvent = Did ServerCall | Shook int | GotPlain bytes | SentPlain bytes | Notified

record 'w FdBio =
  fb_send :: "bytes \<Rightarrow> 'w \<Rightarrow> (int \<times> 'w) option"
  fb_recv :: "bytes \<Rightarrow> 'w \<Rightarrow> (int \<times> bytes \<times> 'w) option"

record 'w SrvEnv =
  sv_accept :: "int \<Rightarrow> 'w \<Rightarrow> (int \<times> 'w) option"
  sv_send :: "int \<Rightarrow> bytes \<Rightarrow> 'w \<Rightarrow> (int \<times> 'w) option"
  sv_recv :: "int \<Rightarrow> bytes \<Rightarrow> 'w \<Rightarrow> (int \<times> bytes \<times> 'w) option"
  sv_close :: "int \<Rightarrow> 'w \<Rightarrow> 'w"
  sv_call :: "ServerCall \<Rightarrow> 'w FdBio \<Rightarrow> 'w \<Rightarrow> int \<times> 'w"
  sv_handshake :: "'w FdBio \<Rightarrow> 'w \<Rightarrow> (int \<times> 'w) option"
  sv_read :: "'w FdBio \<Rightarrow> bytes \<Rightarrow> 'w \<Rightarrow> (int \<times> bytes \<times> 'w) option"
  sv_write :: "'w FdBio \<Rightarrow> bytes \<Rightarrow> 'w \<Rightarrow> (int \<times> 'w) option"
  sv_notify :: "'w FdBio \<Rightarrow> 'w \<Rightarrow> (int \<times> 'w) option"
  SV_WANT_READ :: int
  SV_WANT_WRITE :: int
  SV_INTERNAL_ERROR :: int

subsection \<open>The callbacks\<close>

text \<open>\<open>static_cast<int>\<close> of an \<open>ssize_t\<close>.\<close>

definition int_of_ssize :: "int \<Rightarrow> int" where
  "int_of_ssize n = sint (word_of_int n :: 32 word)"

definition FdSend :: "'w SrvEnv \<Rightarrow> int \<Rightarrow> bytes \<Rightarrow> 'w \<Rightarrow> (int \<times> 'w) option" where
  "FdSend env c b w =
     map_option (\<lambda>(n, w). (if n < 0 then SV_INTERNAL_ERROR env else int_of_ssize n, w)) (sv_send env c b w)"

definition FdRecv :: "'w SrvEnv \<Rightarrow> int \<Rightarrow> bytes \<Rightarrow> 'w \<Rightarrow> (int \<times> bytes \<times> 'w) option" where
  "FdRecv env c b w =
     map_option (\<lambda>(n, b, w). (if n < 0 then SV_INTERNAL_ERROR env else int_of_ssize n, b, w)) (sv_recv env c b w)"

definition fd_bio :: "'w SrvEnv \<Rightarrow> int \<Rightarrow> 'w FdBio" where
  "fd_bio env conn = \<lparr>fb_send = FdSend env conn, fb_recv = FdRecv env conn\<rparr>"

subsection \<open>RunServer\<close>

datatype TlsServerAt =
    TAccept | TCalls "ServerCall list" | THandshake | TRead | TWrite nat | TNotify | TClose | TEnded

record 'w Serving =
  sr_world :: 'w
  sr_listen_fd :: int
  sr_conn :: int
  sr_buf :: bytes
  sr_at :: TlsServerAt
  sr_trace :: "ServerEvent list"

definition server_setup :: "string \<Rightarrow> string \<Rightarrow> string \<Rightarrow> ServerCall list" where
  "server_setup kServerCertPem kServerKeyPem kCaCertPem =
     [SvDrbgSeed, SvConfigDefaults, SvConfRng, SvParseCert kServerCertPem, SvParseKey kServerKeyPem,
      SvConfOwnCert, SvParseCa kCaCertPem, SvConfCaChain, SvConfAuthmode VERIFY_REQUIRED, SvSetup, SvSetBio]"

text \<open>The end of a step: the world it leaves, what it did, and the next point.\<close>

definition goes :: "'w Serving \<Rightarrow> 'w \<Rightarrow> ServerEvent list \<Rightarrow> TlsServerAt \<Rightarrow> 'w Serving" where
  "goes s w events at = s\<lparr>sr_world := w, sr_trace := sr_trace s @ events, sr_at := at\<rparr>"

definition tls_server_step :: "'w SrvEnv \<Rightarrow> ServerCall list \<Rightarrow> 'w Serving \<Rightarrow> 'w Serving option" where
  "tls_server_step env calls s =
     (let w = sr_world s; bio = fd_bio env (sr_conn s) in
      case sr_at s of
        TAccept \<Rightarrow>
          map_option (\<lambda>(conn, w). (goes s w [] (if conn < 0 then TEnded else TCalls calls))\<lparr>sr_conn := conn\<rparr>)
            (sv_accept env (sr_listen_fd s) w)
      | TCalls [] \<Rightarrow> Some (goes s w [] THandshake)
      | TCalls (c # cs) \<Rightarrow> Some (goes s (snd (sv_call env c bio w)) [Did c] (TCalls cs))
      | THandshake \<Rightarrow>
          map_option (\<lambda>(ret, w). goes s w [Shook ret]
              (if ret \<noteq> 0 then
                 (if ret \<noteq> SV_WANT_READ env \<and> ret \<noteq> SV_WANT_WRITE env then TClose else THandshake)
               else TRead))
            (sv_handshake env bio w)
      | TRead \<Rightarrow>
          map_option (\<lambda>(n, buf, w).
              (goes s w [GotPlain (take (nat n) buf)] (if n > 0 then TWrite (nat n) else TNotify))\<lparr>sr_buf := buf\<rparr>)
            (sv_read env bio (sr_buf s) w)
      | TWrite n \<Rightarrow>
          map_option (\<lambda>(_, w). goes s w [SentPlain (take n (sr_buf s))] TNotify)
            (sv_write env bio (take n (sr_buf s)) w)
      | TNotify \<Rightarrow> map_option (\<lambda>(_, w). goes s w [Notified] TClose) (sv_notify env bio w)
      | TClose \<Rightarrow> Some (goes s (sv_close env (sr_conn s) w) [] TEnded)
      | TEnded \<Rightarrow> None)"

text \<open>The start of the thread, and its joining, during which nobody else moves.\<close>

definition tls_server_thread :: "int \<Rightarrow> 'w Serving \<Rightarrow> 'w Serving" where
  "tls_server_thread listen_fd s = s\<lparr>sr_listen_fd := listen_fd, sr_at := TAccept, sr_trace := []\<rparr>"

partial_function (option) tls_server_join ::
    "'w SrvEnv \<Rightarrow> ServerCall list \<Rightarrow> 'w Serving \<Rightarrow> 'w Serving option" where
  "tls_server_join env calls s =
     (if sr_at s = TEnded then Some s
      else case tls_server_step env calls s of None \<Rightarrow> None | Some s' \<Rightarrow> tls_server_join env calls s')"

subsection \<open>Both threads\<close>

text \<open>
  What can be reached from the start of the thread: the server makes a step, or the other thread, the
  element or the network changes the world between two of them, in any way.
\<close>

inductive serving :: "'w SrvEnv \<Rightarrow> ServerCall list \<Rightarrow> int \<Rightarrow> 'w Serving \<Rightarrow> bool"
  for env :: "'w SrvEnv" and calls :: "ServerCall list" and listen_fd :: int where
  start: "serving env calls listen_fd (tls_server_thread listen_fd s)"
| server: "serving env calls listen_fd s \<Longrightarrow> tls_server_step env calls s = Some s' \<Longrightarrow>
    serving env calls listen_fd s'"
| others: "serving env calls listen_fd s \<Longrightarrow> serving env calls listen_fd (s\<lparr>sr_world := w\<rparr>)"

inductive_cases servingE: "serving env calls listen_fd s"

text \<open>What the server has done when it has reached a point.\<close>

definition shaken :: "'w SrvEnv \<Rightarrow> ServerCall list \<Rightarrow> ServerEvent list \<Rightarrow> ServerEvent list \<Rightarrow> bool" where
  "shaken env calls after t \<longleftrightarrow>
     (\<exists>rets. set rets \<subseteq> {SV_WANT_READ env, SV_WANT_WRITE env} \<and> t = map Did calls @ map Shook rets @ after)"

definition echoed :: "'w SrvEnv \<Rightarrow> ServerCall list \<Rightarrow> ServerEvent list \<Rightarrow> ServerEvent list \<Rightarrow> bool" where
  "echoed env calls after t \<longleftrightarrow>
     (\<exists>d. shaken env calls ([Shook 0, GotPlain d, SentPlain d] @ after) t \<or>
          shaken env calls ([Shook 0, GotPlain []] @ after) t)"

definition server_history :: "'w SrvEnv \<Rightarrow> ServerCall list \<Rightarrow> 'w Serving \<Rightarrow> bool" where
  "server_history env calls s \<longleftrightarrow>
     (case sr_at s of
        TAccept \<Rightarrow> sr_trace s = []
      | TCalls cs \<Rightarrow> \<exists>ds. calls = ds @ cs \<and> sr_trace s = map Did ds
      | THandshake \<Rightarrow> shaken env calls [] (sr_trace s)
      | TRead \<Rightarrow> shaken env calls [Shook 0] (sr_trace s)
      | TWrite n \<Rightarrow> shaken env calls [Shook 0, GotPlain (take n (sr_buf s))] (sr_trace s)
      | TNotify \<Rightarrow> echoed env calls [] (sr_trace s)
      | TClose \<Rightarrow> echoed env calls [Notified] (sr_trace s) \<or>
          (\<exists>ret. ret \<noteq> 0 \<and> shaken env calls [Shook ret] (sr_trace s))
      | TEnded \<Rightarrow> sr_trace s = [] \<or> echoed env calls [Notified] (sr_trace s) \<or>
          (\<exists>ret. ret \<noteq> 0 \<and> shaken env calls [Shook ret] (sr_trace s)))"

lemma shaken_snoc: "shaken env calls after t \<Longrightarrow> shaken env calls (after @ [e]) (t @ [e])"
  by (auto simp: shaken_def)

lemma echoed_snoc: "echoed env calls after t \<Longrightarrow> echoed env calls (after @ [e]) (t @ [e])"
  unfolding echoed_def by (metis append_assoc shaken_snoc)

lemma server_history_step:
  assumes "server_history env calls s" "tls_server_step env calls s = Some s'"
  shows "server_history env calls s'"
proof (cases "sr_at s")
  case TAccept
  with assms show ?thesis by (auto simp: server_history_def tls_server_step_def Let_def goes_def)
next
  case (TCalls cs)
  with assms show ?thesis
    by (cases cs) (fastforce simp: server_history_def tls_server_step_def goes_def shaken_def)+
next
  case THandshake
  then obtain rets where r: "sr_trace s = map Did calls @ map Shook rets"
    "set rets \<subseteq> {SV_WANT_READ env, SV_WANT_WRITE env}"
    using assms(1) by (auto simp: server_history_def shaken_def)
  have again: "shaken env calls [] (sr_trace s @ [Shook ret])"
    if "ret = SV_WANT_READ env \<or> ret = SV_WANT_WRITE env" for ret
    unfolding shaken_def using r that by (intro exI [of _ "rets @ [ret]"]) auto
  have last: "shaken env calls [Shook ret] (sr_trace s @ [Shook ret])" for ret
    unfolding shaken_def using r by (intro exI [of _ rets]) auto
  obtain ret w where h: "sv_handshake env (fd_bio env (sr_conn s)) (sr_world s) = Some (ret, w)"
    using assms(2) THandshake by (auto simp: tls_server_step_def Let_def)
  from again [of ret] last [of ret] assms(2) THandshake h show ?thesis
    by (cases "ret = 0") (auto simp: tls_server_step_def Let_def goes_def server_history_def)
next
  case TRead
  then have t: "shaken env calls [Shook 0] (sr_trace s)" using assms(1) by (simp add: server_history_def)
  obtain n buf w where "sv_read env (fd_bio env (sr_conn s)) (sr_buf s) (sr_world s) = Some (n, buf, w)"
    using assms(2) TRead by (auto simp: tls_server_step_def Let_def)
  with assms(2) TRead shaken_snoc [OF t, of "GotPlain (take (nat n) buf)"] show ?thesis
    by (cases "n > 0") (auto simp: server_history_def tls_server_step_def goes_def echoed_def)
next
  case (TWrite n)
  then have t: "shaken env calls [Shook 0, GotPlain (take n (sr_buf s))] (sr_trace s)"
    using assms(1) by (simp add: server_history_def)
  from shaken_snoc [OF t, of "SentPlain (take n (sr_buf s))"] assms(2) TWrite show ?thesis
    by (auto simp: server_history_def tls_server_step_def Let_def goes_def echoed_def)
next
  case TNotify
  then have t: "echoed env calls [] (sr_trace s)" using assms(1) by (simp add: server_history_def)
  from echoed_snoc [OF t, of Notified] assms(2) TNotify show ?thesis
    by (auto simp: server_history_def tls_server_step_def Let_def goes_def)
next
  case TClose
  then show ?thesis using assms
    by (auto simp: server_history_def tls_server_step_def Let_def goes_def)
next
  case TEnded
  then show ?thesis using assms(2) by (simp add: tls_server_step_def)
qed

lemma serving_history: "serving env calls listen_fd s \<Longrightarrow> server_history env calls s"
proof (induction rule: serving.induct)
  case (start s)
  then show ?case by (simp add: server_history_def tls_server_thread_def)
next
  case (server s s')
  then show ?case by (blast intro: server_history_step)
next
  case (others s w)
  then show ?case by (simp add: server_history_def split: TlsServerAt.splits)
qed

subsection \<open>A client that never connects\<close>

text \<open>
  What the examples rely on of the other thread when they join it: it waits in \<open>accept\<close> until a connection
  is made, and configuring the library makes none.
\<close>

locale waiting_thread =
  fixes env :: "('k, 'w) TlsEnv"
    and join :: "'w \<Rightarrow> 'w option"
    and waiting :: "'w \<Rightarrow> bool"
  assumes call_waiting: "waiting w \<Longrightarrow> c \<noteq> Handshake \<Longrightarrow> c \<noteq> CloseNotify \<Longrightarrow> waiting (snd (mb_call env c bio w))"
    and connect_waiting: "waiting w \<Longrightarrow> tr_Connect env host port w = (Inl e, w') \<Longrightarrow> waiting w'"
    and join_waiting: "waiting w \<Longrightarrow> join w = None"

definition never_connected :: "('k, 'w) TlsEnv \<Rightarrow> TlsConfig \<Rightarrow> nat \<Rightarrow> ('k, 'w) TlsSocket \<Rightarrow> bool" where
  "never_connected env cfg port s \<longleftrightarrow>
     (case Configure env cfg s of
        (Inl _, _) \<Rightarrow> True
      | (Inr _, s) \<Rightarrow> isl (fst (tr_Connect env ''127.0.0.1'' port (tl_world s))))"

context waiting_thread
begin

lemma mbed_waiting:
  "waiting (tl_world s) \<Longrightarrow> c \<noteq> Handshake \<Longrightarrow> c \<noteq> CloseNotify \<Longrightarrow> waiting (tl_world (snd (mbed env c s)))"
  using call_waiting [of "tl_world s" c "tls_bio env"] by (auto simp: mbed_def split: prod.split)

lemma mbed_ok_waiting:
  assumes "waiting (tl_world s)" "c \<noteq> Handshake" "c \<noteq> CloseNotify"
    and "\<And>s. waiting (tl_world s) \<Longrightarrow> waiting (tl_world (snd (k s)))"
  shows "waiting (tl_world (snd (mbed_ok env c msg s k)))"
  using mbed_waiting [OF assms(1-3)] assms(4) by (auto simp: mbed_ok_def split: prod.split)

lemma Configure_waiting:
  assumes "waiting (tl_world s)"
  shows "waiting (tl_world (snd (Configure env cfg s)))"
  unfolding Configure_def configure_verify_def configure_client_def Let_def
  using assms by (auto intro!: mbed_ok_waiting mbed_waiting split: option.split)

text \<open>The client of either example fails then, and leaves the other thread waiting.\<close>

lemma never_connected_waiting:
  assumes "waiting (tl_world s)" "never_connected env cfg port s"
  shows "case Configure env cfg s of
      (Inl _, s1) \<Rightarrow> waiting (tl_world s1)
    | (Inr _, s1) \<Rightarrow> (\<exists>e s2. Tls_Connect env ''127.0.0.1'' port s1 = Some (Inl e, s2) \<and> waiting (tl_world s2))"
proof -
  obtain r s1 where c: "Configure env cfg s = (r, s1)" by fastforce
  with Configure_waiting [OF assms(1), of cfg] have w: "waiting (tl_world s1)" by simp
  show ?thesis
  proof (cases r)
    case (Inl e)
    with c w show ?thesis by simp
  next
    case (Inr u)
    with assms(2) c obtain e w2 where t: "tr_Connect env ''127.0.0.1'' port (tl_world s1) = (Inl e, w2)"
      by (auto simp: never_connected_def isl_def split: prod.splits)
        (metis fst_conv prod.collapse)
    with connect_waiting [OF w t] w have "\<exists>e s2. Tls_Connect env ''127.0.0.1'' port s1 = Some (Inl e, s2) \<and>
        waiting (tl_world s2)" by (simp add: Tls_Connect_def Fail_def)
    with c Inr show ?thesis by simp
  qed
qed

lemma mtls_main_waits:
  assumes "listen_loopback ls w = (fd, port, w1)" "waiting (thread fd w1)"
    and "never_connected env (mtls_config ca cert key) port (TlsSocket_new (thread fd w1))"
  shows "mtls_main env ls thread join ca cert key buf w err = None"
proof -
  have "waiting (tl_world (TlsSocket_new (thread fd w1) :: ('k, 'w) TlsSocket))"
    using assms(2) by (simp add: TlsSocket_new_def)
  from never_connected_waiting [OF this assms(3)] show ?thesis
    by (auto simp: mtls_main_def with_server_def assms(1) mtls_client_def join_waiting
        split: prod.splits sum.splits)
qed

lemma se_mtls_main_waits:
  assumes "se_identity b scp03 sss setup_rc se_port w err = (using_se, opened, w1, err1)"
    and "listen_loopback ls w1 = (fd, port, w2)" "waiting (thread fd w2)"
    and "never_connected env (mtls_config ca cert (if using_se then [] else key)) port
      (if using_se then UseExternalKey pk (TlsSocket_new (thread fd w2)) else TlsSocket_new (thread fd w2))"
  shows "se_mtls_main env ls thread join b scp03 sss setup_rc pk se_port ca cert key buf w err = None"
proof -
  have "waiting (tl_world (if using_se then UseExternalKey pk (TlsSocket_new (thread fd w2))
      else TlsSocket_new (thread fd w2)))"
    using assms(3) by (simp add: TlsSocket_new_def UseExternalKey_def)
  from never_connected_waiting [OF this assms(4)] show ?thesis
    by (auto simp: se_mtls_main_def with_server_def assms(1,2) se_mtls_client_def Let_def join_waiting
        split: prod.splits sum.splits)
qed

end

text \<open>The network below the server of the examples: \<open>accept\<close> waits while nobody has connected.\<close>

locale quiet_network =
  fixes env :: "('k, 'w Serving) TlsEnv"
    and senv :: "'w SrvEnv"
    and nobody :: "'w \<Rightarrow> bool"
  assumes accept_waits: "nobody w \<Longrightarrow> sv_accept senv fd w = None"
    and call_quiet: "sr_at s = TAccept \<Longrightarrow> nobody (sr_world s) \<Longrightarrow> c \<noteq> Handshake \<Longrightarrow> c \<noteq> CloseNotify \<Longrightarrow>
      mb_call env c bio s = (ret, s') \<Longrightarrow> sr_at s' = TAccept \<and> nobody (sr_world s')"
    and connect_quiet: "sr_at s = TAccept \<Longrightarrow> nobody (sr_world s) \<Longrightarrow>
      tr_Connect env host port s = (Inl e, s') \<Longrightarrow> sr_at s' = TAccept \<and> nobody (sr_world s')"

sublocale quiet_network \<subseteq> acceptor: waiting_thread env "tls_server_join senv calls"
    "\<lambda>s. sr_at s = TAccept \<and> nobody (sr_world s)" for calls
proof (unfold_locales, goal_cases)
  case (1 s c bio)
  then show ?case using call_quiet [of s c bio] by (metis prod.collapse)
next
  case (2 s host port e s')
  then show ?case using connect_quiet [of s host port e s'] by simp
next
  case (3 s)
  then show ?case
    by (simp add: tls_server_join.simps [of senv calls s] tls_server_step_def accept_waits)
qed

context quiet_network
begin

lemma main_waits:
  assumes "listen_loopback ls s = (fd, port, s1)" "nobody (sr_world s1)"
    and "never_connected env (mtls_config ca cert key) port (TlsSocket_new (tls_server_thread fd s1))"
  shows "mtls_main env ls tls_server_thread (tls_server_join senv calls) ca cert key buf s err = None"
  by (rule acceptor.mtls_main_waits [where thread = tls_server_thread, OF assms(1) _ assms(3)]) (simp add: assms(2) tls_server_thread_def)

lemma se_main_waits:
  assumes "se_identity b scp03 sss setup_rc se_port s err = (using_se, opened, s1, err1)"
    and "listen_loopback ls s1 = (fd, port, s2)" "nobody (sr_world s2)"
    and "never_connected env (mtls_config ca cert (if using_se then [] else key)) port
      (if using_se then UseExternalKey pk (TlsSocket_new (tls_server_thread fd s2))
       else TlsSocket_new (tls_server_thread fd s2))"
  shows "se_mtls_main env ls tls_server_thread (tls_server_join senv calls) b scp03 sss setup_rc pk se_port
    ca cert key buf s err = None"
  by (rule acceptor.se_mtls_main_waits [where thread = tls_server_thread, OF assms(1,2) _ assms(4)]) (simp add: assms(3) tls_server_thread_def)

end

subsection \<open>What the server has sent\<close>

lemma shaken_Sent:
  "shaken env calls after t \<Longrightarrow> SentPlain d \<in> set t \<Longrightarrow> SentPlain d \<in> set after"
  by (auto simp: shaken_def)

lemma echoed_Sent:
  assumes "echoed env calls after t" "SentPlain d \<in> set t" "SentPlain d \<notin> set after"
  shows "shaken env calls ([Shook 0, GotPlain d, SentPlain d] @ after) t"
proof -
  from assms(1) obtain d' where "shaken env calls ([Shook 0, GotPlain d', SentPlain d'] @ after) t \<or>
      shaken env calls ([Shook 0, GotPlain []] @ after) t"
    by (auto simp: echoed_def)
  with shaken_Sent [OF _ assms(2)] assms(3) show ?thesis by fastforce
qed

lemma server_history_Sent:
  assumes "server_history env calls s" "SentPlain d \<in> set (sr_trace s)"
  shows "\<exists>after \<in> {[], [Notified]}. shaken env calls ([Shook 0, GotPlain d, SentPlain d] @ after) (sr_trace s)"
  using assms
  by (cases "sr_at s") (auto simp: server_history_def dest: shaken_Sent echoed_Sent)

subsection \<open>A pair of threads over two pipes\<close>

text \<open>
  A network of two pipes and a library that encrypts nothing, to run the programs on. The client's calls
  let the server run as far as it gets. \<open>pi_fails\<close> is a call of the client's library that fails.
\<close>

record Pipes =
  pi_refused :: bool
  pi_fails :: "nat MbedCall option"
  pi_pending :: bool
  pi_c2s :: bytes
  pi_s2c :: bytes

definition pipe_senv :: "Pipes SrvEnv" where
  "pipe_senv =
     \<lparr>sv_accept = (\<lambda>fd w. if pi_pending w then Some (5, w\<lparr>pi_pending := False\<rparr>) else None),
      sv_send = (\<lambda>fd b w. Some (int (length b), w\<lparr>pi_s2c := pi_s2c w @ b\<rparr>)),
      sv_recv = (\<lambda>fd b w.
        if pi_c2s w = [] then None
        else
          (let d = take (length b) (pi_c2s w) in
           Some (int (length d), memcpy b 0 d, w\<lparr>pi_c2s := drop (length b) (pi_c2s w)\<rparr>))),
      sv_close = (\<lambda>fd w. w),
      sv_call = (\<lambda>c bio w. (0, w)),
      sv_handshake = (\<lambda>bio w. Some (0, w)),
      sv_read = fb_recv, sv_write = fb_send,
      sv_notify = (\<lambda>bio w. Some (0, w)),
      SV_WANT_READ = - 26880, SV_WANT_WRITE = - 26752, SV_INTERNAL_ERROR = - 27648\<rparr>"

abbreviation example_setup :: "ServerCall list" where
  "example_setup \<equiv> server_setup ''SERVER'' ''SERVER KEY'' ''CA''"

fun serve_steps :: "nat \<Rightarrow> Pipes Serving \<Rightarrow> Pipes Serving" where
  "serve_steps 0 s = s"
| "serve_steps (Suc n) s =
     (case tls_server_step pipe_senv example_setup s of None \<Rightarrow> s | Some s' \<Rightarrow> serve_steps n s')"

definition pipe_env :: "(nat, Pipes Serving) TlsEnv" where
  "pipe_env =
     \<lparr>tr_Connect = (\<lambda>host port s.
        if pi_refused (sr_world s) then (Fail net_Category net_ConnectFailed ''refused'', s)
        else (Ok, s\<lparr>sr_world := (sr_world s)\<lparr>pi_pending := True\<rparr>\<rparr>)),
      tr_Send = (\<lambda>src s. (Ok, s\<lparr>sr_world := (sr_world s)\<lparr>pi_c2s := pi_c2s (sr_world s) @ src\<rparr>\<rparr>)),
      tr_Recv = (\<lambda>dst s.
        let s = serve_steps 40 s; d = take (length dst) (pi_s2c (sr_world s)) in
        (Inr (length d), memcpy dst 0 d,
         s\<lparr>sr_world := (sr_world s)\<lparr>pi_s2c := drop (length dst) (pi_s2c (sr_world s))\<rparr>\<rparr>)),
      tr_Close = (\<lambda>s. s),
      mb_call = (\<lambda>c bio s.
        if pi_fails (sr_world s) = Some c then (-1, s)
        else (0, if c = Handshake then serve_steps 40 s else s)),
      mb_write = bio_send, mb_read = bio_recv,
      ERR_WANT_READ = - 26880, ERR_WANT_WRITE = - 26752, ERR_PEER_CLOSE_NOTIFY = - 30848,
      ERR_INTERNAL = - 27648\<rparr>"

interpretation pipes: quiet_network pipe_env pipe_senv "\<lambda>w. \<not> pi_pending w"
  by unfold_locales (auto simp: pipe_env_def pipe_senv_def Fail_def split: if_splits)

definition pipe_listen :: "Pipes Serving Listen" where
  "pipe_listen =
     \<lparr>ls_socket = (\<lambda>s. (3, s)), ls_bind = (\<lambda>fd port s. (0, s)), ls_listen = (\<lambda>fd n s. (0, s)),
      ls_getsockname = (\<lambda>fd port s. (4433, s)), ls_close = (\<lambda>fd s. s)\<rparr>"

definition pipe_start :: "bool \<Rightarrow> nat MbedCall option \<Rightarrow> Pipes Serving" where
  "pipe_start refused fails =
     \<lparr>sr_world = \<lparr>pi_refused = refused, pi_fails = fails, pi_pending = False, pi_c2s = [], pi_s2c = []\<rparr>,
      sr_listen_fd = 0, sr_conn = -1, sr_buf = replicate 128 0, sr_at = TEnded, sr_trace = []\<rparr>"

abbreviation pipe_main :: "Pipes Serving \<Rightarrow> (int \<times> (nat, Pipes Serving) TlsSocket \<times> string) option" where
  "pipe_main s \<equiv> mtls_main pipe_env pipe_listen tls_server_thread (tls_server_join pipe_senv example_setup)
     ''CA'' ''CERT'' ''KEY'' (replicate 128 0) s []"

declare handshake_loop.simps [code]
declare tls_send_loop.simps [code]
declare Tls_Recv.simps [code]
declare tls_server_join.simps [code]

text \<open>On this network \<open>mtls_client\<close> ends with 0 and its message comes back.\<close>

theorem mtls_main_echoes:
  "map_option (\<lambda>(rc, tls, err). (rc, sr_at (tl_world tls), err)) (pipe_main (pipe_start False None)) =
    Some (0, TEnded, ''[INFO] mutual TLS handshake OK (presented client cert)'' @ NL @
      ''[INFO] server echoed: GET /manifest over mTLS'' @ NL)"
  by code_simp

subsection \<open>Properties\<close>

text \<open>
  C16: whatever the client, the network and the element do between the steps of the server: when it has sent
  anything in plain text, it had given the library its certificate and key and the CA of the clients,
  required a client certificate, completed a handshake after that, and what it sent is exactly what it
  had received before.
\<close>

theorem server_echo_authenticated:
  assumes "serving env (server_setup cert key ca) fd s" and "SentPlain d \<in> set (sr_trace s)"
  shows "\<exists>rets after. set rets \<subseteq> {SV_WANT_READ env, SV_WANT_WRITE env} \<and> after \<in> {[], [Notified]} \<and>
    sr_trace s =
      map Did [SvDrbgSeed, SvConfigDefaults, SvConfRng, SvParseCert cert, SvParseKey key, SvConfOwnCert,
        SvParseCa ca, SvConfCaChain, SvConfAuthmode VERIFY_REQUIRED, SvSetup, SvSetBio] @
      map Shook rets @ [Shook 0, GotPlain d, SentPlain d] @ after"
  using server_history_Sent [OF serving_history [OF assms(1)] assms(2)]
  unfolding shaken_def server_setup_def by fastforce

lemma serving_steps:
  "serving pipe_senv example_setup fd s \<Longrightarrow> serving pipe_senv example_setup fd (serve_steps n s)"
  by (induction n s rule: serve_steps.induct) (auto split: option.split intro: serving.server)

theorem server_echo_authenticated_witness:
  "\<exists>rets. sr_trace (serve_steps 40 ((tls_server_thread 3 (pipe_start False None))\<lparr>sr_world :=
      \<lparr>pi_refused = False, pi_fails = None, pi_pending = True, pi_c2s = [104, 105], pi_s2c = []\<rparr>\<rparr>)) =
    map Did example_setup @ map Shook rets @ [Shook 0, GotPlain [104, 105], SentPlain [104, 105], Notified]"
proof -
  let ?s = "serve_steps 40 ((tls_server_thread 3 (pipe_start False None))\<lparr>sr_world :=
      \<lparr>pi_refused = False, pi_fails = None, pi_pending = True, pi_c2s = [104, 105], pi_s2c = []\<rparr>\<rparr>)"
  have "serving pipe_senv example_setup 3 ?s" by (intro serving_steps serving.others serving.start)
  moreover have "SentPlain [104, 105] \<in> set (sr_trace ?s)" "last (sr_trace ?s) = Notified" by code_simp+
  ultimately show ?thesis
    using server_echo_authenticated [of pipe_senv "''SERVER''" "''SERVER KEY''" "''CA''" 3 ?s "[104, 105]"]
    by (auto simp: server_setup_def)
qed

text \<open>
  C17: \<open>mtls_client\<close>: when the configuration is refused by the library, or the connection by the network, the
  program does not report it with its exit status: it never ends, since the main thread then joins a
  server that waits in \<open>accept\<close> for the connection that was not made.
\<close>

theorem mtls_main_never_ends:
  assumes "quiet_network env senv nobody"
    and "listen_loopback ls s = (fd, port, s1)" and "nobody (sr_world s1)"
    and "never_connected env (mtls_config ca cert key) port (TlsSocket_new (tls_server_thread fd s1))"
  shows "mtls_main env ls tls_server_thread (tls_server_join senv calls) ca cert key buf s err = None"
  by (rule quiet_network.main_waits [OF assms])

theorem mtls_main_never_ends_witness:
  "pipe_main (pipe_start True None) = None \<and> pipe_main (pipe_start False (Some (ParseCa ''CA''))) = None"
proof -
  have l: "listen_loopback pipe_listen (pipe_start r f) = (3, 4433, pipe_start r f)" for r f
    by (simp add: listen_loopback_def pipe_listen_def)
  have n: "\<not> pi_pending (sr_world (pipe_start r f))" for r f by (simp add: pipe_start_def)
  let ?s = "\<lambda>r f. TlsSocket_new (tls_server_thread 3 (pipe_start r f))"
  have "never_connected pipe_env (mtls_config ''CA'' ''CERT'' ''KEY'') 4433 (?s True None)"
    "never_connected pipe_env (mtls_config ''CA'' ''CERT'' ''KEY'') 4433 (?s False (Some (ParseCa ''CA'')))"
    by code_simp+
  with mtls_main_never_ends [OF pipes.quiet_network_axioms l n] show ?thesis by blast
qed

text \<open>The same of \<open>se_mtls_client\<close>, with either key.\<close>

theorem se_mtls_main_never_ends:
  assumes "quiet_network env senv nobody"
    and "se_identity b scp03 sss setup_rc se_port s err = (using_se, opened, s1, err1)"
    and "listen_loopback ls s1 = (fd, port, s2)" and "nobody (sr_world s2)"
    and "never_connected env (mtls_config ca cert (if using_se then [] else key)) port
      (if using_se then UseExternalKey pk (TlsSocket_new (tls_server_thread fd s2))
       else TlsSocket_new (tls_server_thread fd s2))"
  shows "se_mtls_main env ls tls_server_thread (tls_server_join senv calls) b scp03 sss setup_rc pk se_port
    ca cert key buf s err = None"
  by (rule quiet_network.se_main_waits [OF assms])

end
