(* ===== verification/SeQuickstart.thy ===== *)
theory SeQuickstart
  imports ExampleSe
begin

section \<open>SeQuickstart: the tour of the secure element\<close>

text \<open>
  \<open>examples/se_quickstart/main.cpp\<close>: a tour of the API over one session, and a rotation of the SCP03 keys
  to a key set of the source and back, each way in a session of its own. The program is a chain of
  steps the first failure of which ends it.
\<close>

text \<open>The state of the program: its log, its error and output streams, and the world.\<close>

record 'w Qs =
  qs_log :: "unit LogState"
  qs_err :: string
  qs_out :: string
  qs_se :: 'w

definition qs_info :: "string \<Rightarrow> 'w Qs \<Rightarrow> 'w Qs" where
  "qs_info s q = q\<lparr>qs_err := log_info (qs_log q) s (qs_err q)\<rparr>"

definition qs_warn :: "string \<Rightarrow> 'w Qs \<Rightarrow> 'w Qs" where
  "qs_warn s q = q\<lparr>qs_err := log_warn (qs_log q) s (qs_err q)\<rparr>"

definition qs_error :: "string \<Rightarrow> 'w Qs \<Rightarrow> 'w Qs" where
  "qs_error s q = q\<lparr>qs_err := log_error (qs_log q) s (qs_err q)\<rparr>"

text \<open>A step whose failure is logged under a label and ends the function with 1.\<close>

definition qs_try :: "string \<Rightarrow> 'a Result \<times> 'w \<Rightarrow> 'w Qs \<Rightarrow> ('a \<Rightarrow> 'w Qs \<Rightarrow> int \<times> 'w Qs) \<Rightarrow> int \<times> 'w Qs" where
  "qs_try label r q k =
     (case r of
        (Inl e, w) \<Rightarrow> (1, qs_error (label @ '': '' @ pct_s (message e)) (q\<lparr>qs_se := w\<rparr>))
      | (Inr x, w) \<Rightarrow> k x (q\<lparr>qs_se := w\<rparr>))"

text \<open>\<open>if (int rc = ...; rc != 0) return rc;\<close>\<close>

definition qs_rc :: "int \<times> 'w Qs \<Rightarrow> ('w Qs \<Rightarrow> int \<times> 'w Qs) \<Rightarrow> int \<times> 'w Qs" where
  "qs_rc r k = (case r of (rc, q) \<Rightarrow> if rc \<noteq> 0 then (rc, q) else k q)"

definition kDemoBlobId :: u32 where "kDemoBlobId = 0xFE0000A0"

definition PrintHex :: "string \<Rightarrow> bytes \<Rightarrow> 'w Qs \<Rightarrow> 'w Qs" where
  "PrintHex label p q =
     q\<lparr>qs_out := qs_out q @ label @ '' ('' @ uint_text (length p) @ '' bytes): '' @
        concat (map pct_02x p) @ NL\<rparr>"

fun TypeName :: "ObjectType \<Rightarrow> string" where
  "TypeName Binary = ''binary''"
| "TypeName Certificate = ''certificate''"
| "TypeName Rsa = ''RSA key''"
| "TypeName Ecc = ''ECC key''"
| "TypeName Symmetric = ''symmetric key''"
| "TypeName Other = ''other''"

text \<open>The type of a slot, when it can be had, with what follows it in the format.\<close>

definition show_type :: "'w Sss \<Rightarrow> u32 \<Rightarrow> string \<Rightarrow> 'w Qs \<Rightarrow> 'w Qs" where
  "show_type sss slot tail q =
     (case Store_GetType sss slot (qs_se q) of
        (Inl e, w) \<Rightarrow> q\<lparr>qs_se := w\<rparr>
      | (Inr t, w) \<Rightarrow>
          qs_info (''slot 0x'' @ pct_08x slot @ '' type: '' @ TypeName t @ tail) (q\<lparr>qs_se := w\<rparr>))"

subsection \<open>The tour\<close>

text \<open>The template takes the operations of the key.\<close>

definition ExerciseAsymKey ::
    "'w Sss \<Rightarrow> (string \<Rightarrow> 'w \<Rightarrow> string Result \<times> 'w) \<Rightarrow> (bytes \<Rightarrow> 'w \<Rightarrow> bytes Result \<times> 'w) \<Rightarrow>
     (bytes \<Rightarrow> bytes \<Rightarrow> 'w \<Rightarrow> bool Result \<times> 'w) \<Rightarrow> u32 \<Rightarrow> string \<Rightarrow> bytes \<Rightarrow> 'w Qs \<Rightarrow> int \<times> 'w Qs" where
  "ExerciseAsymKey sss MakeCsr Sign Verify slot subject digest q =
     (let q = show_type sss slot [] q in
      qs_try ''csr'' (MakeCsr subject (qs_se q)) q (\<lambda>csr q.
      let q = qs_info (NL @ pct_s csr) q in
      qs_try ''sign'' (Sign digest (qs_se q)) q (\<lambda>sig q.
      let q = qs_info (''signature '' @ uint_text (length sig) @ '' bytes'') q in
      qs_try ''verify'' (Verify digest sig (qs_se q)) q (\<lambda>ok q.
      (0, qs_info (''signature self-check: '' @ (if ok then ''VALID'' else ''INVALID'')) q)))))"

definition demo_info :: bytes where
  "demo_info = [0xDE, 0xAD, 0xBE, 0xEF, 0x01, 0x02, 0x03, 0x04]"

definition tour_blob :: "'w Sss \<Rightarrow> 'w Qs \<Rightarrow> int \<times> 'w Qs" where
  "tour_blob sss q =
     qs_try ''write-blob'' (Store_WriteBinary sss kDemoBlobId demo_info True (qs_se q)) q (\<lambda>_ q.
     let q = show_type sss kDemoBlobId NL q in
     qs_try ''read-blob'' (Store_ReadBinary sss kDemoBlobId (qs_se q)) q (\<lambda>data q.
     let q = PrintHex ''blob read-back'' data q in
     case Store_Erase sss kDemoBlobId (qs_se q) of
       (Inl e, w) \<Rightarrow> (0, qs_warn (''cleanup: '' @ pct_s (message e)) (q\<lparr>qs_se := w\<rparr>))
     | (Inr _, w) \<Rightarrow> (0, q\<lparr>qs_se := w\<rparr>)))"

definition tour_ec :: "'n Asn1 \<Rightarrow> (bytes \<Rightarrow> bytes option) \<Rightarrow> 'w Sss \<Rightarrow> bytes \<Rightarrow> 'w Qs \<Rightarrow> int \<times> 'w Qs" where
  "tour_ec m sha256 sss nonce q =
     (let q = qs_info (''se_quickstart: --- EC key 0x'' @ pct_08x kEcKeyId @ '' ---'') q in
      case Store_Exists sss kEcKeyId (qs_se q) of (present, w) \<Rightarrow>
        let q = q\<lparr>qs_se := w\<rparr>;
            q = (if present
                 then qs_info (''se_quickstart: opening existing EC key 0x'' @ pct_08x kEcKeyId) q
                 else qs_info (''se_quickstart: generating EC P-256 key 0x'' @ pct_08x kEcKeyId) q) in
        qs_try ''ec key''
          (if present then EcKey_Open sss kEcKeyId (qs_se q)
           else EcKey_Generate sss kEcKeyId P256 Full (qs_se q)) q (\<lambda>k q.
        ExerciseAsymKey sss (EcKey_MakeCsr m sha256 sss k) (EcKey_Sign sss k) (EcKey_Verify sss k)
          kEcKeyId ''CN=se-quickstart-ec,O=Iritech'' nonce q))"

definition tour_rsa :: "'n Asn1 \<Rightarrow> (bytes \<Rightarrow> bytes option) \<Rightarrow> 'w Sss \<Rightarrow> bytes \<Rightarrow> 'w Qs \<Rightarrow> int \<times> 'w Qs" where
  "tour_rsa m sha256 sss nonce q =
     (case Store_Exists sss kRsaKeyId (qs_se q) of (present, w) \<Rightarrow>
        let q = q\<lparr>qs_se := w\<rparr>;
            q = (if present
                 then qs_info (''se_quickstart: opening existing key 0x'' @ pct_08x kRsaKeyId) q
                 else qs_info (''se_quickstart: generating RSA-2048 key 0x'' @ pct_08x kRsaKeyId) q) in
        qs_try ''key''
          (if present then RsaKey_Open sss kRsaKeyId (qs_se q)
           else RsaKey_Generate sss kRsaKeyId k2048 Full (qs_se q)) q (\<lambda>k q.
        let q = qs_info (''se_typequickstart: --- RSA key 0x'' @ pct_08x kRsaKeyId @ '' ---'') q in
        ExerciseAsymKey sss (RsaKey_MakeCsr m sha256 sss k) (RsaKey_Sign sss k) (RsaKey_Verify sss k)
          kRsaKeyId ''CN=se-quickstart-rsa,O=Iritech'' nonce q))"

text \<open>The steps after the session has been opened; \<open>nonce\<close> is the uninitialised array of 32 bytes.\<close>

definition tour_steps ::
    "'n Asn1 \<Rightarrow> (bytes \<Rightarrow> bytes option) \<Rightarrow> 'w Sss \<Rightarrow> bytes \<Rightarrow> 'w Qs \<Rightarrow> int \<times> 'w Qs" where
  "tour_steps m sha256 sss nonce q =
     qs_try ''uid'' (Store_GetUid sss (qs_se q)) q (\<lambda>uid q.
     let q = PrintHex ''UID'' uid q in
     case SeRandom_Fill sss nonce (qs_se q) of (st, nonce, w) \<Rightarrow>
       qs_try ''rng'' (st, w) q (\<lambda>_ q.
       let q = PrintHex ''TRNG nonce'' nonce q in
       qs_rc (tour_rsa m sha256 sss nonce q) (\<lambda>q.
       qs_rc (tour_ec m sha256 sss nonce q) (\<lambda>q.
       tour_blob sss q))))"

definition RunTour ::
    "'n Asn1 \<Rightarrow> (bytes \<Rightarrow> bytes option) \<Rightarrow> 'w Boot \<Rightarrow> bool \<Rightarrow> 'w Sss \<Rightarrow> bytes \<Rightarrow> string \<Rightarrow> 'w Qs \<Rightarrow> int \<times> 'w Qs" where
  "RunTour m sha256 b scp03 sss nonce port q =
     qs_try ''open'' (se_open b scp03 port (qs_se q)) q (\<lambda>_ q.
     case tour_steps m sha256 sss nonce (qs_info (''se_quickstart: connected to '' @ pct_s port) q) of (rc, q) \<Rightarrow>
       (rc, q\<lparr>qs_se := Connection_close b True (qs_se q)\<rparr>))"

subsection \<open>The rotation\<close>

definition kDemoNewKeys :: Scp03KeySet where
  "kDemoNewKeys =
     \<lparr>ks_enc = [0x10, 0x11, 0x12, 0x13, 0x14, 0x15, 0x16, 0x17, 0x18, 0x19, 0x1A, 0x1B, 0x1C, 0x1D, 0x1E, 0x1F],
      ks_mac = [0x20, 0x21, 0x22, 0x23, 0x24, 0x25, 0x26, 0x27, 0x28, 0x29, 0x2A, 0x2B, 0x2C, 0x2D, 0x2E, 0x2F],
      ks_dek = [0x30, 0x31, 0x32, 0x33, 0x34, 0x35, 0x36, 0x37, 0x38, 0x39, 0x3A, 0x3B, 0x3C, 0x3D, 0x3E, 0x3F]\<rparr>"

text \<open>The dash of two messages, in UTF-8.\<close>

definition em_dash :: string where
  "em_dash = [CHR 0xE2, CHR 0x80, CHR 0x94]"

definition RotateOnce ::
    "'w Boot \<Rightarrow> 'w Scp \<Rightarrow> string \<Rightarrow> Scp03KeySet \<Rightarrow> Scp03KeySet \<Rightarrow> 'w \<Rightarrow> Status \<times> 'w" where
  "RotateOnce b scp port auth target w =
     (case Connection_Open_keys b (Some port) auth False w of
        (Inl e, w) \<Rightarrow> (Inl e, w)
      | (Inr _, w) \<Rightarrow>
          (case Rotate_keys scp auth target False w of (st, w) \<Rightarrow> (st, Connection_close b True w)))"

definition RunRotateRoundtrip :: "'w Boot \<Rightarrow> 'w Scp \<Rightarrow> string \<Rightarrow> 'w Qs \<Rightarrow> int \<times> 'w Qs" where
  "RunRotateRoundtrip b scp port q =
     (let q = qs_info ''rotate: default -> new'' q in
      qs_try ''rotate to new failed (SE keys unchanged)''
        (RotateOnce b scp port kDefaultKeys kDemoNewKeys (qs_se q)) q (\<lambda>_ q.
      let q = qs_info ''rotate: new -> default (restore, fresh session)'' q in
      qs_try (''rotate BACK FAILED '' @ em_dash @ '' SE holds the NEW keys, reconnect with the demo keys to restore'')
        (RotateOnce b scp port kDemoNewKeys kDefaultKeys (qs_se q)) q (\<lambda>_ q.
      (0, qs_info (''rotate: round-trip OK '' @ em_dash @ '' SE restored to default keys'') q))))"

subsection \<open>The program\<close>

text \<open>\<open>debug\<close> is whether \<open>SE_DEBUG\<close> is set, \<open>env_port\<close> the value of \<open>EX_SSS_BOOT_SSS_PORT\<close>.\<close>

definition qs_port :: "string list \<Rightarrow> string option \<Rightarrow> string" where
  "qs_port argv env_port =
     (case (if length argv > 1 then Some (argv ! 1) else env_port) of
        None \<Rightarrow> ''/dev/i2c-3''
      | Some port \<Rightarrow> port)"

definition quickstart_main ::
    "'n Asn1 \<Rightarrow> (bytes \<Rightarrow> bytes option) \<Rightarrow> 'w Boot \<Rightarrow> bool \<Rightarrow> 'w Sss \<Rightarrow> 'w Scp \<Rightarrow> bool \<Rightarrow> bytes \<Rightarrow>
     string list \<Rightarrow> string option \<Rightarrow> 'w Qs \<Rightarrow> int \<times> 'w Qs" where
  "quickstart_main m sha256 b scp03 sss scp debug nonce argv env_port q =
     (let q = q\<lparr>qs_log := SetLevel (if debug then LDebug else LInfo) (SetSink (Some ()) (qs_log q))\<rparr>;
          port = qs_port argv env_port in
      qs_rc (RunTour m sha256 b scp03 sss nonce port q) (\<lambda>q.
      qs_rc (if scp03 then RunRotateRoundtrip b scp port q
             else (0, q\<lparr>qs_out := qs_out q @
               ''se_quickstart: SCP03 rotation needs the i2c (PlatformSCP03) build; skipped on this transport.'' @ NL\<rparr>))
        (\<lambda>q. (0, qs_info ''se_quickstart: done'' q))))"

subsection \<open>The rotation over a card that keeps its promises\<close>

text \<open>Opening and closing a session changes no key of the card.\<close>

locale demo_card = scp_card scp enc dec host_key cipher_key card session
  for scp :: "'w Scp" and enc dec host_key cipher_key card session +
  fixes b :: "'w Boot"
  assumes prepare_card: "card (snd (boot_prepare_host b skip port w)) = card w"
    and set_keys_card: "card (boot_set_keys b keys w) = card w"
    and session_open_card: "card (snd (boot_session_open b skip port w)) = card w"
    and store_init_card: "card (snd (boot_store_init b w)) = card w"
    and session_close_card: "card (boot_session_close b w) = card w"
begin

lemma close_card: "card (Connection_close b opened w) = card w"
  by (simp add: Connection_close_def session_close_card)

lemma open_card: "card (snd (Connection_Open_keys b port keys select_applet w)) = card w"
proof -
  let ?skip = "\<not> select_applet"
  obtain ok1 w1 where 1: "boot_prepare_host b ?skip port w = (ok1, w1)" by fastforce
  obtain ok2 w2 where 2: "boot_session_open b ?skip port (boot_set_keys b keys w1) = (ok2, w2)" by fastforce
  obtain ok3 w3 where 3: "boot_store_init b w2 = (ok3, w3)" by fastforce
  have "card w1 = card w" "card w2 = card w" "card w3 = card w"
    using prepare_card [of ?skip port w] session_open_card [of ?skip port "boot_set_keys b keys w1"]
      set_keys_card [of keys w1] store_init_card [of w2] 1 2 3 by simp_all
  with 1 2 3 show ?thesis by (simp add: Connection_Open_keys_def Let_def close_card)
qed

lemma RotateOnce_law:
  assumes "RotateOnce b scp port auth target w = (st, w')" "card w = auth" "keys_wf auth" "keys_wf target"
  shows "(is_ok st \<longrightarrow> card w' = target) \<and> (card w' = auth \<or> card w' = target)"
proof -
  obtain st1 w1 where o: "Connection_Open_keys b (Some port) auth False w = (st1, w1)" by fastforce
  have w1: "card w1 = auth" using open_card [of "Some port" auth False w] o assms(2) by simp
  obtain st2 w2 where r: "Rotate_keys scp auth target False w1 = (st2, w2)" by fastforce
  from Rotate_keys_law [OF r assms(3,4)] w1 assms(1) o r show ?thesis
    by (cases st1) (auto simp: RotateOnce_def close_card)
qed

end

lemma demo_keys_wf: "keys_wf kDemoNewKeys"
  by (simp add: kDemoNewKeys_def keys_wf_def)

lemma qs_try_fst: "fst (qs_try label r q k) = (case r of (Inl e, w) \<Rightarrow> 1 | (Inr x, w) \<Rightarrow> fst (k x (q\<lparr>qs_se := w\<rparr>)))"
  by (auto simp: qs_try_def split: prod.splits sum.splits)

lemma qs_log_simps [simp]:
  "qs_se (qs_info s q) = qs_se q" "qs_se (qs_warn s q) = qs_se q" "qs_se (qs_error s q) = qs_se q"
  "qs_log (qs_info s q) = qs_log q" "qs_log (qs_warn s q) = qs_log q" "qs_log (qs_error s q) = qs_log q"
  "qs_out (qs_info s q) = qs_out q" "qs_out (qs_warn s q) = qs_out q" "qs_out (qs_error s q) = qs_out q"
  by (simp_all add: qs_info_def qs_warn_def qs_error_def)

text \<open>
  C7: over any host and card that keep their promises, a round trip that starts from the default keys
  leaves the card with the default or the demo keys and no others; when it ends with 0, with the default
  keys.
\<close>

theorem rotation_roundtrip_keys:
  assumes "demo_card scp enc dec host_key cipher_key installed session b"
    and "installed (qs_se q) = kDefaultKeys" and "RunRotateRoundtrip b scp port q = (rc, q')"
  shows "(rc = 0 \<longrightarrow> installed (qs_se q') = kDefaultKeys) \<and>
    installed (qs_se q') \<in> {kDefaultKeys, kDemoNewKeys}"
proof -
  note once = demo_card.RotateOnce_law [OF assms(1)]
  obtain st1 w1 where r1: "RotateOnce b scp port kDefaultKeys kDemoNewKeys (qs_se q) = (st1, w1)" by fastforce
  note law1 = once [OF r1 assms(2) default_keys_wf demo_keys_wf]
  show ?thesis
  proof (cases st1)
    case (Inl e)
    with assms(3) r1 law1 show ?thesis by (auto simp: RunRotateRoundtrip_def Let_def qs_try_def)
  next
    case (Inr u)
    with law1 have w1: "installed w1 = kDemoNewKeys" by simp
    obtain st2 w2 where r2: "RotateOnce b scp port kDemoNewKeys kDefaultKeys w1 = (st2, w2)" by fastforce
    note law2 = once [OF r2 w1 demo_keys_wf default_keys_wf]
    with assms(3) r1 r2 Inr show ?thesis
      by (cases st2) (auto simp: RunRotateRoundtrip_def Let_def qs_try_def)
  qed
qed

interpretation demo_sim: demo_card sim_scp xor_enc xor_enc cd_host cd_cipher cd_keys "\<lambda>s. (11, cd_security s)" quiet_boot
  by unfold_locales (simp_all add: quiet_boot_def)

lemma quiet_RotateOnce:
  "RotateOnce quiet_boot scp port auth target w = Rotate_keys scp auth target False w"
  by (simp add: RotateOnce_def Connection_Open_keys_def Connection_close_def quiet_boot_def Let_def split: prod.split)

lemma sim_put_key_security: "cd_security (snd (sim_put_key cmd s)) = cd_security s"
  by (simp add: sim_put_key_def Let_def)

lemma sim_security: "cd_security (snd (Rotate_keys sim_scp cur new False s)) = cd_security s"
proof -
  let ?s = "s\<lparr>cd_host := (cd_host s)(StaticDek := ks_dek cur)\<rparr>"
  obtain r w1 where b: "key_blocks sim_scp [ks_enc new, ks_mac new, ks_dek new] [11] [11] ?s = (r, w1)" by fastforce
  have w1: "cd_security w1 = cd_security s" using sim_card.key_blocks_law [OF b] by simp
  have send: "scp_txrx sim_scp [0x80, 0xD8, 11, 0x81] cmd 64 w1 = sim_put_key cmd w1" for cmd
    by (simp add: sim_scp_def)
  have fields: "scp_key_ver sim_scp ?s = 11" "scp_security sim_scp ?s = cd_security s" by (simp_all add: sim_scp_def)
  have set: "SetCurrentDek sim_scp (ks_dek cur) s = (Ok, ?s)" by (simp add: SetCurrentDek_def sim_scp_def)
  have "cd_security (snd (SendPutKey sim_scp new ?s)) = cd_security s"
  proof (cases "cd_security s = Some 0x33")
    case False
    then have "(case cd_security s of None \<Rightarrow> 0xFF | Some l \<Rightarrow> l) \<noteq> (0x33 :: u8)" by (auto split: option.split)
    then have "snd (SendPutKey sim_scp new ?s) = ?s" by (simp add: SendPutKey_def fields)
    then show ?thesis by simp
  next
    case True
    show ?thesis
    proof (cases r)
      case (Inl e)
      then have "snd (SendPutKey sim_scp new ?s) = w1" by (simp add: SendPutKey_def fields b True del: key_blocks.simps)
      with w1 show ?thesis by simp
    next
      case (Inr x)
      obtain cmd expected where x: "x = (cmd, expected)" by fastforce
      obtain txr rsp w2 where p: "sim_put_key cmd w1 = ((txr, rsp), w2)" by (rule result_pair)
      from Inr x p have "snd (SendPutKey sim_scp new ?s) = w2"
        by (simp add: SendPutKey_def fields b True send del: key_blocks.simps)
      with p w1 sim_put_key_security [of cmd w1] show ?thesis by simp
    qed
  qed
  then show ?thesis by (simp add: Rotate_keys_def set)
qed

lemma sim_rotation:
  assumes "keys_wf new" "keys_wf (cd_keys s)" "cd_security s = Some 0x33"
  obtains s' where "Rotate_keys sim_scp (cd_keys s) new False s = (Ok, s')" "cd_keys s' = new"
    "cd_security s' = Some 0x33"
proof -
  obtain st s' where r: "Rotate_keys sim_scp (cd_keys s) new False s = (st, s')" by fastforce
  have "st = Ok" using sim_rotates [OF assms] r by simp
  moreover have "cd_security s' = Some 0x33" using sim_security [of "cd_keys s" new s] r assms(3) by simp
  moreover have "cd_keys s' = new"
    using sim_card.Rotate_keys_law [OF r assms(2,1)] \<open>st = Ok\<close> by simp
  ultimately show ?thesis using r that by blast
qed

definition default_card :: SimCard where
  "default_card = fresh_card\<lparr>cd_keys := kDefaultKeys\<rparr>"

definition qs_start :: "'w \<Rightarrow> 'w Qs" where
  "qs_start w = \<lparr>qs_log = SetLevel LInfo ex_log, qs_err = [], qs_out = [], qs_se = w\<rparr>"

theorem rotation_roundtrip_keys_witness:
  "\<exists>q'. RunRotateRoundtrip quiet_boot sim_scp ''/dev/i2c-3'' (qs_start default_card) = (0, q') \<and>
    cd_keys (qs_se q') = kDefaultKeys"
proof -
  have wf: "keys_wf (cd_keys default_card)" "cd_security default_card = Some 0x33" "cd_keys default_card = kDefaultKeys"
    by (simp_all add: default_card_def fresh_card_def default_keys_wf)
  obtain s1 where s1: "Rotate_keys sim_scp kDefaultKeys kDemoNewKeys False default_card = (Ok, s1)"
    "cd_keys s1 = kDemoNewKeys" "cd_security s1 = Some 0x33"
    using sim_rotation [OF demo_keys_wf wf(1,2)] wf(3) by metis
  obtain s2 where s2: "Rotate_keys sim_scp kDemoNewKeys kDefaultKeys False s1 = (Ok, s2)"
    using sim_rotation [OF default_keys_wf, of s1] s1(2,3) demo_keys_wf by metis
  obtain q' where run: "RunRotateRoundtrip quiet_boot sim_scp ''/dev/i2c-3'' (qs_start default_card) = (0, q')"
    using s1(1) s2
    by (simp add: RunRotateRoundtrip_def Let_def qs_try_def quiet_RotateOnce qs_start_def)
  have "cd_keys (qs_se (qs_start default_card)) = kDefaultKeys" by (simp add: qs_start_def wf(3))
  from rotation_roundtrip_keys [OF demo_sim.demo_card_axioms this run] run show ?thesis by blast
qed

subsection \<open>An answer that is lost\<close>

text \<open>The card of the simulation behind a transport that loses the answers.\<close>

definition lossy_scp :: "SimCard Scp" where
  "lossy_scp = sim_scp\<lparr>scp_txrx := \<lambda>hdr cmd n s.
     (case scp_txrx sim_scp hdr cmd n s of ((txr, rsp), s') \<Rightarrow> ((0x6F00, []), s'))\<rparr>"

lemma lossy_fields [simp]:
  "scp_key_ver lossy_scp = scp_key_ver sim_scp" "scp_security lossy_scp = scp_security sim_scp"
  "scp_key_init lossy_scp = scp_key_init sim_scp" "scp_key_allocate lossy_scp = scp_key_allocate sim_scp"
  "scp_set_key lossy_scp = scp_set_key sim_scp" "scp_get_key lossy_scp = scp_get_key sim_scp"
  "scp_symm_init lossy_scp = scp_symm_init sim_scp" "scp_cipher lossy_scp = scp_cipher sim_scp"
  by (simp_all add: lossy_scp_def)

lemma lossy_same:
  "SetCurrentDek lossy_scp = SetCurrentDek sim_scp" "CreateKeyData lossy_scp = CreateKeyData sim_scp"
  by (simp_all add: fun_eq_iff SetCurrentDek_def CreateKeyData_def GenKcvAndEncryptKey_def)

lemma lossy_blocks: "key_blocks lossy_scp ks cmd expected s = key_blocks sim_scp ks cmd expected s"
  by (induction ks arbitrary: cmd expected s) (auto simp: lossy_same split: prod.split sum.split)

interpretation lossy: scp_card lossy_scp xor_enc xor_enc cd_host cd_cipher cd_keys "\<lambda>s. (11, cd_security s)"
proof (unfold_locales, goal_cases)
  case (10 v b1 b2 b3 n w txr rsp w' ks)
  obtain txr1 rsp1 w1 where t: "scp_txrx sim_scp [0x80, 0xD8, v, 0x81]
      (v # concat (map (\<lambda>(e, c). key_block e c) [b1, b2, b3])) n w = ((txr1, rsp1), w1)"
    by (rule result_pair)
  with 10(1) have "w' = w1" "txr = 0x6F00" by (auto simp: lossy_scp_def)
  with sim_card.put_key_law [OF t 10(2,3)] show ?case by (auto simp: SM_OK_def)
qed (auto simp: sim_scp_def length_xor_enc xor_enc_cancel)

lemma lossy_rotates:
  assumes "Rotate_keys sim_scp cur new False s = (Ok, s')"
  shows "Rotate_keys lossy_scp cur new False s = (SeFail kKeyFailed ''PUT KEY transport failed'', s')"
proof -
  obtain st1 w1 where set: "SetCurrentDek sim_scp (ks_dek cur) s = (st1, w1)" by fastforce
  with assms have send: "SendPutKey sim_scp new w1 = (Ok, s')" and "\<not> isl st1"
    by (auto simp: Rotate_keys_def split: if_splits)
  let ?v = "scp_key_ver sim_scp w1"
  obtain r w2 where b: "key_blocks sim_scp [ks_enc new, ks_mac new, ks_dek new] [?v] [?v] w1 = (r, w2)" by fastforce
  have sec: "(case scp_security sim_scp w1 of None \<Rightarrow> 0xFF | Some l \<Rightarrow> l) = 0x33"
    using send by (auto simp: SendPutKey_def Let_def SeFail_def Fail_def split: if_splits)
  obtain cmd expected where r: "r = Inr (cmd, expected)"
    using send b sec by (cases r) (auto simp: SendPutKey_def Let_def simp del: key_blocks.simps)
  obtain txr rsp w3 where t: "scp_txrx sim_scp [0x80, 0xD8, ?v, 0x81] cmd 64 w2 = ((txr, rsp), w3)"
    by (rule result_pair)
  have "w3 = s'" using send b sec r t by (simp add: SendPutKey_def Let_def del: key_blocks.simps)
  then have "SendPutKey lossy_scp new w1 = (SeFail kKeyFailed ''PUT KEY transport failed'', s')"
    using b sec r t
    by (simp add: SendPutKey_def Let_def lossy_blocks del: key_blocks.simps) (simp add: lossy_scp_def SM_OK_def)
  with set \<open>\<not> isl st1\<close> show ?thesis by (simp add: Rotate_keys_def lossy_same)
qed

text \<open>
  When the answer to the first rotation is lost on the way, the program ends with 1 and the message that
  the keys of the element are unchanged, but the element holds the demo keys.
\<close>

theorem lost_answer_misreported:
  "\<exists>q'. RunRotateRoundtrip quiet_boot lossy_scp port (qs_start default_card) = (1, q') \<and>
    qs_err q' = ''[INFO] rotate: default -> new'' @ NL @
      ''[ERROR] rotate to new failed (SE keys unchanged): PUT KEY transport failed'' @ NL \<and>
    cd_keys (qs_se q') = kDemoNewKeys"
proof -
  have wf: "keys_wf (cd_keys default_card)" "cd_security default_card = Some 0x33" "cd_keys default_card = kDefaultKeys"
    by (simp_all add: default_card_def fresh_card_def default_keys_wf)
  obtain s1 where s1: "Rotate_keys sim_scp kDefaultKeys kDemoNewKeys False default_card = (Ok, s1)"
    "cd_keys s1 = kDemoNewKeys"
    using sim_rotation [OF demo_keys_wf wf(1,2)] wf(3) by metis
  show ?thesis
    using s1(2)
    by (simp add: RunRotateRoundtrip_def Let_def qs_try_def quiet_RotateOnce qs_start_def lossy_rotates [OF s1(1)]
        SeFail_def Fail_def error_Make_def qs_info_def qs_error_def log_lines_of ex_log_def SetSink_def SetLevel_def
        config_defs fixed_string_def pct_s_def NL_def)
qed

subsection \<open>The session of the tour\<close>

text \<open>
  Something \<open>f\<close> of the world that no call of the middleware changes is not changed by the operations
  made of these calls.
\<close>

locale sss_frame =
  fixes sss :: "'w Sss" and f :: "'w \<Rightarrow> 'x"
  assumes get_handle: "sss_get_handle sss h i w = (ok, h', w') \<Longrightarrow> f w' = f w"
    and allocate_handle: "sss_allocate_handle sss h i part cipher n w = (ok, h', w') \<Longrightarrow> f w' = f w"
    and erase_key: "sss_erase_key sss h w = (ok, w') \<Longrightarrow> f w' = f w"
    and set_key: "sss_set_key sss h data bits w = (ok, w') \<Longrightarrow> f w' = f w"
    and get_key: "sss_get_key sss h n w = (r, w') \<Longrightarrow> f w' = f w"
    and generate_key: "sss_generate_key sss h bits pol w = (ok, w') \<Longrightarrow> f w' = f w"
    and prop_uid: "sss_prop_uid sss n w = (p, w') \<Longrightarrow> f w' = f w"
    and rng_init: "sss_rng_init sss w = (ok, w') \<Longrightarrow> f w' = f w"
    and rng_get_random: "sss_rng_get_random sss n w = (p, w') \<Longrightarrow> f w' = f w"
    and asymmetric_init: "sss_asymmetric_init sss h alg mode w = (ok, w') \<Longrightarrow> f w' = f w"
    and sign_digest: "sss_sign_digest sss h alg digest n w = (p, w') \<Longrightarrow> f w' = f w"
    and verify_digest: "sss_verify_digest sss h alg digest sig w = (ok, w') \<Longrightarrow> f w' = f w"
begin

lemmas sss_calls = get_handle allocate_handle erase_key set_key get_key generate_key prop_uid rng_init
  rng_get_random asymmetric_init sign_digest verify_digest

lemma object_calls:
  "KeyObject_Open sss obj i w = (st, obj', w') \<Longrightarrow> f w' = f w"
  "KeyObject_Allocate sss obj i part cipher n w = (st, obj', w') \<Longrightarrow> f w' = f w"
  by (auto simp: KeyObject_Open_def KeyObject_Allocate_def dest!: sss_calls split: prod.splits)

lemma store_calls:
  "Store_GetUid sss w = (uid, w') \<Longrightarrow> f w' = f w"
  "Store_Exists sss i w = (present, w') \<Longrightarrow> f w' = f w"
  "Store_GetType sss i w = (t, w') \<Longrightarrow> f w' = f w"
  "Store_Erase sss i w = (st, w') \<Longrightarrow> f w' = f w"
  "StoreBinary sss i data w = (st, w') \<Longrightarrow> f w' = f w"
  "Store_ReadBinary sss i w = (r, w') \<Longrightarrow> f w' = f w"
  "SeRandom_Fill sss out w = (st, out', w') \<Longrightarrow> f w' = f w"
  by (auto simp: Store_GetUid_def Store_Exists_def Store_GetType_def Store_Erase_def StoreBinary_def
      Store_ReadBinary_def SeRandom_Fill_def Let_def dest!: sss_calls object_calls split: prod.splits if_splits)

lemma write_binary_call: "Store_WriteBinary sss i data force w = (r, w') \<Longrightarrow> f w' = f w"
  by (auto simp: Store_WriteBinary_def Let_def dest!: store_calls split: prod.splits if_splits)

lemma rsa_calls:
  "RsaKey_Open sss i w = (k, w') \<Longrightarrow> f w' = f w"
  "RsaKey_Sign sss key digest w = (sig, w') \<Longrightarrow> f w' = f w"
  "RsaKey_Verify sss key digest sg w = (ok, w') \<Longrightarrow> f w' = f w"
  "RsaKey_PublicKeyDer sss key w = (der, w') \<Longrightarrow> f w' = f w"
  "RsaKey_Generate sss i bits policy w = (k, w') \<Longrightarrow> f w' = f w"
  by (auto simp: RsaKey_Open_def RsaKey_Sign_def RsaKey_Verify_def RsaKey_PublicKeyDer_def RsaKey_Generate_def
      Rsa_ApplyPolicy_def Let_def dest!: sss_calls object_calls split: prod.splits if_splits)

lemma ec_calls:
  "EcKey_Open sss i w = (k, w') \<Longrightarrow> f w' = f w"
  "EcKey_Sign sss key digest w = (sig, w') \<Longrightarrow> f w' = f w"
  "EcKey_Verify sss key digest sg w = (ok, w') \<Longrightarrow> f w' = f w"
  "EcKey_PublicKeyDer sss key w = (der, w') \<Longrightarrow> f w' = f w"
  "EcKey_Generate sss i curve policy w = (k, w') \<Longrightarrow> f w' = f w"
  by (auto simp: EcKey_Open_def EcKey_Sign_def EcKey_Verify_def EcKey_PublicKeyDer_def EcKey_Generate_def
      Ec_ApplyPolicy_def Let_def dest!: sss_calls object_calls split: prod.splits if_splits)

lemma csr_calls:
  "RsaKey_MakeCsr m sha256 sss key dn w = (csr, w') \<Longrightarrow> f w' = f w"
  "EcKey_MakeCsr m sha256 sss ekey dn w = (csr, w') \<Longrightarrow> f w' = f w"
  by (auto simp: RsaKey_MakeCsr_def EcKey_MakeCsr_def make_csr_def Let_def dest!: rsa_calls ec_calls
      split: prod.splits if_splits sum.splits option.splits)

end

lemma qs_try_keeps:
  assumes "f (snd r) = c" "\<And>x q1. f (qs_se q1) = c \<Longrightarrow> f (qs_se (snd (k x q1))) = c"
  shows "f (qs_se (snd (qs_try label r q k))) = c"
  using assms by (auto simp: qs_try_def split: prod.splits sum.splits)

lemma qs_rc_keeps:
  assumes "f (qs_se (snd r)) = c" "\<And>q1. f (qs_se q1) = c \<Longrightarrow> f (qs_se (snd (k q1))) = c"
  shows "f (qs_se (snd (qs_rc r k))) = c"
  using assms by (auto simp: qs_rc_def split: prod.splits)

lemma PrintHex_se [simp]: "qs_se (PrintHex label p q) = qs_se q"
  by (simp add: PrintHex_def)

context sss_frame
begin

lemmas store_frames = store_calls(1-6) [OF prod.collapse [symmetric]]

lemma show_type_keeps [simp]: "f (qs_se (show_type sss slot tail q)) = f (qs_se q)"
proof -
  obtain t w where "Store_GetType sss slot (qs_se q) = (t, w)" by fastforce
  with store_calls(3) [OF this] show ?thesis by (cases t) (simp_all add: show_type_def)
qed

lemma exercise_keeps:
  assumes "\<And>dn w. f (snd (MakeCsr dn w)) = f w" "\<And>d w. f (snd (Sign d w)) = f w"
    "\<And>d sg w. f (snd (Verify d sg w)) = f w"
  shows "f (qs_se (snd (ExerciseAsymKey sss MakeCsr Sign Verify slot subject digest q))) = f (qs_se q)"
  unfolding ExerciseAsymKey_def Let_def
  by (rule qs_try_keeps, simp add: assms, rule qs_try_keeps, simp add: assms, rule qs_try_keeps, simp add: assms, simp)

lemma tour_blob_keeps: "f (qs_se (snd (tour_blob sss q))) = f (qs_se q)"
proof -
  have erase: "f (qs_se (snd (case Store_Erase sss kDemoBlobId (qs_se q1) of
      (Inl e, w) \<Rightarrow> (0, qs_warn (g e) (q2\<lparr>qs_se := w\<rparr>)) | (Inr _, w) \<Rightarrow> (0, q2\<lparr>qs_se := w\<rparr>)))) = f (qs_se q1)"
    for q1 q2 :: "'w Qs" and g
  proof -
    obtain st w where "Store_Erase sss kDemoBlobId (qs_se q1) = (st, w)" by fastforce
    with store_calls(4) [OF this] show ?thesis by (cases st) simp_all
  qed
  show ?thesis
    unfolding tour_blob_def Let_def
    by (rule qs_try_keeps, rule write_binary_call [OF prod.collapse [symmetric]], rule qs_try_keeps,
        simp add: store_frames(6), simp add: erase)
qed

lemma tour_rsa_keeps: "f (qs_se (snd (tour_rsa m sha256 sss nonce q))) = f (qs_se q)"
proof -
  obtain present w where p: "Store_Exists sss kRsaKeyId (qs_se q) = (present, w)" by fastforce
  then have w: "f w = f (qs_se q)" by (rule store_calls)
  have key: "f (snd (RsaKey_Open sss kRsaKeyId w)) = f (qs_se q)"
    "f (snd (RsaKey_Generate sss kRsaKeyId k2048 Full w)) = f (qs_se q)"
    using w by (simp_all add: rsa_calls(1,5) [OF prod.collapse [symmetric]])
  show ?thesis
    unfolding tour_rsa_def p Let_def prod.case if_distrib [of qs_se] qs_log_simps if_cancel
    by (rule qs_try_keeps, simp add: key)
      (simp add: exercise_keeps rsa_calls(2,3) [OF prod.collapse [symmetric]] csr_calls(1) [OF prod.collapse [symmetric]])
qed

lemma tour_ec_keeps: "f (qs_se (snd (tour_ec m sha256 sss nonce q))) = f (qs_se q)"
proof -
  obtain present w where p: "Store_Exists sss kEcKeyId (qs_se q) = (present, w)" by fastforce
  then have w: "f w = f (qs_se q)" by (rule store_calls)
  have key: "f (snd (EcKey_Open sss kEcKeyId w)) = f (qs_se q)"
    "f (snd (EcKey_Generate sss kEcKeyId P256 Full w)) = f (qs_se q)"
    using w by (simp_all add: ec_calls(1,5) [OF prod.collapse [symmetric]])
  show ?thesis
    unfolding tour_ec_def Let_def qs_log_simps p prod.case if_distrib [of qs_se] if_cancel
    by (rule qs_try_keeps, simp add: key)
      (simp add: exercise_keeps ec_calls(2,3) [OF prod.collapse [symmetric]] csr_calls(2) [OF prod.collapse [symmetric]])
qed

lemma tour_steps_keeps: "f (qs_se (snd (tour_steps m sha256 sss nonce q))) = f (qs_se q)"
proof -
  have rest: "f (qs_se (snd (qs_rc (tour_rsa m sha256 sss n q1) (\<lambda>q. qs_rc (tour_ec m sha256 sss n q) (tour_blob sss))))) =
      f (qs_se q1)" for n q1
    by (rule qs_rc_keeps, rule tour_rsa_keeps, rule qs_rc_keeps)
      (simp_all add: tour_ec_keeps tour_blob_keeps)
  have fill: "f (qs_se (snd (case SeRandom_Fill sss nonce (qs_se q1) of (st, n, w) \<Rightarrow>
      qs_try ''rng'' (st, w) q1 (g n)))) = f (qs_se q1)"
    if "\<And>n x q2. f (qs_se (snd (g n x q2))) = f (qs_se q2)" for q1 :: "'w Qs" and g :: "bytes \<Rightarrow> unit \<Rightarrow> 'w Qs \<Rightarrow> int \<times> 'w Qs"
  proof -
    obtain st n w where r: "SeRandom_Fill sss nonce (qs_se q1) = (st, n, w)" by (metis prod.exhaust)
    have "f (qs_se (snd (qs_try ''rng'' (st, w) q1 (g n)))) = f (qs_se q1)"
      by (rule qs_try_keeps) (simp_all add: store_calls(7) [OF r] that)
    then show ?thesis by (simp add: r)
  qed
  show ?thesis
    unfolding tour_steps_def Let_def
    by (rule qs_try_keeps, rule store_frames(1), subst fill) (simp_all add: rest)
qed

end

text \<open>The chip number of the simulated element is such a thing.\<close>

interpretation sim_uid: sss_frame sim_sss sim_uid
  by unfold_locales (auto simp: sim_sss_def split: option.splits if_splits)

text \<open>The number of open sessions: opening adds one when it succeeds, closing takes one away.\<close>

locale counted_boot =
  fixes b :: "'w Boot" and sessions :: "'w \<Rightarrow> nat"
  assumes prepare_count: "boot_prepare_host b skip port w = (ok, w') \<Longrightarrow> sessions w' = sessions w"
    and set_keys_count: "sessions (boot_set_keys b keys w) = sessions w"
    and session_open_count: "boot_session_open b skip port w = (ok, w') \<Longrightarrow>
      sessions w' = sessions w + (if ok then 1 else 0)"
    and open_count: "boot_open b skip port w = (ok, w') \<Longrightarrow> sessions w' = sessions w + (if ok then 1 else 0)"
    and store_init_count: "boot_store_init b w = (ok, w') \<Longrightarrow> sessions w' = sessions w"
    and close_count: "sessions (boot_session_close b w) = sessions w - 1"
begin

lemma Connection_Open_keys_count:
  assumes "Connection_Open_keys b port keys select_applet w = (st, w')"
  shows "sessions w' = sessions w + (if is_ok st then 1 else 0)"
proof -
  let ?skip = "\<not> select_applet"
  obtain ok1 w1 where 1: "boot_prepare_host b ?skip port w = (ok1, w1)" by fastforce
  obtain ok2 w2 where 2: "boot_session_open b ?skip port (boot_set_keys b keys w1) = (ok2, w2)" by fastforce
  obtain ok3 w3 where 3: "boot_store_init b w2 = (ok3, w3)" by fastforce
  from assms 1 2 3 prepare_count [OF 1] session_open_count [OF 2] set_keys_count [of keys w1] store_init_count [OF 3]
  show ?thesis
    by (auto simp: Connection_Open_keys_def Connection_close_def Let_def close_count split: if_splits)
qed

lemma Connection_Open_sim_count:
  assumes "Connection_Open_sim b port select_applet w = (st, w')"
  shows "sessions w' = sessions w + (if is_ok st then 1 else 0)"
proof -
  obtain ok1 w1 where 1: "boot_open b (\<not> select_applet) port w = (ok1, w1)" by fastforce
  obtain ok2 w2 where 2: "boot_store_init b w1 = (ok2, w2)" by fastforce
  from assms 1 2 open_count [OF 1] store_init_count [OF 2] show ?thesis
    by (auto simp: Connection_Open_sim_def Connection_close_def close_count split: if_splits)
qed

lemma se_open_count:
  assumes "se_open b scp03 port w = (st, w')"
  shows "sessions w' = sessions w + (if is_ok st then 1 else 0)"
  using assms Connection_Open_keys_count Connection_Open_sim_count
  by (auto simp: se_open_def Connection_Open_def split: if_splits)

lemma RunTour_count:
  assumes "sss_frame sss sessions"
  shows "sessions (qs_se (snd (RunTour m sha256 b scp03 sss nonce port q))) = sessions (qs_se q)"
proof -
  obtain st w where o: "se_open b scp03 port (qs_se q) = (st, w)" by fastforce
  show ?thesis
  proof (cases st)
    case (Inl e)
    with o se_open_count [OF o] show ?thesis by (simp add: RunTour_def qs_try_def)
  next
    case (Inr u)
    let ?q = "qs_info (''se_quickstart: connected to '' @ pct_s port) (q\<lparr>qs_se := w\<rparr>)"
    obtain rc q1 where t: "tour_steps m sha256 sss nonce ?q = (rc, q1)" by fastforce
    have "sessions (qs_se q1) = sessions w"
      using sss_frame.tour_steps_keeps [OF assms, of m sha256 nonce ?q] t by simp
    moreover have "RunTour m sha256 b scp03 sss nonce port q =
        (rc, q1\<lparr>qs_se := Connection_close b True (qs_se q1)\<rparr>)"
      using o Inr t by (simp add: RunTour_def qs_try_def)
    ultimately show ?thesis
      using se_open_count [OF o] Inr by (simp add: Connection_close_def close_count)
  qed
qed

end

definition counting_boot :: "nat Boot" where
  "counting_boot = quiet_boot\<lparr>boot_session_open := \<lambda>skip port n. (port \<noteq> None, if port \<noteq> None then n + 1 else n),
     boot_open := \<lambda>skip port n. (True, n + 1), boot_session_close := \<lambda>n. n - 1\<rparr>"

interpretation counting: counted_boot counting_boot "\<lambda>n. n"
  by unfold_locales (auto simp: counting_boot_def quiet_boot_def split: if_splits)

interpretation one_key: sss_frame one_key_sss f
  by unfold_locales (auto simp: one_key_sss_def no_sss_def)

text \<open>
  C23: whichever step the tour ends at, and in either build, it leaves as many sessions open as there
  were: a session it opens it closes, and one that cannot be set up is not left open.
\<close>

theorem tour_closes_session:
  assumes "counted_boot b sessions" and "sss_frame sss sessions"
  shows "sessions (qs_se (snd (RunTour m sha256 b scp03 sss nonce port q))) = sessions (qs_se q)"
  by (rule counted_boot.RunTour_count [OF assms])

theorem tour_closes_session_witness:
  "qs_se (snd (RunTour plain_asn1 sim_sha256 counting_boot True one_key_sss (replicate 32 0) ''p'' (qs_start 3))) = 3"
  using tour_closes_session [OF counting.counted_boot_axioms one_key.sss_frame_axioms, where q = "qs_start 3"]
  by (simp add: qs_start_def)

subsection \<open>The blob of the tour, and its keys\<close>

lemma demo_hex: "concat (map pct_02x demo_info) = ''deadbeef01020304''" "uint_text (length demo_info) = ''8''"
  "pct_08x kDemoBlobId = ''fe0000a0''"
proof -
  have chars: "char_of (100 :: nat) = CHR ''d''" "char_of (101 :: nat) = CHR ''e''" "char_of (97 :: nat) = CHR ''a''"
    "char_of (98 :: nat) = CHR ''b''" "char_of (102 :: nat) = CHR ''f''" "char_of (48 :: nat) = CHR ''0''"
    "char_of (49 :: nat) = CHR ''1''" "char_of (50 :: nat) = CHR ''2''" "char_of (51 :: nat) = CHR ''3''"
    "char_of (52 :: nat) = CHR ''4''"
    by code_simp+
  show "concat (map pct_02x demo_info) = ''deadbeef01020304''"
    by (simp add: demo_info_def pct_02x_def hex_byte_def hex_digit_def chars)
  show "uint_text (length demo_info) = ''8''"
    by (simp add: demo_info_def uint_text_def uint_tmp_def uint_digits.simps, code_simp)
  show "pct_08x kDemoBlobId = ''fe0000a0''"
    by (simp add: pct_08x_def kDemoBlobId_def hex_digit_def chars)
qed

context reliable_element
begin

lemma tour_blob_done:
  assumes "qs_log q = SetLevel LInfo ex_log"
  shows "\<exists>q'. tour_blob sss q = (0, q') \<and> objs (qs_se q') = (objs (qs_se q))(kDemoBlobId := None) \<and>
    qs_out q' = qs_out q @ ''blob read-back (8 bytes): deadbeef01020304'' @ NL \<and>
    qs_err q' = qs_err q @ ''[INFO] slot 0xfe0000a0 type: binary'' @ NL @ NL"
proof -
  let ?i = kDemoBlobId
  have lg: "g_sink (qs_log q) = Some ()" "LInfo \<le> g_level (qs_log q)"
    by (simp_all add: assms SetLevel_def ex_log_def SetSink_def)
  obtain r w1 where wr: "Store_WriteBinary sss ?i demo_info True (qs_se q) = (r, w1)" by fastforce
  have w1: "r = Inr True" "objs w1 = (objs (qs_se q))(?i \<mapsto> blob demo_info)"
    using WriteBinary_law [OF wr] WriteBinary_ok [of ?i demo_info True "qs_se q"] wr by (auto split: sum.splits)
  obtain t w2 where ty: "Store_GetType sss ?i w1 = (t, w2)" by fastforce
  have w2: "t = Inr Binary" "objs w2 = objs w1" using GetType_law [OF ty] w1 by (auto simp: blob_def)
  obtain d w3 where rd: "Store_ReadBinary sss ?i w2 = (d, w3)" by fastforce
  have at: "objs w2 ?i = Some (blob demo_info)" using w1 w2 by simp
  have w3: "d = Inr demo_info" "objs w3 = objs w2"
    using ReadBinary_law [OF rd] ReadBinary_at [OF at] rd
    by (auto simp: blob_def demo_info_def config_defs)
  obtain st w4 where er: "Store_Erase sss ?i w3 = (st, w4)" by fastforce
  have w4: "st = Ok" "objs w4 = (objs w3)(?i := None)"
    using Erase_law [OF er] Erase_ok [of ?i w3] er w1 w2 w3 by (cases st; auto split: if_splits)+
  define q3 where "q3 = qs_info (''slot 0x'' @ pct_08x ?i @ '' type: '' @ TypeName Binary @ NL) (q\<lparr>qs_se := w2\<rparr>)"
  have run: "tour_blob sss q = (0, (PrintHex ''blob read-back'' demo_info q3)\<lparr>qs_se := w4\<rparr>)"
    using wr ty rd er w1(1) w2(1) w3(1) w4(1)
    by (simp add: tour_blob_def qs_try_def show_type_def Let_def PrintHex_def qs_info_def q3_def)
  have q3: "qs_out q3 = qs_out q" "qs_err q3 = qs_err q @ ''[INFO] slot 0xfe0000a0 type: binary'' @ NL @ NL"
    using lg by (simp_all add: q3_def qs_info_def log_lines_of demo_hex pct_s_def NL_def)
  show ?thesis
    unfolding run using w1(2) w2(2) w3(2) w4(2) q3 by (simp add: PrintHex_def demo_hex)
qed

end

text \<open>
  On an element none of whose calls fails, the last step of the tour prints the eight bytes it wrote as
  they are read back and leaves every other object as it was. Whatever was under the demo's identifier
  before is lost.
\<close>

theorem tour_blob_roundtrip:
  assumes "reliable_element sss objs" and "qs_log q = SetLevel LInfo ex_log"
  shows "\<exists>q'. tour_blob sss q = (0, q') \<and> objs (qs_se q') = (objs (qs_se q))(kDemoBlobId := None) \<and>
    qs_out q' = qs_out q @ ''blob read-back (8 bytes): deadbeef01020304'' @ NL \<and>
    qs_err q' = qs_err q @ ''[INFO] slot 0xfe0000a0 type: binary'' @ NL @ NL"
  by (rule reliable_element.tour_blob_done [OF assms])

theorem tour_blob_roundtrip_witness:
  "\<exists>q'. tour_blob sim_sss (qs_start sim_empty) = (0, q') \<and>
    qs_out q' = ''blob read-back (8 bytes): deadbeef01020304'' @ NL"
  using tour_blob_roundtrip [OF sim_se.reliable_element_axioms, where q = "qs_start sim_empty"]
  by (auto simp: qs_start_def)

text \<open>
  The exercise of a key ends with 0 exactly when the request, the signature and the check could be made:
  a signature the element then finds invalid does not make it fail. Of the request, whose text is longer,
  the log keeps the first 126 characters after the line break.
\<close>

theorem exercise_verdict_ignored:
  "fst (ExerciseAsymKey sss MakeCsr Sign Verify slot subject digest q) =
     (let w0 = qs_se (show_type sss slot [] q);
          (csr, w1) = MakeCsr subject w0;
          (sig, w2) = Sign digest w1;
          (ok, w3) = Verify digest (projr sig) w2 in
      if is_ok csr \<and> is_ok sig \<and> is_ok ok then 0 else 1)"
proof -
  obtain csr w1 where c: "MakeCsr subject (qs_se (show_type sss slot [] q)) = (csr, w1)" by fastforce
  obtain sig w2 where s: "Sign digest w1 = (sig, w2)" by fastforce
  obtain ok w3 where v: "Verify digest (projr sig) w2 = (ok, w3)" by fastforce
  from c s v show ?thesis
    by (cases csr; cases sig; cases ok) (simp_all add: ExerciseAsymKey_def Let_def qs_try_fst)
qed

end
